(* ===== verification/Meet_Prelude.thy ===== *)
theory Meet_Prelude
  imports
    Main
    "HOL-Library.Sublist"
    "HOL-Library.AList"
    "HOL-Library.Word"
    "HOL-Library.Char_ord"
    "HOL-Library.List_Lexorder"
begin

text \<open>
  Shared vocabulary of the development: the Go language and standard-library notions the
  sources use (byte strings and the operations of package \<^verbatim>\<open>strings\<close>, decimal formatting, 64-bit
  integers, time and durations, maps), with the lemmas every component needs about them.

  Go strings are byte strings, so \<^typ>\<open>string\<close> (a list of 8-bit \<^typ>\<open>char\<close>) is exact: \<open>length\<close>
  is Go's \<^verbatim>\<open>len\<close>. A Go map is an association list with distinct keys, read by \<^const>\<open>map_of\<close>,
  written by \<^const>\<open>AList.update\<close> and \<^const>\<open>AList.delete\<close>. An \<^verbatim>\<open>error\<close> result is an option
  (\<open>None\<close> is \<^verbatim>\<open>nil\<close>); a result that is a value or an error is a sum with the error on the left.
\<close>

named_theorems go_simps \<open>rewrite rules for the operations of the Go standard library\<close>
named_theorems keeps \<open>every operation keeps the invariant of its component\<close>

section \<open>Byte strings\<close>

text \<open>\<open>strings.Index\<close>: the position of the first occurrence of a substring.\<close>

fun index_of :: "string \<Rightarrow> string \<Rightarrow> nat option" where
  "index_of [] p = (if p = [] then Some 0 else None)"
| "index_of (c # s) p = (if prefix p (c # s) then Some 0 else map_option Suc (index_of s p))"

definition contains :: "string \<Rightarrow> string \<Rightarrow> bool" where
  "contains s p \<longleftrightarrow> index_of s p \<noteq> None"

abbreviation has_prefix :: "string \<Rightarrow> string \<Rightarrow> bool" where
  "has_prefix s p \<equiv> prefix p s"

definition trim_prefix :: "string \<Rightarrow> string \<Rightarrow> string" where
  "trim_prefix s p = (if prefix p s then drop (length p) s else s)"

lemma trim_prefix_append [simp, go_simps]: "trim_prefix (p @ s) p = s"
  by (simp add: trim_prefix_def)

lemma index_of_char:
  "index_of s [c] = (if c \<in> set s then Some (length (takeWhile (\<lambda>x. x \<noteq> c) s)) else None)"
  by (induction s) auto

lemma contains_char [simp, go_simps]: "contains s [c] \<longleftrightarrow> c \<in> set s"
  by (simp add: contains_def index_of_char)

lemma takeWhile_neq_append [simp]: "c \<notin> set xs \<Longrightarrow> takeWhile (\<lambda>x. x \<noteq> c) (xs @ c # ys) = xs"
  by (induction xs) auto

lemma index_of_char_append [go_simps]: "c \<notin> set xs \<Longrightarrow> index_of (xs @ c # ys) [c] = Some (length xs)"
  by (simp add: index_of_char)

lemma index_of_char_SomeD:
  assumes "index_of s [c] = Some i"
  shows "s = take i s @ c # drop (Suc i) s" and "c \<notin> set (take i s)" and "i < length s"
proof -
  have c: "c \<in> set s" and i: "i = length (takeWhile (\<lambda>x. x \<noteq> c) s)"
    using assms by (auto simp: index_of_char split: if_splits)
  obtain ys zs where s: "s = ys @ c # zs" "c \<notin> set ys"
    using split_list_first [OF c] by blast
  then show "s = take i s @ c # drop (Suc i) s" and "c \<notin> set (take i s)" and "i < length s"
    using i by auto
qed

lemma index_of_char_None [simp]: "index_of s [c] = None \<longleftrightarrow> c \<notin> set s"
  by (simp add: index_of_char)

text \<open>
  \<open>strings.TrimSpace\<close>: the UTF-8 encodings of the characters with the Unicode property
  White\_Space are removed at both ends. Because no proper suffix or prefix of a UTF-8 encoding
  is an encoding, matching whole encodings at either end is what Go's rune decoding does.
\<close>

definition space_seqs :: "string list" where
  "space_seqs =
     map (\<lambda>n. [char_of (n::nat)]) [9, 10, 11, 12, 13, 32] @
     map (map char_of) [[0xC2::nat, 0x85], [0xC2, 0xA0], [0xE1, 0x9A, 0x80]] @
     map (\<lambda>n. [char_of (0xE2::nat), char_of (0x80::nat), char_of (n::nat)])
       [0x80, 0x81, 0x82, 0x83, 0x84, 0x85, 0x86, 0x87, 0x88, 0x89, 0x8A, 0xA8, 0xA9, 0xAF] @
     map (map char_of) [[0xE2::nat, 0x81, 0x9F], [0xE3, 0x80, 0x80]]"

lemma space_seqs_code [code]:
  "space_seqs = [[CHR 0x09], [CHR 0x0A], [CHR 0x0B], [CHR 0x0C], [CHR 0x0D], '' '',
     [CHR 0xC2, CHR 0x85], [CHR 0xC2, CHR 0xA0], [CHR 0xE1, CHR 0x9A, CHR 0x80],
     [CHR 0xE2, CHR 0x80, CHR 0x80], [CHR 0xE2, CHR 0x80, CHR 0x81], [CHR 0xE2, CHR 0x80, CHR 0x82],
     [CHR 0xE2, CHR 0x80, CHR 0x83], [CHR 0xE2, CHR 0x80, CHR 0x84], [CHR 0xE2, CHR 0x80, CHR 0x85],
     [CHR 0xE2, CHR 0x80, CHR 0x86], [CHR 0xE2, CHR 0x80, CHR 0x87], [CHR 0xE2, CHR 0x80, CHR 0x88],
     [CHR 0xE2, CHR 0x80, CHR 0x89], [CHR 0xE2, CHR 0x80, CHR 0x8A], [CHR 0xE2, CHR 0x80, CHR 0xA8],
     [CHR 0xE2, CHR 0x80, CHR 0xA9], [CHR 0xE2, CHR 0x80, CHR 0xAF], [CHR 0xE2, CHR 0x81, CHR 0x9F],
     [CHR 0xE3, CHR 0x80, CHR 0x80]]"
  by (simp add: space_seqs_def char_of_def bit_iff_odd del: One_nat_def)

function strip_seqs :: "string list \<Rightarrow> string \<Rightarrow> string" where
  "strip_seqs ps s =
     (case find (\<lambda>p. p \<noteq> [] \<and> prefix p s) ps of
        None \<Rightarrow> s
      | Some p \<Rightarrow> strip_seqs ps (drop (length p) s))"
  by pat_completeness auto
termination
  by (relation "measure (\<lambda>(ps, s). length s)") (auto simp: find_Some_iff prefix_def)

declare strip_seqs.simps [simp del]

definition trim_space :: "string \<Rightarrow> string" where
  "trim_space s = rev (strip_seqs (map rev space_seqs) (rev (strip_seqs space_seqs s)))"

lemma strip_seqs_suffix: "\<exists>p. s = p @ strip_seqs ps s"
proof (induction ps s rule: strip_seqs.induct)
  case (1 ps s)
  show ?case
  proof (cases "find (\<lambda>p. p \<noteq> [] \<and> prefix p s) ps")
    case None
    then show ?thesis by (subst strip_seqs.simps) simp
  next
    case (Some p)
    then have "prefix p s" by (auto simp: find_Some_iff)
    then have s: "s = p @ drop (length p) s" by (auto simp: prefix_def)
    from 1 [OF Some] obtain q where "drop (length p) s = q @ strip_seqs ps (drop (length p) s)"
      by blast
    with s have "s = (p @ q) @ strip_seqs ps (drop (length p) s)" by simp
    moreover have "strip_seqs ps s = strip_seqs ps (drop (length p) s)"
      using Some by (subst strip_seqs.simps) simp
    ultimately show ?thesis by metis
  qed
qed

lemma strip_seqs_Nil [simp]: "strip_seqs ps [] = []"
  using strip_seqs_suffix [of "[]" ps] by simp

lemma trim_space_Nil [simp]: "trim_space [] = []"
  by (simp add: trim_space_def)

text \<open>A byte range test, \<open>lo <= c && c <= hi\<close>.\<close>

definition char_between :: "char \<Rightarrow> char \<Rightarrow> char \<Rightarrow> bool" where
  "char_between lo hi c \<longleftrightarrow> lo \<le> c \<and> c \<le> hi"

text \<open>\<open>strings.ToLower\<close>, exact on ASCII strings (the only strings it is compared on).\<close>

definition lower_char :: "char \<Rightarrow> char" where
  "lower_char c = (let n = (of_char c :: nat) in if 65 \<le> n \<and> n \<le> 90 then char_of (n + 32) else c)"

definition to_lower :: "string \<Rightarrow> string" where
  "to_lower = map lower_char"

text \<open>\<open>strings.Trim(s, "/")\<close> and \<open>strings.TrimRight(s, "/")\<close>.\<close>

definition slash :: char where "slash = CHR ''/''"

definition trim_left_slashes :: "string \<Rightarrow> string" where
  "trim_left_slashes = dropWhile (\<lambda>c. c = slash)"

definition trim_right_slashes :: "string \<Rightarrow> string" where
  "trim_right_slashes s = rev (trim_left_slashes (rev s))"

definition trim_slashes :: "string \<Rightarrow> string" where
  "trim_slashes s = trim_right_slashes (trim_left_slashes s)"

section \<open>Decimal formatting\<close>

definition digit :: "nat \<Rightarrow> char" where
  "digit n = char_of (48 + n)"

fun show_nat :: "nat \<Rightarrow> string" where
  "show_nat n = (if n < 10 then [digit n] else show_nat (n div 10) @ [digit (n mod 10)])"

declare show_nat.simps [simp del]

text \<open>The verb \<open>%d\<close> and \<open>strconv.Itoa\<close>.\<close>

definition show_int :: "int \<Rightarrow> string" where
  "show_int i = (if i < 0 then CHR ''-'' # show_nat (nat (- i)) else show_nat (nat i))"

definition digit_value :: "char \<Rightarrow> nat" where
  "digit_value c = of_char c - 48"

definition read_nat :: "string \<Rightarrow> nat" where
  "read_nat s = foldl (\<lambda>a c. 10 * a + digit_value c) 0 s"

lemma digit_value_digit [simp]: "n < 10 \<Longrightarrow> digit_value (digit n) = n"
  by (simp add: digit_value_def digit_def of_char_of)

lemma read_show_nat [simp]: "read_nat (show_nat n) = n"
proof (induction n rule: show_nat.induct)
  case (1 n)
  show ?case
  proof (cases "n < 10")
    case True
    then show ?thesis by (subst show_nat.simps) (simp add: read_nat_def)
  next
    case False
    with 1 have "read_nat (show_nat (n div 10)) = n div 10" by simp
    with False show ?thesis by (subst show_nat.simps) (simp add: read_nat_def)
  qed
qed

lemma show_nat_inject [simp]: "show_nat m = show_nat n \<longleftrightarrow> m = n"
  by (metis read_show_nat)

lemma show_nat_nonempty [simp]: "show_nat n \<noteq> []"
  by (subst show_nat.simps) simp

definition is_digit :: "char \<Rightarrow> bool" where
  "is_digit c \<longleftrightarrow> (let n = (of_char c :: int) in 48 \<le> n \<and> n \<le> 57)"

lemma is_digit_nat: "is_digit c \<longleftrightarrow> 48 \<le> (of_char c :: nat) \<and> (of_char c :: nat) \<le> 57"
  by (simp add: is_digit_def Let_def flip: of_nat_of_char [of c, where 'a = int])

lemma is_digit_digit: "n < 10 \<Longrightarrow> is_digit (digit n)"
  by (simp add: is_digit_nat digit_def of_char_of)

lemma show_nat_digits: "c \<in> set (show_nat n) \<Longrightarrow> is_digit c"
proof (induction n rule: show_nat.induct)
  case (1 n)
  show ?case
  proof (cases "n < 10")
    case True
    with 1(2) show ?thesis by (subst (asm) show_nat.simps) (simp add: is_digit_digit)
  next
    case False
    with 1(2) have "c \<in> set (show_nat (n div 10)) \<or> c = digit (n mod 10)"
      by (subst (asm) show_nat.simps) auto
    with 1(1) False show ?thesis by (auto simp: is_digit_digit)
  qed
qed

lemma minus_not_digit [simp]: "\<not> is_digit (CHR ''-'')"
  by (simp add: is_digit_def)

lemma show_int_chars: "c \<in> set (show_int i) \<Longrightarrow> is_digit c \<or> c = CHR ''-''"
  by (auto simp: show_int_def dest: show_nat_digits split: if_splits)

lemma show_int_inject [simp]: "show_int i = show_int j \<longleftrightarrow> i = j"
proof
  assume eq: "show_int i = show_int j"
  have hd: "hd (show_nat n) \<noteq> CHR ''-''" for n
    using show_nat_digits [of "hd (show_nat n)" n] by (auto simp: hd_in_set)
  have ne: "show_nat n \<noteq> CHR ''-'' # s" for n s
    using hd [of n] by auto
  show "i = j"
    using eq ne [of "nat i"] ne [of "nat j"]
    by (auto simp: show_int_def split: if_splits) (metis ne)+
qed simp

lemma show_int_nonempty [simp]: "show_int i \<noteq> []"
  by (simp add: show_int_def)

section \<open>64-bit integers, durations and time\<close>

type_synonym u64 = "64 word"

text \<open>Two's-complement wrap-around of a mathematical integer into \<open>int64\<close>.\<close>

definition wrap64 :: "int \<Rightarrow> int" where
  "wrap64 i = (i + 2 ^ 63) mod 2 ^ 64 - 2 ^ 63"

definition max_int64 :: int where "max_int64 = 2 ^ 63 - 1"
definition min_int64 :: int where "min_int64 = - (2 ^ 63)"

lemma wrap64_id [simp]: "min_int64 \<le> i \<Longrightarrow> i \<le> max_int64 \<Longrightarrow> wrap64 i = i"
  by (simp add: wrap64_def min_int64_def max_int64_def)

lemma wrap64_range: "min_int64 \<le> wrap64 i \<and> wrap64 i \<le> max_int64"
proof -
  have "0 \<le> (i + 2 ^ 63) mod 2 ^ 64" and "(i + 2 ^ 63) mod 2 ^ 64 < 2 ^ 64"
    by simp_all
  then show ?thesis by (simp add: wrap64_def min_int64_def max_int64_def)
qed

text \<open>
  A \<open>time.Time\<close> is its distance from the Unix epoch in nanoseconds; the zero \<open>Time\<close> is the
  start of year 1. A \<open>time.Duration\<close> counts nanoseconds in an \<open>int64\<close>; \<open>Sub\<close> saturates.
\<close>

type_synonym time = int
type_synonym duration = int

definition time_zero :: time where "time_zero = - 62135596800000000000"

definition nanosecond :: duration where "nanosecond = 1"
definition millisecond :: duration where "millisecond = 1000000"
definition second :: duration where "second = 1000000000"
definition minute :: duration where "minute = 60 * second"
definition hour :: duration where "hour = 60 * minute"

definition time_sub :: "time \<Rightarrow> time \<Rightarrow> duration" where
  "time_sub t u = max min_int64 (min max_int64 (t - u))"

definition time_add :: "time \<Rightarrow> duration \<Rightarrow> time" where
  "time_add t d = t + d"

definition time_unix :: "time \<Rightarrow> int" where
  "time_unix t = t div second"

definition unix_time :: "int \<Rightarrow> time" where
  "unix_time s = s * second"

lemmas duration_defs = nanosecond_def millisecond_def second_def minute_def hour_def

lemma time_unix_unix_time [simp]: "time_unix (unix_time s) = s"
  by (simp add: time_unix_def unix_time_def second_def)

lemma time_sub_pos [simp]: "0 < time_sub t u \<longleftrightarrow> u < t"
  by (auto simp: time_sub_def min_int64_def max_int64_def)

lemma time_sub_nonpos [simp]: "time_sub t u \<le> 0 \<longleftrightarrow> t \<le> u"
  by (auto simp: time_sub_def min_int64_def max_int64_def)

lemma time_sub_mono: "t \<le> t' \<Longrightarrow> time_sub t u \<le> time_sub t' u"
  by (auto simp: time_sub_def)

lemma time_sub_exact: "\<bar>t - u\<bar> \<le> max_int64 \<Longrightarrow> time_sub t u = t - u"
  by (auto simp: time_sub_def min_int64_def max_int64_def)

lemma time_unix_mono: "t \<le> u \<Longrightarrow> time_unix t \<le> time_unix u"
  by (simp add: time_unix_def second_def zdiv_mono1)

section \<open>Maps\<close>

type_synonym ('k, 'v) go_map = "('k \<times> 'v) list"

abbreviation put :: "'k \<Rightarrow> 'v \<Rightarrow> ('k, 'v) go_map \<Rightarrow> ('k, 'v) go_map" where
  "put \<equiv> AList.update"

abbreviation remove_key :: "'k \<Rightarrow> ('k, 'v) go_map \<Rightarrow> ('k, 'v) go_map" where
  "remove_key \<equiv> AList.delete"

abbreviation keys :: "('k, 'v) go_map \<Rightarrow> 'k set" where
  "keys m \<equiv> fst ` set m"

abbreviation go_map :: "('k, 'v) go_map \<Rightarrow> bool" where
  "go_map m \<equiv> distinct (map fst m)"

lemma map_of_put [simp, go_simps]: "map_of (put k v m) = (map_of m)(k \<mapsto> v)"
  by (rule update_conv')

lemma map_of_remove_key [simp, go_simps]: "map_of (remove_key k m) = (map_of m)(k := None)"
  by (rule delete_conv')

lemma go_map_put [simp, keeps]: "go_map m \<Longrightarrow> go_map (put k v m)"
  by (rule distinct_update)

lemma go_map_remove_key [simp, keeps]: "go_map m \<Longrightarrow> go_map (remove_key k m)"
  by (simp add: delete_keys distinct_removeAll)

lemma keys_put [simp]: "keys (put k v m) = insert k (keys m)"
  by (simp add: dom_update)

lemma keys_remove_key [simp]: "keys (remove_key k m) = keys m - {k}"
proof -
  have "set (map fst (remove_key k m)) = set (removeAll k (map fst m))"
    by (simp only: delete_keys)
  then show ?thesis by simp
qed

lemma length_put:
  "go_map m \<Longrightarrow> length (put k v m) = (if k \<in> keys m then length m else Suc (length m))"
  by (induction m) auto

lemma in_set_put: "x \<in> set (put k v m) \<Longrightarrow> x = (k, v) \<or> x \<in> set m"
  by (induction m) (auto split: if_splits)

lemma in_set_remove_key: "x \<in> set (remove_key k m) \<Longrightarrow> x \<in> set m"
  by (auto simp: AList.delete_eq)

lemma map_of_filter_value:
  "go_map m \<Longrightarrow> map_of (filter (\<lambda>(_, v). P v) m) k =
     (case map_of m k of Some v \<Rightarrow> if P v then Some v else None | None \<Rightarrow> None)"
  by (induction m) (auto split: option.split simp: map_of_eq_None_iff)

text \<open>\<open>m[k]++\<close> on a map of 64-bit counters: a missing key reads as zero, the sum wraps.\<close>

definition bump_by :: "u64 \<Rightarrow> 'k \<Rightarrow> ('k, u64) go_map \<Rightarrow> ('k, u64) go_map" where
  "bump_by n k m = put k (case map_of m k of None \<Rightarrow> n | Some v \<Rightarrow> v + n) m"

abbreviation bump :: "'k \<Rightarrow> ('k, u64) go_map \<Rightarrow> ('k, u64) go_map" where
  "bump \<equiv> bump_by 1"

definition count_at :: "('k, u64) go_map \<Rightarrow> 'k \<Rightarrow> u64" where
  "count_at m k = (case map_of m k of None \<Rightarrow> 0 | Some v \<Rightarrow> v)"

lemma count_at_bump_by [simp]:
  "count_at (bump_by n k m) j = (if j = k then count_at m k + n else count_at m j)"
  by (simp add: count_at_def bump_by_def split: option.split)

lemma keys_bump_by [simp]: "keys (bump_by n k m) = insert k (keys m)"
  by (simp add: bump_by_def)

lemma go_map_bump_by [simp, keeps]: "go_map m \<Longrightarrow> go_map (bump_by n k m)"
  by (simp add: bump_by_def)

end
