(* ===== verification/Tenant_Gate.thy ===== *)
theory Tenant_Gate
  imports Meet_Prelude
begin

text \<open>
  The per-tenant room namespace gate (\<^verbatim>\<open>internal/wrap/tenant.go\<close>). A room id is
  tenant, separator byte, rest. Every access to a room by a tenant goes through \<open>SplitRoom\<close>,
  \<open>EnforceRoom\<close> or \<open>FilterRooms\<close>; the lemmas show that these agree and that no room id belongs
  to two tenants. The interface the rest of the program relies on is the locale
  \<open>room_namespace\<close>, interpreted on the gate for every separator.
\<close>

section \<open>The gate\<close>

text \<open>\<open>tenant.sep\<close> is a string of length one in the source; \<open>NewTenant\<close> is its only constructor.\<close>

record tenant =
  tenant_sep :: char

datatype tenant_error =
    ErrEmptyTenant
  | ErrEmptyRoom
  | ErrRoomMissingPrefix
  | ErrTenantMismatch
  | ErrInvalidTenant
  | ErrRestHasSeparator string string

definition DefaultTenantSeparator :: string where
  "DefaultTenantSeparator = '':''"

text \<open>\<open>None\<close> is the panic on a separator that is not a single byte.\<close>

definition NewTenant :: "string \<Rightarrow> tenant option" where
  "NewTenant sep =
     (let sep' = (if sep = [] then DefaultTenantSeparator else sep)
      in if length sep' \<noteq> 1 then None else Some \<lparr>tenant_sep = hd sep'\<rparr>)"

definition Separator :: "tenant \<Rightarrow> string" where
  "Separator T = [tenant_sep T]"

definition MaxTenantIDLen :: nat where
  "MaxTenantIDLen = 63"

definition tenant_byte :: "char \<Rightarrow> bool" where
  "tenant_byte c \<longleftrightarrow>
     char_between (CHR ''a'') (CHR ''z'') c \<or> char_between (CHR ''A'') (CHR ''Z'') c \<or>
     char_between (CHR ''0'') (CHR ''9'') c \<or> c = CHR ''-'' \<or> c = CHR ''_''"

definition validateTenant :: "tenant \<Rightarrow> string \<Rightarrow> tenant_error option" where
  "validateTenant T tenant =
     (if tenant = [] then Some ErrEmptyTenant
      else if MaxTenantIDLen < length tenant then Some ErrInvalidTenant
      else if \<not> list_all tenant_byte tenant then Some ErrInvalidTenant
      else if contains tenant (Separator T) then Some ErrInvalidTenant
      else None)"

definition QualifyRoom :: "tenant \<Rightarrow> string \<Rightarrow> string \<Rightarrow> tenant_error + string" where
  "QualifyRoom T tenant rest =
     (case validateTenant T tenant of
        Some err \<Rightarrow> Inl err
      | None \<Rightarrow>
          if rest = [] then Inl ErrEmptyRoom
          else if contains rest (Separator T) then Inl (ErrRestHasSeparator rest (Separator T))
          else Inr (tenant @ Separator T @ rest))"

definition SplitRoom :: "tenant \<Rightarrow> string \<Rightarrow> tenant_error + string \<times> string" where
  "SplitRoom T roomID =
     (if roomID = [] then Inl ErrEmptyRoom
      else case index_of roomID (Separator T) of
        None \<Rightarrow> Inl ErrRoomMissingPrefix
      | Some i \<Rightarrow>
          let tenant = take i roomID;
              rest = drop (i + length (Separator T)) roomID
          in if tenant = [] \<or> rest = [] then Inl ErrRoomMissingPrefix
             else case validateTenant T tenant of
                 Some err \<Rightarrow> Inl err
               | None \<Rightarrow> Inr (tenant, rest))"

definition EnforceRoom :: "tenant \<Rightarrow> string \<Rightarrow> string \<Rightarrow> tenant_error option" where
  "EnforceRoom T wantTenant roomID =
     (case validateTenant T wantTenant of
        Some err \<Rightarrow> Some err
      | None \<Rightarrow>
          (case SplitRoom T roomID of
             Inl err \<Rightarrow> Some err
           | Inr (got, _) \<Rightarrow> if got \<noteq> wantTenant then Some ErrTenantMismatch else None))"

definition FilterRooms :: "tenant \<Rightarrow> string \<Rightarrow> string list \<Rightarrow> string list" where
  "FilterRooms T wantTenant roomIDs =
     (case validateTenant T wantTenant of
        Some _ \<Rightarrow> []
      | None \<Rightarrow>
          let prefix' = wantTenant @ Separator T
          in filter (\<lambda>r. has_prefix r prefix' \<and> length prefix' < length r) roomIDs)"

section \<open>The interface of a room namespace\<close>

text \<open>
  What the validator, the egress proxy, the webhook receivers and the admin surface rely on:
  a room id is split into a valid owner and a non-empty rest exactly when it was joined from
  them.
\<close>

locale room_namespace =
  fixes valid :: "string \<Rightarrow> bool"
    and join :: "string \<Rightarrow> string \<Rightarrow> string"
    and split_room :: "string \<Rightarrow> 'e + string \<times> string"
  assumes split_join: "valid t \<Longrightarrow> r \<noteq> [] \<Longrightarrow> split_room (join t r) = Inr (t, r)"
    and split_sound: "split_room room = Inr (t, r) \<Longrightarrow> valid t \<and> r \<noteq> [] \<and> room = join t r"
begin

lemma split_iff: "split_room room = Inr (t, r) \<longleftrightarrow> valid t \<and> r \<noteq> [] \<and> room = join t r"
  using split_join split_sound by blast

lemma split_inject:
  "split_room a = Inr (t, r) \<Longrightarrow> split_room b = Inr (t, r) \<Longrightarrow> a = b"
  by (simp add: split_iff)

lemma join_inject:
  assumes "valid t" "valid u" "r \<noteq> []" "s \<noteq> []" "join t r = join u s"
  shows "t = u \<and> r = s"
  using assms split_join by (metis Inr_inject Pair_inject)

lemma owner_unique:
  assumes "split_room room = Inr (t, r)" "valid u" "s \<noteq> []" "room = join u s"
  shows "u = t"
  using assms by (auto simp: split_iff dest: join_inject)

end

lemma validateTenant_None_iff:
  "validateTenant T t = None \<longleftrightarrow>
     t \<noteq> [] \<and> length t \<le> MaxTenantIDLen \<and> list_all tenant_byte t \<and> tenant_sep T \<notin> set t"
  by (auto simp: validateTenant_def Separator_def)

lemma valid_tenant_no_sep: "validateTenant T t = None \<Longrightarrow> tenant_sep T \<notin> set t"
  by (simp add: validateTenant_None_iff)

lemma valid_tenant_nonempty: "validateTenant T t = None \<Longrightarrow> t \<noteq> []"
  by (simp add: validateTenant_None_iff)

lemma SplitRoom_join:
  assumes "validateTenant T t = None" "r \<noteq> []"
  shows "SplitRoom T (t @ Separator T @ r) = Inr (t, r)"
proof -
  have "index_of (t @ tenant_sep T # r) [tenant_sep T] = Some (length t)"
    using assms(1) by (intro index_of_char_append valid_tenant_no_sep)
  then show ?thesis
    using assms valid_tenant_nonempty [OF assms(1)] by (simp add: SplitRoom_def Separator_def)
qed

lemma SplitRoom_sound:
  assumes "SplitRoom T room = Inr (t, r)"
  shows "validateTenant T t = None \<and> r \<noteq> [] \<and> room = t @ Separator T @ r"
proof -
  obtain i where i: "index_of room [tenant_sep T] = Some i"
    and t: "t = take i room" and r: "r = drop (Suc i) room"
    and ok: "validateTenant T t = None" "r \<noteq> []"
    using assms by (auto simp: SplitRoom_def Separator_def Let_def split: if_splits option.splits)
  show ?thesis
    using index_of_char_SomeD(1) [OF i] t r ok by (simp add: Separator_def)
qed

interpretation rooms: room_namespace
  "\<lambda>t. validateTenant T t = None" "\<lambda>t r. t @ Separator T @ r" "SplitRoom T" for T
  by unfold_locales (auto simp: SplitRoom_join dest: SplitRoom_sound)

lemmas split_room_iff = rooms.split_iff

section \<open>Functional lemmas of the gate\<close>

lemma NewTenant_Some_iff:
  "NewTenant sep = Some T \<longleftrightarrow> sep = [] \<and> T = \<lparr>tenant_sep = CHR '':''\<rparr> \<or> sep = Separator T"
proof (cases sep)
  case Nil
  then show ?thesis
    by (auto simp: NewTenant_def DefaultTenantSeparator_def Separator_def)
next
  case (Cons c s)
  then show ?thesis
    by (cases T) (auto simp: NewTenant_def Separator_def)
qed

lemma QualifyRoom_Inr_iff:
  "QualifyRoom T t r = Inr room \<longleftrightarrow>
     validateTenant T t = None \<and> r \<noteq> [] \<and> tenant_sep T \<notin> set r \<and> room = t @ Separator T @ r"
  by (auto simp: QualifyRoom_def Separator_def split: option.split)

lemma SplitRoom_Inl_iff:
  "(\<exists>e. SplitRoom T room = Inl e) \<longleftrightarrow>
     \<not> (\<exists>t r. validateTenant T t = None \<and> r \<noteq> [] \<and> room = t @ Separator T @ r)"
proof (cases "SplitRoom T room")
  case (Inl e)
  then show ?thesis using SplitRoom_join by force
next
  case (Inr p)
  then show ?thesis by (cases p) (auto dest: SplitRoom_sound)
qed

lemma EnforceRoom_None_split:
  "EnforceRoom T t room = None \<longleftrightarrow> (\<exists>r. SplitRoom T room = Inr (t, r))"
proof (cases "SplitRoom T room")
  case (Inl e)
  then show ?thesis by (auto simp: EnforceRoom_def split: option.split)
next
  case (Inr p)
  then show ?thesis
    by (cases p) (auto simp: EnforceRoom_def dest: SplitRoom_sound split: option.split)
qed

lemma FilterRooms_filter:
  "validateTenant T t = None \<Longrightarrow>
     FilterRooms T t ids = filter (\<lambda>r. EnforceRoom T t r = None) ids"
  by (auto simp: FilterRooms_def EnforceRoom_None_split split_room_iff prefix_def intro!: filter_cong)

lemma FilterRooms_invalid: "validateTenant T t = Some e \<Longrightarrow> FilterRooms T t ids = []"
  by (simp add: FilterRooms_def)

lemma FilterRooms_eq: "FilterRooms T t ids = filter (\<lambda>r. EnforceRoom T t r = None) ids"
  by (cases "validateTenant T t")
    (simp_all add: FilterRooms_filter FilterRooms_invalid EnforceRoom_def)

lemma FilterRooms_subset: "set (FilterRooms T t ids) \<subseteq> set ids"
  by (auto simp: FilterRooms_def split: option.split)

section \<open>Properties\<close>

text \<open>
  C1. Room ownership is exact: the gate lets tenant \<open>t\<close> act on a room id precisely when \<open>t\<close> is a
  well-formed tenant id and the room id is \<open>t\<close>, the separator and a non-empty rest.
\<close>

theorem enforce_room_exact:
  "EnforceRoom T t room = None \<longleftrightarrow>
     validateTenant T t = None \<and> (\<exists>rest. rest \<noteq> [] \<and> room = t @ Separator T @ rest)"
  by (auto simp: EnforceRoom_None_split split_room_iff)

text \<open>
  C2. Cross-tenant isolation: no room id is accessible to two different tenants, so the lists two
  tenants are shown never share a room.
\<close>

theorem tenant_isolation:
  assumes "t \<noteq> u"
  shows "\<not> (EnforceRoom T t room = None \<and> EnforceRoom T u room = None) \<and>
    set (FilterRooms T t ids) \<inter> set (FilterRooms T u ids) = {}"
  using assms by (auto simp: EnforceRoom_None_split FilterRooms_eq)

theorem tenant_isolation_witness:
  "let T = \<lparr>tenant_sep = CHR '':''\<rparr> in
     EnforceRoom T ''acme'' ''acme:standup'' = None \<and>
     EnforceRoom T ''acm'' ''acme:standup'' \<noteq> None"
proof -
  let ?T = "\<lparr>tenant_sep = CHR '':''\<rparr>"
  have ne: "''acme'' \<noteq> ''acm''" by simp
  have "EnforceRoom ?T ''acme'' ''acme:standup'' = None" by code_simp
  then show ?thesis using tenant_isolation [OF ne, of ?T "''acme:standup''"] by simp
qed

text \<open>
  Round trip: a qualified room id splits back into the tenant and the room it was built from,
  and splitting any room id returns parts that join to it again.
\<close>

theorem qualify_split_roundtrip:
  "QualifyRoom T t r = Inr room \<Longrightarrow> SplitRoom T room = Inr (t, r)"
  by (auto simp: QualifyRoom_Inr_iff intro: SplitRoom_join)

theorem qualify_split_roundtrip_witness:
  "SplitRoom \<lparr>tenant_sep = CHR '':''\<rparr> ''acme:standup'' = Inr (''acme'', ''standup'')"
proof -
  have "QualifyRoom \<lparr>tenant_sep = CHR '':''\<rparr> ''acme'' ''standup'' = Inr ''acme:standup''"
    by code_simp
  then show ?thesis by (rule qualify_split_roundtrip)
qed

text \<open>
  The list view and the per-room check agree: the rooms listed for a tenant, in order and with
  multiplicity, are exactly the listed ids on which the per-room gate admits that tenant.
\<close>

theorem filter_rooms_agrees_with_enforce:
  "FilterRooms T t ids = filter (\<lambda>r. EnforceRoom T t r = None) ids"
  by (rule FilterRooms_eq)

end
