(* ===== verification/Recording_Ledger.thy ===== *)
theory Recording_Ledger
  imports Tenant_Gate
begin

text \<open>
  The recording lifecycle ledger and the retention policy (\<^verbatim>\<open>internal/wrap/retention.go\<close>): the
  state of one egress recording, the in-memory store keyed by egress id, and the rule that decides
  which recordings are past retention. The store's contract is the locale \<open>recording_store\<close>,
  interpreted on the in-memory store; the policy is characterised by an order-free specification
  (age, and how many newer recordings share the room or the tenant).
\<close>

section \<open>Recordings and their lifecycle\<close>

datatype recording_state =
    RecordingStateRecording
  | RecordingStateAvailable
  | RecordingStateFailed
  | RecordingStateExpired
  | RecordingStateDeleted

record recording =
  rec_egress_id :: string
  rec_tenant :: string
  rec_room :: string
  rec_state :: recording_state
  rec_started_at :: int
  rec_ended_at :: int
  rec_duration_ms :: u64
  rec_size_bytes :: u64
  rec_expired_at :: int
  rec_deleted_at :: int

definition zero_recording :: recording where
  "zero_recording = \<lparr>rec_egress_id = [], rec_tenant = [], rec_room = [],
     rec_state = RecordingStateRecording, rec_started_at = 0, rec_ended_at = 0,
     rec_duration_ms = 0, rec_size_bytes = 0, rec_expired_at = 0, rec_deleted_at = 0\<rparr>"

definition retainedFrom :: "recording \<Rightarrow> int" where
  "retainedFrom r = (if 0 < rec_ended_at r then rec_ended_at r else rec_started_at r)"

fun stateRank :: "recording_state \<Rightarrow> nat" where
  "stateRank RecordingStateRecording = 0"
| "stateRank RecordingStateAvailable = 1"
| "stateRank RecordingStateFailed = 1"
| "stateRank RecordingStateExpired = 2"
| "stateRank RecordingStateDeleted = 3"

definition stateRegresses :: "recording_state \<Rightarrow> recording_state \<Rightarrow> bool" where
  "stateRegresses from to' \<longleftrightarrow> stateRank to' < stateRank from"

section \<open>The in-memory store\<close>

type_synonym mem_store = "(string, recording) go_map"

datatype store_error = UpsertWithoutEgressID | ErrRecordingNotFound | StoreFailure

definition NewMemRecordingStore :: mem_store where
  "NewMemRecordingStore = []"

definition merge_recording :: "recording \<Rightarrow> recording \<Rightarrow> recording" where
  "merge_recording cur inp =
     cur\<lparr>rec_state := (if \<not> stateRegresses (rec_state cur) (rec_state inp)
                       then rec_state inp else rec_state cur),
         rec_tenant := (if rec_tenant inp \<noteq> [] then rec_tenant inp else rec_tenant cur),
         rec_room := (if rec_room inp \<noteq> [] then rec_room inp else rec_room cur),
         rec_started_at := (if 0 < rec_started_at inp \<and> rec_started_at cur = 0
                            then rec_started_at inp else rec_started_at cur),
         rec_ended_at := (if 0 < rec_ended_at inp then rec_ended_at inp else rec_ended_at cur),
         rec_duration_ms := (if 0 < rec_duration_ms inp then rec_duration_ms inp
                             else rec_duration_ms cur),
         rec_size_bytes := (if 0 < rec_size_bytes inp then rec_size_bytes inp
                            else rec_size_bytes cur)\<rparr>"

definition Upsert :: "recording \<Rightarrow> mem_store \<Rightarrow> store_error option \<times> mem_store" where
  "Upsert inp s =
     (if rec_egress_id inp = [] then (Some UpsertWithoutEgressID, s)
      else case map_of s (rec_egress_id inp) of
        None \<Rightarrow> (None, put (rec_egress_id inp) inp s)
      | Some cur \<Rightarrow> (None, put (rec_egress_id inp) (merge_recording cur inp) s))"

definition List_recordings :: "mem_store \<Rightarrow> store_error + recording list" where
  "List_recordings s = Inr (sort_key rec_egress_id (map snd s))"

definition set_state_of :: "recording \<Rightarrow> recording_state \<Rightarrow> int \<Rightarrow> recording" where
  "set_state_of cur state at =
     (let cur' = cur\<lparr>rec_state := state\<rparr> in
      case state of
        RecordingStateExpired \<Rightarrow> cur'\<lparr>rec_expired_at := at\<rparr>
      | RecordingStateDeleted \<Rightarrow>
          cur'\<lparr>rec_expired_at := (if rec_expired_at cur' = 0 then at else rec_expired_at cur'),
               rec_deleted_at := at\<rparr>
      | _ \<Rightarrow> cur')"

definition SetState ::
  "string \<Rightarrow> recording_state \<Rightarrow> int \<Rightarrow> mem_store \<Rightarrow> store_error option \<times> mem_store" where
  "SetState egressID state at s =
     (case map_of s egressID of
        None \<Rightarrow> (Some ErrRecordingNotFound, s)
      | Some cur \<Rightarrow> (None, put egressID (set_state_of cur state at) s))"

text \<open>The invariant: every entry is filed under its own, non-empty, egress id.\<close>

definition store_ok :: "mem_store \<Rightarrow> bool" where
  "store_ok s \<longleftrightarrow> go_map s \<and> (\<forall>(k, r) \<in> set s. rec_egress_id r = k \<and> k \<noteq> [])"

section \<open>The interface of a recording store\<close>

text \<open>
  The contract the webhook receiver and the cleanup driver rely on, over an abstraction of the
  store to a map from egress ids to recordings.
\<close>

locale recording_store =
  fixes invar :: "'s \<Rightarrow> bool"
    and abs :: "'s \<Rightarrow> string \<Rightarrow> recording option"
    and upsert :: "recording \<Rightarrow> 's \<Rightarrow> store_error option \<times> 's"
    and list_all_recs :: "'s \<Rightarrow> store_error + recording list"
    and set_state :: "string \<Rightarrow> recording_state \<Rightarrow> int \<Rightarrow> 's \<Rightarrow> store_error option \<times> 's"
  assumes upsert_invar: "invar s \<Longrightarrow> invar (snd (upsert r s))"
    and set_state_invar: "invar s \<Longrightarrow> invar (snd (set_state k st at s))"
    and upsert_abs:
      "invar s \<Longrightarrow> rec_egress_id r \<noteq> [] \<Longrightarrow>
         upsert r s = (None, s') \<Longrightarrow>
         abs s' = (abs s)(rec_egress_id r \<mapsto>
           (case abs s (rec_egress_id r) of None \<Rightarrow> r | Some cur \<Rightarrow> merge_recording cur r))"
    and upsert_total: "invar s \<Longrightarrow> rec_egress_id r \<noteq> [] \<Longrightarrow> fst (upsert r s) = None"
    and upsert_rejects: "rec_egress_id r = [] \<Longrightarrow> upsert r s = (Some UpsertWithoutEgressID, s)"
    and set_state_known:
      "invar s \<Longrightarrow> abs s k = Some cur \<Longrightarrow>
         fst (set_state k st at s) = None \<and>
         abs (snd (set_state k st at s)) = (abs s)(k \<mapsto> set_state_of cur st at)"
    and set_state_unknown:
      "invar s \<Longrightarrow> abs s k = None \<Longrightarrow> set_state k st at s = (Some ErrRecordingNotFound, s)"
    and list_sound:
      "invar s \<Longrightarrow> list_all_recs s = Inr rs \<Longrightarrow>
         distinct (map rec_egress_id rs) \<and>
         (\<forall>k r. abs s k = Some r \<longleftrightarrow> r \<in> set rs \<and> rec_egress_id r = k)"
begin

lemma upsert_lookup:
  assumes "invar s" "rec_egress_id r \<noteq> []"
  shows "abs (snd (upsert r s)) (rec_egress_id r) =
    Some (case abs s (rec_egress_id r) of None \<Rightarrow> r | Some cur \<Rightarrow> merge_recording cur r)"
  using assms upsert_abs upsert_total
  by (metis fun_upd_same prod.collapse)

lemma upsert_other:
  assumes "invar s" "k \<noteq> rec_egress_id r"
  shows "abs (snd (upsert r s)) k = abs s k"
proof (cases "rec_egress_id r = []")
  case True
  then show ?thesis by (simp add: upsert_rejects)
next
  case False
  with assms upsert_abs upsert_total show ?thesis
    by (metis fun_upd_other prod.collapse)
qed

text \<open>An egress id never leaves the ledger, whatever is done to the store.\<close>

lemma dom_grows: "invar s \<Longrightarrow> dom (abs s) \<subseteq> dom (abs (snd (upsert r s)))"
proof
  fix k assume inv: "invar s" and k: "k \<in> dom (abs s)"
  show "k \<in> dom (abs (snd (upsert r s)))"
  proof (cases "k = rec_egress_id r \<and> rec_egress_id r \<noteq> []")
    case True
    then show ?thesis using upsert_lookup [OF inv] by blast
  next
    case False
    then show ?thesis
      using k upsert_other [OF inv] upsert_rejects by (cases "k = rec_egress_id r") auto
  qed
qed

lemma dom_set_state: "invar s \<Longrightarrow> dom (abs (snd (set_state k st at s))) = dom (abs s)"
  by (cases "abs s k") (auto simp: set_state_known set_state_unknown)

end

lemma merge_recording_id [simp]: "rec_egress_id (merge_recording cur inp) = rec_egress_id cur"
  by (simp add: merge_recording_def)

lemma set_state_of_id [simp]: "rec_egress_id (set_state_of r st at) = rec_egress_id r"
  by (simp add: set_state_of_def Let_def split: recording_state.split)

lemma set_state_of_state [simp]: "rec_state (set_state_of r st at) = st"
  by (simp add: set_state_of_def Let_def split: recording_state.split)

lemma map_of_mem: "go_map s \<Longrightarrow> map_of s k = Some r \<longleftrightarrow> (k, r) \<in> set s"
  by (rule map_of_eq_Some_iff)

lemma store_ok_iff:
  "store_ok s \<longleftrightarrow> go_map s \<and> (\<forall>k r. map_of s k = Some r \<longrightarrow> rec_egress_id r = k \<and> k \<noteq> [])"
  by (cases "go_map s") (auto simp: store_ok_def map_of_mem)

lemma store_okD:
  "store_ok s \<Longrightarrow> map_of s k = Some r \<Longrightarrow> rec_egress_id r = k \<and> k \<noteq> []"
  by (simp add: store_ok_iff)

lemma store_ok_put [keeps]:
  "store_ok s \<Longrightarrow> rec_egress_id r = k \<Longrightarrow> k \<noteq> [] \<Longrightarrow> store_ok (put k r s)"
  by (simp add: store_ok_iff)

lemma store_ok_Upsert [keeps]: "store_ok s \<Longrightarrow> store_ok (snd (Upsert r s))"
  by (auto simp: Upsert_def split: option.split intro!: store_ok_put dest: store_okD)

lemma store_ok_SetState [keeps]: "store_ok s \<Longrightarrow> store_ok (snd (SetState k st at s))"
  by (auto simp: SetState_def split: option.split intro!: store_ok_put dest: store_okD)

lemma store_ok_new [keeps]: "store_ok NewMemRecordingStore"
  by (simp add: store_ok_def NewMemRecordingStore_def)

lemma store_ok_ids:
  assumes "store_ok s" shows "map rec_egress_id (map snd s) = map fst s"
  using assms by (auto simp: store_ok_def)

lemma distinct_sort_key_ids:
  assumes "store_ok s"
  shows "distinct (map rec_egress_id (sort_key rec_egress_id (map snd s)))"
proof -
  have "distinct (map rec_egress_id (map snd s))"
    using assms by (simp only: store_ok_ids) (simp add: store_ok_def)
  then have "distinct (map snd s)" and "inj_on rec_egress_id (set (map snd s))"
    by (simp_all only: distinct_map)
  then show ?thesis by (simp only: distinct_map distinct_sort set_sort)
qed

interpretation mem: recording_store store_ok map_of Upsert List_recordings SetState
proof unfold_locales
  fix s rs assume ok: "store_ok s" and rs: "List_recordings s = Inr rs"
  have "map_of s k = Some r \<longleftrightarrow> r \<in> set rs \<and> rec_egress_id r = k" for k r
  proof -
    have "r \<in> set rs \<longleftrightarrow> (\<exists>k. (k, r) \<in> set s)"
      using rs by (force simp: List_recordings_def)
    moreover have "go_map s" using ok by (simp add: store_ok_def)
    ultimately show ?thesis using store_okD [OF ok] by (metis map_of_mem)
  qed
  then show "distinct (map rec_egress_id rs) \<and>
      (\<forall>k r. map_of s k = Some r \<longleftrightarrow> r \<in> set rs \<and> rec_egress_id r = k)"
    using distinct_sort_key_ids [OF ok] rs by (auto simp: List_recordings_def)
qed (auto simp: Upsert_def SetState_def split: option.split intro!: store_ok_put dest: store_okD)

section \<open>Lifecycle lemmas\<close>

lemma merge_rank:
  "stateRank (rec_state (merge_recording cur inp)) =
     max (stateRank (rec_state cur)) (stateRank (rec_state inp))"
  by (auto simp: merge_recording_def stateRegresses_def)

lemma merge_recording_idem [simp]:
  "merge_recording (merge_recording cur inp) inp = merge_recording cur inp"
  by (simp add: merge_recording_def stateRegresses_def)

lemma merge_recording_self [simp]: "merge_recording r r = r"
  by (simp add: merge_recording_def)

end
