(* ===== verification/Retention_Policy.thy ===== *)
theory Retention_Policy
  imports Recording_Ledger
begin

text \<open>
  The retention policy (\<^verbatim>\<open>RetentionPolicy\<close>, \<^verbatim>\<open>expiredEgressIDs\<close>, \<^verbatim>\<open>groupBy\<close> and \<^verbatim>\<open>markOldestBeyond\<close> of
  \<^verbatim>\<open>internal/wrap/retention.go\<close>): which ledger entries are past retention. The grouping and sorting
  code is refined to an order-free specification, \<open>past_retention\<close>, and the caps are shown to hold.
\<close>

section \<open>The retention policy\<close>

record retention_policy =
  pol_ttl :: duration
  pol_max_per_room :: int
  pol_max_per_tenant :: int

definition policy_enabled :: "retention_policy \<Rightarrow> bool" where
  "policy_enabled p \<longleftrightarrow> 0 < pol_ttl p \<or> 0 < pol_max_per_room p \<or> 0 < pol_max_per_tenant p"

text \<open>
  Newness: by finalisation time, ties broken by egress id. The order of the comparison function
  that \<open>markOldestBeyond\<close> hands to \<open>sort.Slice\<close>.
\<close>

datatype newness = Newness int string

instantiation newness :: linorder
begin

fun less_eq_newness :: "newness \<Rightarrow> newness \<Rightarrow> bool" where
  "less_eq_newness (Newness s i) (Newness t j) \<longleftrightarrow> s < t \<or> s = t \<and> i \<le> j"

definition less_newness :: "newness \<Rightarrow> newness \<Rightarrow> bool" where
  "less_newness a b \<longleftrightarrow> a \<le> b \<and> \<not> b \<le> (a :: newness)"

instance
proof
  fix x y z :: newness
  show "x < y \<longleftrightarrow> x \<le> y \<and> \<not> y \<le> x" by (rule less_newness_def)
  show "x \<le> x" by (cases x) simp
  show "x \<le> y \<Longrightarrow> y \<le> z \<Longrightarrow> x \<le> z" by (cases x; cases y; cases z) auto
  show "x \<le> y \<Longrightarrow> y \<le> x \<Longrightarrow> x = y" by (cases x; cases y) auto
  show "x \<le> y \<or> y \<le> x" by (cases x; cases y) auto
qed

end

definition newness_of :: "recording \<Rightarrow> newness" where
  "newness_of r = Newness (retainedFrom r) (rec_egress_id r)"

text \<open>
  The groups have distinct egress ids, so \<open>newness_of\<close> is injective on them and every correct sort
  by the comparison function gives this one descending list.
\<close>

definition newest_first :: "recording list \<Rightarrow> recording list" where
  "newest_first grp = rev (sort_key newness_of grp)"

definition markOldestBeyond :: "recording list \<Rightarrow> int \<Rightarrow> string set \<Rightarrow> string set" where
  "markOldestBeyond grp keep out =
     (if keep \<le> 0 \<or> int (length grp) \<le> keep then out
      else out \<union> set (map rec_egress_id (drop (nat keep) (newest_first grp))))"

definition groupBy :: "(recording \<Rightarrow> string) \<Rightarrow> recording list \<Rightarrow> (string, recording list) go_map" where
  "groupBy key recs =
     foldl (\<lambda>m r. put (key r) ((case map_of m (key r) of None \<Rightarrow> [] | Some g \<Rightarrow> g) @ [r]) m) [] recs"

definition room_group_key :: "recording \<Rightarrow> string" where
  "room_group_key r = rec_tenant r @ CHR 0x00 # rec_room r"

definition retention_eligible :: "recording \<Rightarrow> bool" where
  "retention_eligible r \<longleftrightarrow> rec_state r \<notin> {RecordingStateRecording, RecordingStateDeleted}"

definition mark_groups :: "int \<Rightarrow> (recording \<Rightarrow> string) \<Rightarrow> recording list \<Rightarrow> string set \<Rightarrow> string set" where
  "mark_groups keep key recs out =
     (if 0 < keep then fold (\<lambda>(_, grp) out. markOldestBeyond grp keep out) (groupBy key recs) out
      else out)"

definition expiredEgressIDs :: "retention_policy \<Rightarrow> recording list \<Rightarrow> time \<Rightarrow> string set" where
  "expiredEgressIDs p recs now =
     (if \<not> policy_enabled p then {}
      else
        let eligible = filter retention_eligible recs;
            out = (if 0 < pol_ttl p then
                     let cutoff = time_unix (time_add now (- pol_ttl p)) in
                     set (map rec_egress_id
                       (filter (\<lambda>r. 0 < retainedFrom r \<and> retainedFrom r \<le> cutoff) eligible))
                   else {});
            out = mark_groups (pol_max_per_room p) room_group_key eligible out
        in mark_groups (pol_max_per_tenant p) rec_tenant eligible out)"

section \<open>Sorting and grouping\<close>

lemma in_drop_desc:
  fixes f :: "'a \<Rightarrow> 'b::linorder"
  assumes "sorted_wrt (\<lambda>a b. f b < f a) xs" "x \<in> set xs"
  shows "x \<in> set (drop n xs) \<longleftrightarrow> n \<le> length (filter (\<lambda>y. f x < f y) xs)"
  using assms
proof (induction xs arbitrary: n)
  case Nil
  then show ?case by simp
next
  case (Cons a xs)
  show ?case
  proof (cases "x = a")
    case True
    with Cons.prems have none: "filter (\<lambda>y. f x < f y) (a # xs) = []"
      by (auto simp: filter_empty_conv)
    moreover have "x \<notin> set (drop m xs)" for m
      using Cons.prems True by (auto dest: in_set_dropD)
    ultimately show ?thesis using True by (cases n) auto
  next
    case False
    with Cons.prems have "f x < f a" and "x \<in> set xs" by auto
    then show ?thesis using Cons by (cases n) auto
  qed
qed

lemma newness_of_inject: "newness_of r = newness_of s \<Longrightarrow> rec_egress_id r = rec_egress_id s"
  by (simp add: newness_of_def)

lemma newest_first_set [simp]: "set (newest_first grp) = set grp"
  by (simp add: newest_first_def)

lemma length_filter_newest_first [simp]:
  "length (filter P (newest_first grp)) = length (filter P grp)"
  by (simp add: newest_first_def rev_filter [symmetric] filter_sort)

lemma newest_first_desc:
  assumes "distinct (map rec_egress_id grp)"
  shows "sorted_wrt (\<lambda>a b. newness_of b < newness_of a) (newest_first grp)"
proof -
  let ?ys = "sort_key newness_of grp"
  have inj: "inj_on newness_of (set grp)" and dis: "distinct grp"
    using assms by (auto simp: distinct_map inj_on_def dest: newness_of_inject)
  have "sorted (map newness_of ?ys)" by simp
  moreover have "distinct (map newness_of ?ys)"
    using inj dis by (simp add: distinct_map)
  ultimately have "sorted_wrt (<) (map newness_of ?ys)"
    by (simp add: strict_sorted_iff)
  then show ?thesis
    by (simp add: newest_first_def sorted_wrt_rev sorted_wrt_map)
qed

abbreviation newer_in :: "recording list \<Rightarrow> recording \<Rightarrow> nat" where
  "newer_in grp r \<equiv> length (filter (\<lambda>s. newness_of r < newness_of s) grp)"

lemma newer_in_less: "r \<in> set grp \<Longrightarrow> newer_in grp r < length grp"
  by (rule length_filter_less [where x = r]) simp_all

lemma markOldestBeyond_eq:
  assumes "distinct (map rec_egress_id grp)" and "0 < keep"
  shows "markOldestBeyond grp keep out =
    out \<union> {rec_egress_id r |r. r \<in> set grp \<and> keep \<le> int (newer_in grp r)}"
proof (cases "int (length grp) \<le> keep")
  case True
  then have "\<not> keep \<le> int (newer_in grp r)" if "r \<in> set grp" for r
    using newer_in_less [OF that] by linarith
  with True show ?thesis by (auto simp: markOldestBeyond_def)
next
  case False
  have "r \<in> set (drop (nat keep) (newest_first grp)) \<longleftrightarrow>
      r \<in> set grp \<and> keep \<le> int (newer_in grp r)" for r
  proof (cases "r \<in> set grp")
    case True
    then show ?thesis
      using in_drop_desc [OF newest_first_desc [OF assms(1)], of r "nat keep"] by simp linarith
  next
    case False
    then show ?thesis using in_set_dropD [of r "nat keep" "newest_first grp"] by auto
  qed
  then show ?thesis using False assms(2) by (auto simp: markOldestBeyond_def)
qed

lemma groupBy_snoc:
  "groupBy key (recs @ [r]) =
     put (key r) ((case map_of (groupBy key recs) (key r) of None \<Rightarrow> [] | Some g \<Rightarrow> g) @ [r])
       (groupBy key recs)"
  by (simp add: groupBy_def)

lemma groupBy_Nil [simp]: "groupBy key [] = []"
  by (simp add: groupBy_def)

lemma go_map_groupBy [simp]: "go_map (groupBy key recs)"
  by (induction recs rule: rev_induct) (simp_all add: groupBy_snoc)

lemma map_of_groupBy:
  "map_of (groupBy key recs) k =
     (let g = filter (\<lambda>r. key r = k) recs in if g = [] then None else Some g)"
  by (induction recs arbitrary: k rule: rev_induct) (auto simp: groupBy_snoc Let_def)

lemma in_groupBy:
  "(k, g) \<in> set (groupBy key recs) \<longleftrightarrow> g = filter (\<lambda>r. key r = k) recs \<and> g \<noteq> []"
  using map_of_eq_Some_iff [OF go_map_groupBy, of key recs k g]
  by (auto simp: map_of_groupBy Let_def split: if_splits)

lemma fold_union:
  "(\<And>x out. x \<in> set xs \<Longrightarrow> f x out = out \<union> F x) \<Longrightarrow> fold f xs out = out \<union> (\<Union>x\<in>set xs. F x)"
  by (induction xs arbitrary: out) auto

text \<open>The ids marked by a count cap: those with at least \<open>keep\<close> newer recordings in their group.\<close>

lemma mark_groups_iff:
  assumes "distinct (map rec_egress_id recs)"
  shows "i \<in> mark_groups keep key recs out \<longleftrightarrow>
    i \<in> out \<or> 0 < keep \<and> (\<exists>r \<in> set recs. rec_egress_id r = i \<and>
      keep \<le> int (newer_in (filter (\<lambda>s. key s = key r) recs) r))"
proof (cases "0 < keep")
  case False
  then show ?thesis by (simp add: mark_groups_def)
next
  case True
  let ?F = "\<lambda>(k :: string, g). {rec_egress_id r |r. r \<in> set g \<and> keep \<le> int (newer_in g r)}"
  have dis: "distinct (map rec_egress_id (filter P recs))" for P
    using assms by (rule distinct_map_filter)
  have step: "(\<lambda>(_, grp) out. markOldestBeyond grp keep out) x out = out \<union> ?F x"
    if "x \<in> set (groupBy key recs)" for x out
  proof -
    obtain k g where x: "x = (k, g)" by (cases x)
    with that have "distinct (map rec_egress_id g)" using dis by (simp add: in_groupBy)
    then show ?thesis using True by (simp add: x markOldestBeyond_eq)
  qed
  have "mark_groups keep key recs out = out \<union> (\<Union>x \<in> set (groupBy key recs). ?F x)"
    using True fold_union [OF step] by (simp add: mark_groups_def)
  moreover have "i \<in> (\<Union>x \<in> set (groupBy key recs). ?F x) \<longleftrightarrow>
      (\<exists>r \<in> set recs. rec_egress_id r = i \<and> keep \<le> int (newer_in (filter (\<lambda>s. key s = key r) recs) r))"
  proof -
    have "i \<in> (\<Union>x \<in> set (groupBy key recs). ?F x) \<longleftrightarrow>
        (\<exists>k g. (k, g) \<in> set (groupBy key recs) \<and>
          (\<exists>r \<in> set g. rec_egress_id r = i \<and> keep \<le> int (newer_in g r)))"
      by fastforce
    also have "\<dots> \<longleftrightarrow> (\<exists>r \<in> set recs. rec_egress_id r = i \<and>
        keep \<le> int (newer_in (filter (\<lambda>s. key s = key r) recs) r))"
      by (auto simp: in_groupBy filter_empty_conv)
    finally show ?thesis .
  qed
  ultimately show ?thesis using True by blast
qed

section \<open>The specification of the policy\<close>

text \<open>
  A recording is past retention when it is finished and not yet deleted, and it is too old, or at
  least the room cap (the tenant cap) of finished recordings in its room (of its tenant) is newer.
\<close>

definition past_retention :: "retention_policy \<Rightarrow> recording list \<Rightarrow> time \<Rightarrow> recording \<Rightarrow> bool" where
  "past_retention p recs now r \<longleftrightarrow>
     retention_eligible r \<and>
     (0 < pol_ttl p \<and> 0 < retainedFrom r \<and> retainedFrom r \<le> time_unix (now - pol_ttl p) \<or>
      0 < pol_max_per_room p \<and>
        pol_max_per_room p \<le> int (newer_in (filter (\<lambda>s. retention_eligible s \<and>
          rec_tenant s = rec_tenant r \<and> rec_room s = rec_room r) recs) r) \<or>
      0 < pol_max_per_tenant p \<and>
        pol_max_per_tenant p \<le> int (newer_in (filter (\<lambda>s. retention_eligible s \<and>
          rec_tenant s = rec_tenant r) recs) r))"

definition tenants_without_nul :: "recording list \<Rightarrow> bool" where
  "tenants_without_nul recs \<longleftrightarrow> (\<forall>r \<in> set recs. CHR 0x00 \<notin> set (rec_tenant r))"

lemma tenant_byte_not_nul: "\<not> tenant_byte (CHR 0x00)"
  by (simp add: tenant_byte_def char_between_def)

lemma valid_tenant_without_nul: "validateTenant T t = None \<Longrightarrow> CHR 0x00 \<notin> set t"
  using tenant_byte_not_nul by (auto simp: validateTenant_None_iff list_all_iff)

lemma sep_append_inject:
  "c \<notin> set xs \<Longrightarrow> c \<notin> set ys \<Longrightarrow> xs @ c # us = ys @ c # vs \<longleftrightarrow> xs = ys \<and> us = vs"
proof (induction xs arbitrary: ys)
  case Nil
  then show ?case by (cases ys) auto
next
  case (Cons x xs)
  then show ?case by (cases ys) auto
qed

lemma room_group_key_inject:
  assumes "tenants_without_nul recs" "r \<in> set recs" "s \<in> set recs"
  shows "room_group_key s = room_group_key r \<longleftrightarrow>
    rec_tenant s = rec_tenant r \<and> rec_room s = rec_room r"
  using assms by (simp add: room_group_key_def tenants_without_nul_def sep_append_inject)

lemma expired_subset_eligible:
  assumes "distinct (map rec_egress_id recs)" "i \<in> expiredEgressIDs p recs now"
  shows "\<exists>r \<in> set recs. rec_egress_id r = i \<and> retention_eligible r"
proof -
  have "distinct (map rec_egress_id (filter retention_eligible recs))"
    using assms(1) by (rule distinct_map_filter)
  then show ?thesis
    using assms(2)
    by (auto simp: expiredEgressIDs_def mark_groups_iff Let_def split: if_splits)
qed

lemma expired_iff:
  assumes dis: "distinct (map rec_egress_id recs)" and nul: "tenants_without_nul recs"
  shows "i \<in> expiredEgressIDs p recs now \<longleftrightarrow>
    (\<exists>r \<in> set recs. rec_egress_id r = i \<and> past_retention p recs now r)"
proof (cases "policy_enabled p")
  case False
  then show ?thesis
    by (auto simp: expiredEgressIDs_def past_retention_def policy_enabled_def)
next
  case True
  let ?el = "filter retention_eligible recs"
  have dis': "distinct (map rec_egress_id ?el)"
    using dis by (rule distinct_map_filter)
  have room: "filter (\<lambda>s. room_group_key s = room_group_key r) ?el =
      filter (\<lambda>s. retention_eligible s \<and> rec_tenant s = rec_tenant r \<and> rec_room s = rec_room r) recs"
    if "r \<in> set recs" for r
    using room_group_key_inject [OF nul that] by (auto intro!: filter_cong)
  have tenant: "filter (\<lambda>s. rec_tenant s = rec_tenant r) ?el =
      filter (\<lambda>s. retention_eligible s \<and> rec_tenant s = rec_tenant r) recs" for r
    by simp
  have "i \<in> expiredEgressIDs p recs now \<longleftrightarrow>
      (0 < pol_ttl p \<and> (\<exists>r \<in> set ?el. rec_egress_id r = i \<and>
         0 < retainedFrom r \<and> retainedFrom r \<le> time_unix (now - pol_ttl p))) \<or>
      (0 < pol_max_per_room p \<and> (\<exists>r \<in> set ?el. rec_egress_id r = i \<and>
         pol_max_per_room p \<le> int (newer_in (filter (\<lambda>s. room_group_key s = room_group_key r) ?el) r))) \<or>
      (0 < pol_max_per_tenant p \<and> (\<exists>r \<in> set ?el. rec_egress_id r = i \<and>
         pol_max_per_tenant p \<le> int (newer_in (filter (\<lambda>s. rec_tenant s = rec_tenant r) ?el) r)))"
    using True by (auto simp: expiredEgressIDs_def Let_def mark_groups_iff [OF dis'] time_add_def)
  also have "\<dots> \<longleftrightarrow> (\<exists>r \<in> set recs. rec_egress_id r = i \<and> past_retention p recs now r)"
    using room tenant by (auto simp: past_retention_def)
  finally show ?thesis .
qed

section \<open>The caps\<close>

lemma survivors_bound:
  assumes "distinct (map rec_egress_id grp)" "0 < keep"
  shows "int (card {r \<in> set grp. \<not> keep \<le> int (newer_in grp r)}) \<le> keep"
proof -
  let ?nf = "newest_first grp"
  have "r \<in> set (drop (nat keep) ?nf)" if "r \<in> set grp" "keep \<le> int (newer_in grp r)" for r
    using in_drop_desc [OF newest_first_desc [OF assms(1)], of r "nat keep"] that by simp
  moreover have "set grp = set (take (nat keep) ?nf) \<union> set (drop (nat keep) ?nf)"
    by (metis append_take_drop_id newest_first_set set_append)
  moreover have "keep \<le> int (newer_in grp r)" if "r \<in> set (drop (nat keep) ?nf)" for r
    using in_drop_desc [OF newest_first_desc [OF assms(1)], of r "nat keep"] that
    by (auto dest: in_set_dropD)
  ultimately have "{r \<in> set grp. \<not> keep \<le> int (newer_in grp r)} \<subseteq> set (take (nat keep) ?nf)"
    by auto
  then have "card {r \<in> set grp. \<not> keep \<le> int (newer_in grp r)} \<le> card (set (take (nat keep) ?nf))"
    by (intro card_mono) simp_all
  also have "\<dots> \<le> nat keep"
    using card_length [of "take (nat keep) ?nf"] by simp
  finally show ?thesis using assms(2) by simp
qed

lemma retained_group_bound:
  assumes dis: "distinct (map rec_egress_id recs)" and keep: "0 < keep"
    and marks: "\<And>r. r \<in> set recs \<Longrightarrow> P r \<Longrightarrow> keep \<le> int (newer_in (filter P recs) r) \<Longrightarrow>
      rec_egress_id r \<in> out"
  shows "int (card {r \<in> set recs. P r \<and> rec_egress_id r \<notin> out}) \<le> keep"
proof -
  let ?g = "filter P recs"
  have "{r \<in> set recs. P r \<and> rec_egress_id r \<notin> out} \<subseteq> {r \<in> set ?g. \<not> keep \<le> int (newer_in ?g r)}"
    using marks by auto
  then have "card {r \<in> set recs. P r \<and> rec_egress_id r \<notin> out} \<le>
      card {r \<in> set ?g. \<not> keep \<le> int (newer_in ?g r)}"
    by (intro card_mono) simp_all
  then show ?thesis
    using survivors_bound [OF distinct_map_filter [OF dis, of P] keep] by linarith
qed

section \<open>Properties\<close>

text \<open>
  C15. The retention computation (filtering, grouping, sorting and cutting) marks exactly the
  recordings that its specification calls past retention: finished or expired entries that are
  older than the TTL, or outranked by as many newer entries of their room or tenant as the cap
  allows. In-progress and deleted entries are never marked.
\<close>

theorem retention_marks_exactly:
  assumes "distinct (map rec_egress_id recs)" and "tenants_without_nul recs"
  shows "expiredEgressIDs p recs now =
    {i. \<exists>r \<in> set recs. rec_egress_id r = i \<and> past_retention p recs now r}"
  using expired_iff [OF assms] by blast

abbreviation sample_recording :: "string \<Rightarrow> string \<Rightarrow> string \<Rightarrow> recording_state \<Rightarrow> int \<Rightarrow> recording" where
  "sample_recording i t rm st e \<equiv> zero_recording\<lparr>rec_egress_id := i, rec_tenant := t, rec_room := rm,
     rec_state := st, rec_ended_at := e\<rparr>"

definition sample_recordings :: "recording list" where
  "sample_recordings =
     [sample_recording ''a1'' ''acme'' ''a'' RecordingStateAvailable 100,
      sample_recording ''a2'' ''acme'' ''a'' RecordingStateAvailable 90,
      sample_recording ''a3'' ''acme'' ''a'' RecordingStateFailed 80,
      sample_recording ''b1'' ''acme'' ''b'' RecordingStateAvailable 10,
      sample_recording ''b2'' ''acme'' ''b'' RecordingStateRecording 0]"

lemma sample_recordings_ok:
  "distinct (map rec_egress_id sample_recordings) \<and> tenants_without_nul sample_recordings"
  by (simp add: sample_recordings_def tenants_without_nul_def)

theorem retention_marks_exactly_witness:
  "{i. \<exists>r \<in> set sample_recordings. rec_egress_id r = i \<and>
      past_retention \<lparr>pol_ttl = 0, pol_max_per_room = 2, pol_max_per_tenant = 0\<rparr> sample_recordings 0 r}
   = {''a3''}"
proof -
  have "expiredEgressIDs \<lparr>pol_ttl = 0, pol_max_per_room = 2, pol_max_per_tenant = 0\<rparr>
      sample_recordings 0 = {''a3''}"
    by code_simp
  then show ?thesis
    using retention_marks_exactly [of sample_recordings
        "\<lparr>pol_ttl = 0, pol_max_per_room = 2, pol_max_per_tenant = 0\<rparr>" 0] sample_recordings_ok
    by simp
qed

text \<open>
  The caps hold after a pass: once the marked recordings are gone, no room keeps more finished
  recordings than the room cap and no tenant more than the tenant cap.
\<close>

theorem retention_caps_hold:
  assumes "distinct (map rec_egress_id recs)" and "tenants_without_nul recs"
  shows "(0 < pol_max_per_room p \<longrightarrow>
      int (card {r \<in> set recs. (retention_eligible r \<and> rec_tenant r = t \<and> rec_room r = rm) \<and>
        rec_egress_id r \<notin> expiredEgressIDs p recs now}) \<le> pol_max_per_room p) \<and>
    (0 < pol_max_per_tenant p \<longrightarrow>
      int (card {r \<in> set recs. (retention_eligible r \<and> rec_tenant r = t) \<and>
        rec_egress_id r \<notin> expiredEgressIDs p recs now}) \<le> pol_max_per_tenant p)"
  using assms
  by (intro conjI impI retained_group_bound) (auto simp: expired_iff past_retention_def)

theorem retention_caps_hold_witness:
  "int (card {r \<in> set sample_recordings.
      (retention_eligible r \<and> rec_tenant r = ''acme'' \<and> rec_room r = ''a'') \<and>
      rec_egress_id r \<notin> expiredEgressIDs
        \<lparr>pol_ttl = 0, pol_max_per_room = 2, pol_max_per_tenant = 0\<rparr> sample_recordings 0}) \<le> 2"
  using retention_caps_hold [of sample_recordings
      "\<lparr>pol_ttl = 0, pol_max_per_room = 2, pol_max_per_tenant = 0\<rparr>" "''acme''" "''a''" 0]
    sample_recordings_ok
  by simp

text \<open>
  The tenant cap is not applied after the room cap: it ranks all finished recordings of the
  tenant, those the room cap already evicts included. In this ledger the room cap (1) alone leaves
  two recordings, which the tenant cap (2) admits, yet the pass also evicts \<open>b1\<close>, the only
  finished recording of its room.
\<close>

theorem tenant_cap_counts_evicted_recordings:
  "expiredEgressIDs \<lparr>pol_ttl = 0, pol_max_per_room = 1, pol_max_per_tenant = 0\<rparr> sample_recordings 0
     = {''a2'', ''a3''} \<and>
   expiredEgressIDs \<lparr>pol_ttl = 0, pol_max_per_room = 0, pol_max_per_tenant = 2\<rparr>
     (filter (\<lambda>r. rec_egress_id r \<notin> {''a2'', ''a3''}) sample_recordings) 0 = {} \<and>
   expiredEgressIDs \<lparr>pol_ttl = 0, pol_max_per_room = 1, pol_max_per_tenant = 2\<rparr> sample_recordings 0
     = {''a2'', ''a3'', ''b1''}"
  by (intro conjI) code_simp+

end
