(* ===== verification/Metrics.thy ===== *)
theory Metrics
  imports Retention_Policy
begin

text \<open>
  The metrics registry (\<^verbatim>\<open>internal/wrap/metrics.go\<close>): counters and gauges and the operations that
  feed them. Counters are \<^typ>\<open>u64\<close> and wrap as \<^verbatim>\<open>uint64\<close> does. A registry is optional everywhere in
  the program (every method tolerates a nil receiver), so the operations act on an option.
  The invariant is that every label set stays inside its fixed alphabet and that the in-progress
  gauge never goes negative.
\<close>

section \<open>Labels\<close>

datatype token_outcome =
    TokenOutcomeOK
  | TokenOutcomeMalformed
  | TokenOutcomeWrongAPIKey
  | TokenOutcomeSignatureBad
  | TokenOutcomeMissingGrants
  | TokenOutcomeMissingRoom
  | TokenOutcomeWrongTenant
  | TokenOutcomeMissingTenant
  | TokenOutcomeRoomMalformed
  | TokenOutcomeOther

fun token_outcome_label :: "token_outcome \<Rightarrow> string" where
  "token_outcome_label TokenOutcomeOK = ''ok''"
| "token_outcome_label TokenOutcomeMalformed = ''malformed''"
| "token_outcome_label TokenOutcomeWrongAPIKey = ''wrong_api_key''"
| "token_outcome_label TokenOutcomeSignatureBad = ''signature_bad''"
| "token_outcome_label TokenOutcomeMissingGrants = ''missing_grant''"
| "token_outcome_label TokenOutcomeMissingRoom = ''missing_room''"
| "token_outcome_label TokenOutcomeWrongTenant = ''wrong_tenant''"
| "token_outcome_label TokenOutcomeMissingTenant = ''missing_tenant''"
| "token_outcome_label TokenOutcomeRoomMalformed = ''room_malformed''"
| "token_outcome_label TokenOutcomeOther = ''other''"

datatype meet_room_event = MeetRoomStarted | MeetRoomFinished

fun meet_room_label :: "meet_room_event \<Rightarrow> string" where
  "meet_room_label MeetRoomStarted = ''started''"
| "meet_room_label MeetRoomFinished = ''finished''"

datatype egress_outcome =
    EgressOutcomeOK
  | EgressOutcomeUnauthorized
  | EgressOutcomeForbidden
  | EgressOutcomeBadGateway
  | EgressOutcomeRejected

fun egress_outcome_label :: "egress_outcome \<Rightarrow> string" where
  "egress_outcome_label EgressOutcomeOK = ''ok''"
| "egress_outcome_label EgressOutcomeUnauthorized = ''unauthorized''"
| "egress_outcome_label EgressOutcomeForbidden = ''forbidden''"
| "egress_outcome_label EgressOutcomeBadGateway = ''bad_gateway''"
| "egress_outcome_label EgressOutcomeRejected = ''rejected''"

datatype room_admission =
    RoomAdmissionNewRoom
  | RoomAdmissionExisting
  | RoomAdmissionRejectedCapacity
  | RoomAdmissionListError

fun room_admission_label :: "room_admission \<Rightarrow> string" where
  "room_admission_label RoomAdmissionNewRoom = ''new_room''"
| "room_admission_label RoomAdmissionExisting = ''existing''"
| "room_admission_label RoomAdmissionRejectedCapacity = ''rejected_capacity''"
| "room_admission_label RoomAdmissionListError = ''list_error''"

datatype egress_lifecycle =
    EgressLifecycleStarted
  | EgressLifecycleCompleted
  | EgressLifecycleFailed

fun egress_lifecycle_label :: "egress_lifecycle \<Rightarrow> string" where
  "egress_lifecycle_label EgressLifecycleStarted = ''started''"
| "egress_lifecycle_label EgressLifecycleCompleted = ''completed''"
| "egress_lifecycle_label EgressLifecycleFailed = ''failed''"

fun recording_state_label :: "recording_state \<Rightarrow> string" where
  "recording_state_label RecordingStateRecording = ''recording''"
| "recording_state_label RecordingStateAvailable = ''available''"
| "recording_state_label RecordingStateFailed = ''failed''"
| "recording_state_label RecordingStateExpired = ''expired''"
| "recording_state_label RecordingStateDeleted = ''deleted''"

section \<open>The registry\<close>

record metrics =
  m_adminRequests :: "(int, u64) go_map"
  m_tokenValidation :: "(string, u64) go_map"
  m_activeRooms :: "(string, int) go_map"
  m_egressRequests :: "(string, u64) go_map"
  m_roomAdmission :: "(string, u64) go_map"
  m_maxParticipants :: int
  m_maxRooms :: int
  m_totalRooms :: int
  m_roomsAtCapacity :: int
  m_participantsInRoom :: "(string \<times> string, int) go_map"
  m_egressLifecycle :: "(string, u64) go_map"
  m_egressInProgress :: int
  m_recordingLifecycle :: "(string, u64) go_map"
  m_recordingBytesTotal :: u64
  m_recordingDurationMsTotal :: u64
  m_retentionExpiredTotal :: u64
  m_retentionDeletedTotal :: u64
  m_retentionDeleteErrTotal :: u64
  m_retentionBytesFreed :: u64
  m_meetRooms :: "(string, u64) go_map"
  m_meetMinutes :: "(string, u64) go_map"

definition NewMetrics :: metrics where
  "NewMetrics = \<lparr>m_adminRequests = [], m_tokenValidation = [], m_activeRooms = [],
     m_egressRequests = [], m_roomAdmission = [], m_maxParticipants = 0, m_maxRooms = 0,
     m_totalRooms = 0, m_roomsAtCapacity = 0, m_participantsInRoom = [], m_egressLifecycle = [],
     m_egressInProgress = 0, m_recordingLifecycle = [], m_recordingBytesTotal = 0,
     m_recordingDurationMsTotal = 0, m_retentionExpiredTotal = 0, m_retentionDeletedTotal = 0,
     m_retentionDeleteErrTotal = 0, m_retentionBytesFreed = 0, m_meetRooms = [],
     m_meetMinutes = []\<rparr>"

text \<open>The summary of one retention pass (\<open>RetentionSweepResult\<close>).\<close>

record sweep_result =
  sw_examined :: int
  sw_expired :: int
  sw_deleted :: int
  sw_delete_errs :: int
  sw_bytes_freed :: u64
  sw_duration_freed :: duration

section \<open>Operations\<close>

type_synonym metrics_op = "metrics option \<Rightarrow> metrics option"

definition ObserveMeetRoom :: "meet_room_event \<Rightarrow> metrics_op" where
  "ObserveMeetRoom ev =
     map_option (\<lambda>m. m\<lparr>m_meetRooms := bump (meet_room_label ev) (m_meetRooms m)\<rparr>)"

definition ObserveMeetMinutes :: "string \<Rightarrow> int \<Rightarrow> metrics_op" where
  "ObserveMeetMinutes tenant minutes =
     map_option (\<lambda>m. if tenant = [] \<or> minutes \<le> 0 then m
       else m\<lparr>m_meetMinutes := bump_by (word_of_int minutes) tenant (m_meetMinutes m)\<rparr>)"

definition ObserveRoomAdmission :: "room_admission \<Rightarrow> metrics_op" where
  "ObserveRoomAdmission outcome =
     map_option (\<lambda>m. m\<lparr>m_roomAdmission := bump (room_admission_label outcome) (m_roomAdmission m)\<rparr>)"

definition SetRoomLimits :: "int \<Rightarrow> int \<Rightarrow> metrics_op" where
  "SetRoomLimits maxParticipants maxRooms =
     map_option (\<lambda>m. m\<lparr>m_maxParticipants := maxParticipants, m_maxRooms := maxRooms\<rparr>)"

definition ObserveEgress :: "egress_outcome \<Rightarrow> metrics_op" where
  "ObserveEgress outcome =
     map_option (\<lambda>m. m\<lparr>m_egressRequests := bump (egress_outcome_label outcome) (m_egressRequests m)\<rparr>)"

definition SetParticipantsInRoom :: "string \<Rightarrow> string \<Rightarrow> int \<Rightarrow> metrics_op" where
  "SetParticipantsInRoom tenant room n =
     map_option (\<lambda>m.
       if tenant = [] \<or> room = [] then m
       else if n \<le> 0 then
         m\<lparr>m_participantsInRoom := remove_key (tenant, room) (m_participantsInRoom m)\<rparr>
       else m\<lparr>m_participantsInRoom := put (tenant, room) n (m_participantsInRoom m)\<rparr>)"

definition ResetParticipantsForTenant :: "string \<Rightarrow> metrics_op" where
  "ResetParticipantsForTenant tenant =
     map_option (\<lambda>m. if tenant = [] then m
       else m\<lparr>m_participantsInRoom :=
         filter (\<lambda>(k, _). fst k \<noteq> tenant) (m_participantsInRoom m)\<rparr>)"

fun step_in_progress :: "egress_lifecycle \<Rightarrow> int \<Rightarrow> int" where
  "step_in_progress EgressLifecycleStarted n = n + 1"
| "step_in_progress EgressLifecycleCompleted n = (if 0 < n then n - 1 else n)"
| "step_in_progress EgressLifecycleFailed n = (if 0 < n then n - 1 else n)"

definition ObserveEgressLifecycle :: "egress_lifecycle \<Rightarrow> metrics_op" where
  "ObserveEgressLifecycle ev =
     map_option (\<lambda>m. m\<lparr>
       m_egressLifecycle := bump (egress_lifecycle_label ev) (m_egressLifecycle m),
       m_egressInProgress := step_in_progress ev (m_egressInProgress m)\<rparr>)"

definition ObserveRecordingLifecycle :: "recording_state \<Rightarrow> metrics_op" where
  "ObserveRecordingLifecycle state mo =
     (let mo' = map_option (\<lambda>m. m\<lparr>m_recordingLifecycle :=
                  bump (recording_state_label state) (m_recordingLifecycle m)\<rparr>) mo
      in case state of
        RecordingStateRecording \<Rightarrow> ObserveEgressLifecycle EgressLifecycleStarted mo'
      | RecordingStateAvailable \<Rightarrow> ObserveEgressLifecycle EgressLifecycleCompleted mo'
      | RecordingStateFailed \<Rightarrow> ObserveEgressLifecycle EgressLifecycleFailed mo'
      | _ \<Rightarrow> mo')"

definition ObserveRecordingBytes :: "u64 \<Rightarrow> u64 \<Rightarrow> metrics_op" where
  "ObserveRecordingBytes sizeBytes durationMs =
     map_option (\<lambda>m. m\<lparr>
       m_recordingBytesTotal := m_recordingBytesTotal m + sizeBytes,
       m_recordingDurationMsTotal := m_recordingDurationMsTotal m + durationMs\<rparr>)"

definition ObserveRetentionSweep :: "sweep_result \<Rightarrow> metrics_op" where
  "ObserveRetentionSweep res =
     map_option (\<lambda>m. m\<lparr>
       m_retentionExpiredTotal := m_retentionExpiredTotal m + word_of_int (sw_expired res),
       m_retentionDeletedTotal := m_retentionDeletedTotal m + word_of_int (sw_deleted res),
       m_retentionDeleteErrTotal := m_retentionDeleteErrTotal m + word_of_int (sw_delete_errs res),
       m_retentionBytesFreed := m_retentionBytesFreed m + sw_bytes_freed res\<rparr>)"

definition ObserveAdmin :: "int \<Rightarrow> metrics_op" where
  "ObserveAdmin status =
     map_option (\<lambda>m. m\<lparr>m_adminRequests := bump status (m_adminRequests m)\<rparr>)"

definition ObserveTokenOutcome :: "token_outcome \<Rightarrow> metrics_op" where
  "ObserveTokenOutcome outcome =
     map_option (\<lambda>m. m\<lparr>m_tokenValidation :=
       bump (token_outcome_label outcome) (m_tokenValidation m)\<rparr>)"

definition SetActiveRooms :: "string \<Rightarrow> int \<Rightarrow> metrics_op" where
  "SetActiveRooms tenant n =
     map_option (\<lambda>m. if tenant = [] then m
       else m\<lparr>m_activeRooms := put tenant n (m_activeRooms m)\<rparr>)"

definition SetTotalRooms :: "int \<Rightarrow> metrics_op" where
  "SetTotalRooms totalRooms =
     map_option (\<lambda>m. m\<lparr>m_totalRooms := totalRooms,
       m_roomsAtCapacity := (if 0 < m_maxRooms m \<and> m_maxRooms m \<le> totalRooms then 1 else 0)\<rparr>)"

section \<open>The invariant of the registry\<close>

definition participants_ok :: "(string \<times> string, int) go_map \<Rightarrow> bool" where
  "participants_ok ps \<longleftrightarrow> (\<forall>x \<in> set ps. fst (fst x) \<noteq> [] \<and> snd (fst x) \<noteq> [] \<and> 0 < snd x)"

definition metrics_ok :: "metrics \<Rightarrow> bool" where
  "metrics_ok m \<longleftrightarrow>
     go_map (m_adminRequests m) \<and>
     go_map (m_tokenValidation m) \<and> keys (m_tokenValidation m) \<subseteq> range token_outcome_label \<and>
     go_map (m_activeRooms m) \<and>
     go_map (m_egressRequests m) \<and> keys (m_egressRequests m) \<subseteq> range egress_outcome_label \<and>
     go_map (m_roomAdmission m) \<and> keys (m_roomAdmission m) \<subseteq> range room_admission_label \<and>
     go_map (m_participantsInRoom m) \<and>
     participants_ok (m_participantsInRoom m) \<and>
     go_map (m_egressLifecycle m) \<and> keys (m_egressLifecycle m) \<subseteq> range egress_lifecycle_label \<and>
     0 \<le> m_egressInProgress m \<and>
     go_map (m_recordingLifecycle m) \<and>
       keys (m_recordingLifecycle m) \<subseteq> range recording_state_label \<and>
     go_map (m_meetRooms m) \<and> keys (m_meetRooms m) \<subseteq> range meet_room_label \<and>
     go_map (m_meetMinutes m)"

definition metrics_opt_ok :: "metrics option \<Rightarrow> bool" where
  "metrics_opt_ok mo \<longleftrightarrow> (\<forall>m. mo = Some m \<longrightarrow> metrics_ok m)"

lemma metrics_opt_ok_simps [simp]:
  "metrics_opt_ok None" "metrics_opt_ok (Some m) \<longleftrightarrow> metrics_ok m"
  by (simp_all add: metrics_opt_ok_def)

lemma metrics_ok_new [keeps]: "metrics_ok NewMetrics"
  by (simp add: metrics_ok_def NewMetrics_def participants_ok_def)

lemma metrics_opt_map:
  "metrics_opt_ok mo \<Longrightarrow> (\<And>m. metrics_ok m \<Longrightarrow> metrics_ok (f m)) \<Longrightarrow> metrics_opt_ok (map_option f mo)"
  by (cases mo) simp_all

lemma go_map_filter: "go_map m \<Longrightarrow> go_map (filter P m)"
  by (rule distinct_map_filter)

lemma keeps_counters [keeps]:
  assumes "metrics_opt_ok mo"
  shows "metrics_opt_ok (ObserveMeetRoom ev mo)" "metrics_opt_ok (ObserveMeetMinutes t n mo)"
    "metrics_opt_ok (ObserveRoomAdmission ra mo)" "metrics_opt_ok (SetRoomLimits a b mo)"
    "metrics_opt_ok (ObserveEgress eo mo)" "metrics_opt_ok (ObserveRecordingBytes x y mo)"
    "metrics_opt_ok (ObserveRetentionSweep res mo)" "metrics_opt_ok (ObserveAdmin st mo)"
    "metrics_opt_ok (ObserveTokenOutcome oc mo)" "metrics_opt_ok (SetActiveRooms t n mo)"
    "metrics_opt_ok (SetTotalRooms n mo)"
  unfolding ObserveMeetRoom_def ObserveMeetMinutes_def ObserveRoomAdmission_def SetRoomLimits_def
    ObserveEgress_def ObserveRecordingBytes_def ObserveRetentionSweep_def ObserveAdmin_def
    ObserveTokenOutcome_def SetActiveRooms_def SetTotalRooms_def
  by (rule metrics_opt_map [OF assms], simp add: metrics_ok_def)+

lemma step_in_progress_nonneg: "0 \<le> n \<Longrightarrow> 0 \<le> step_in_progress ev n"
  by (cases ev) auto

lemma keeps_lifecycle [keeps]:
  assumes "metrics_opt_ok mo"
  shows "metrics_opt_ok (ObserveEgressLifecycle ev mo)"
  unfolding ObserveEgressLifecycle_def
  by (rule metrics_opt_map [OF assms]) (simp add: metrics_ok_def step_in_progress_nonneg)

lemma keeps_recording_lifecycle [keeps]:
  assumes "metrics_opt_ok mo"
  shows "metrics_opt_ok (ObserveRecordingLifecycle st mo)"
proof -
  have "metrics_opt_ok (map_option (\<lambda>m. m\<lparr>m_recordingLifecycle :=
      bump (recording_state_label st) (m_recordingLifecycle m)\<rparr>) mo)"
    by (rule metrics_opt_map [OF assms]) (simp add: metrics_ok_def)
  then show ?thesis
    by (auto simp: ObserveRecordingLifecycle_def Let_def keeps_lifecycle
        split: recording_state.split)
qed

lemma participants_ok_put:
  "participants_ok ps \<Longrightarrow> t \<noteq> [] \<Longrightarrow> r \<noteq> [] \<Longrightarrow> 0 < n \<Longrightarrow> participants_ok (put (t, r) n ps)"
  by (auto simp: participants_ok_def dest!: in_set_put)

lemma participants_ok_remove: "participants_ok ps \<Longrightarrow> participants_ok (remove_key k ps)"
  by (auto simp: participants_ok_def dest!: in_set_remove_key)

lemma participants_ok_filter: "participants_ok ps \<Longrightarrow> participants_ok (filter P ps)"
  by (simp add: participants_ok_def)

lemma keeps_participants [keeps]:
  assumes "metrics_opt_ok mo"
  shows "metrics_opt_ok (SetParticipantsInRoom t r n mo)"
    "metrics_opt_ok (ResetParticipantsForTenant t mo)"
  unfolding SetParticipantsInRoom_def ResetParticipantsForTenant_def
  by (rule metrics_opt_map [OF assms], simp add: metrics_ok_def go_map_filter
      participants_ok_put participants_ok_remove participants_ok_filter)+

end
