(* ===== verification/Go_Float.thy ===== *)
theory Go_Float
  imports Meet_Prelude "HOL-Library.Log_Nat"
begin

text \<open>
  Go's \<^verbatim>\<open>float64\<close> arithmetic, as far as the sources use it (the token buckets and the fractions of
  \<^verbatim>\<open>time.ParseDuration\<close>). A finite \<^verbatim>\<open>float64\<close> is the rational it denotes, and every operation is the
  exact operation followed by \<open>f64\<close>, rounding to the nearest multiple of the unit in the last
  place with ties to even. The exponent is unbounded: the sources stay far from the overflow and
  the subnormal ranges. The laws the clients use are the locale \<open>float_rounding\<close>.
\<close>

section \<open>Rounding\<close>

definition round_half_even :: "rat \<Rightarrow> int" where
  "round_half_even y =
     (let f = \<lfloor>y\<rfloor>; d = y - of_int f
      in if d < 1/2 then f else if 1/2 < d then f + 1 else if even f then f else f + 1)"

text \<open>The exponent of the unit in the last place of a positive rational.\<close>

definition ulp_exp :: "rat \<Rightarrow> int" where
  "ulp_exp x =
     (let (p, q) = quotient_of x; e = bitlen p - bitlen q
      in (if x < 2 powi e then e - 1 else e) - 52)"

definition f64_pos :: "rat \<Rightarrow> rat" where
  "f64_pos x = (let u = 2 powi (ulp_exp x) in of_int (round_half_even (x / u)) * u)"

definition f64 :: "rat \<Rightarrow> rat" where
  "f64 x = (if x = 0 then 0 else if 0 < x then f64_pos x else - f64_pos (- x))"

lemma round_half_even_of_int [simp]: "round_half_even (of_int i) = i"
  by (simp add: round_half_even_def)

lemma round_half_even_bounds:
  "\<bar>of_int (round_half_even y) - y\<bar> \<le> 1/2"
proof -
  have "of_int \<lfloor>y\<rfloor> \<le> y" "y < of_int \<lfloor>y\<rfloor> + 1" by linarith+
  then show ?thesis by (simp add: round_half_even_def Let_def)
qed

lemma round_half_even_mono:
  assumes "x \<le> y" shows "round_half_even x \<le> round_half_even y"
proof (cases "\<lfloor>x\<rfloor> = \<lfloor>y\<rfloor>")
  case True
  with assms show ?thesis by (auto simp: round_half_even_def Let_def)
next
  case False
  moreover have "\<lfloor>x\<rfloor> \<le> \<lfloor>y\<rfloor>" using assms by (rule floor_mono)
  ultimately have "\<lfloor>x\<rfloor> + 1 \<le> \<lfloor>y\<rfloor>" by linarith
  moreover have "round_half_even x \<le> \<lfloor>x\<rfloor> + 1" and "\<lfloor>y\<rfloor> \<le> round_half_even y"
    by (auto simp: round_half_even_def Let_def)
  ultimately show ?thesis by linarith
qed

lemma pow2_pos [simp]: "0 < (2::rat) powi e"
  by (simp add: zero_less_power_int)

lemma pow2_not_neg [simp]: "\<not> (2::rat) powi e < 0"
  using pow2_pos [of e] by linarith

lemma pow2_le_iff [simp]: "(2::rat) powi a \<le> 2 powi b \<longleftrightarrow> a \<le> b"
  by (metis linorder_not_less one_less_numeral_iff power_int_strict_increasing power_int_increasing
      rat_number_collapse(2) semiring_norm(76) order_less_imp_le numeral_One one_le_numeral)

lemma ulp_exp_bounds:
  assumes "0 < x"
  shows "2 powi (ulp_exp x + 52) \<le> x \<and> x < 2 powi (ulp_exp x + 53)"
proof -
  obtain p q where pq: "quotient_of x = (p, q)" by (cases "quotient_of x")
  then have q: "0 < q" and x: "x = of_int p / of_int q"
    using quotient_of_denom_pos quotient_of_div by blast+
  with assms have p: "0 < p" by (simp add: zero_less_divide_iff)
  let ?a = "bitlen p" and ?b = "bitlen q"
  have A: "2 ^ nat (?a - 1) \<le> p" "p < 2 ^ nat ?a" and B: "2 ^ nat (?b - 1) \<le> q" "q < 2 ^ nat ?b"
    using bitlen_bounds [OF p] bitlen_bounds [OF q] by auto
  have ab: "1 \<le> ?a" "1 \<le> ?b"
    using p q bitlen_nonneg [of p] bitlen_nonneg [of q] bitlen_eq_zero_iff [of p]
      bitlen_eq_zero_iff [of q] by linarith+
  have pw: "(2::rat) powi n = of_int (2 ^ nat n)" if "0 \<le> n" for n
    using that by (simp add: power_int_def)
  have A': "2 powi (?a - 1) \<le> (of_int p :: rat)" "(of_int p :: rat) < 2 powi ?a"
    using A ab by (simp_all add: pw)
  have B': "2 powi (?b - 1) \<le> (of_int q :: rat)" "(of_int q :: rat) < 2 powi ?b"
    using B ab by (simp_all add: pw)
  have qpos: "(0::rat) < of_int q" using q by simp
  have lo: "2 powi (?a - ?b - 1) \<le> x"
  proof -
    have "2 powi (?a - ?b - 1) * (of_int q :: rat) \<le> 2 powi (?a - ?b - 1) * 2 powi ?b"
      using B' by (intro mult_left_mono) auto
    also have "\<dots> = 2 powi (?a - 1)" by (simp add: power_int_add [symmetric])
    also have "\<dots> \<le> of_int p" by (rule A')
    finally show ?thesis using qpos by (simp add: x pos_le_divide_eq)
  qed
  have hi: "x < 2 powi (?a - ?b + 1)"
  proof -
    have "(of_int p :: rat) < 2 powi ?a" by (rule A')
    also have "\<dots> = 2 powi (?a - ?b + 1) * 2 powi (?b - 1)" by (simp add: power_int_add [symmetric])
    also have "\<dots> \<le> 2 powi (?a - ?b + 1) * of_int q"
      using B' by (intro mult_left_mono) auto
    finally show ?thesis using qpos by (simp add: x pos_divide_less_eq)
  qed
  show ?thesis using lo hi by (auto simp: ulp_exp_def pq algebra_simps Let_def)
qed

lemma ulp_exp_mono:
  assumes "0 < x" "x \<le> y" shows "ulp_exp x \<le> ulp_exp y"
proof -
  have "2 powi (ulp_exp x + 52) \<le> x" using ulp_exp_bounds [OF assms(1)] by simp
  also have "\<dots> \<le> y" by (rule assms)
  also have "\<dots> < 2 powi (ulp_exp y + 53)" using ulp_exp_bounds [of y] assms by simp
  finally have "\<not> ulp_exp y + 53 \<le> ulp_exp x + 52"
    by (metis linorder_not_less pow2_le_iff)
  then show ?thesis by linarith
qed


text \<open>The rounding is monotone and fixes every number with at most 53 significant bits.\<close>

lemma f64_pos_bounds:
  assumes "0 < x"
  shows "2 powi (ulp_exp x + 52) \<le> f64_pos x \<and> f64_pos x \<le> 2 powi (ulp_exp x + 53)"
proof -
  let ?u = "(2::rat) powi (ulp_exp x)"
  have u: "0 < ?u" by simp
  have "2 powi 52 * ?u \<le> x" "x < 2 powi 53 * ?u"
    using ulp_exp_bounds [OF assms] by (simp_all add: power_int_add mult.commute)
  then have "of_int (2 ^ 52) \<le> x / ?u" "x / ?u \<le> of_int (2 ^ 53)"
    using u by (simp_all add: pos_le_divide_eq pos_divide_le_eq)
  then have "2 ^ 52 \<le> round_half_even (x / ?u)" "round_half_even (x / ?u) \<le> 2 ^ 53"
    using round_half_even_mono round_half_even_of_int by metis+
  then have "(2 ^ 52 :: rat) \<le> of_int (round_half_even (x / ?u))"
      "of_int (round_half_even (x / ?u)) \<le> (2 ^ 53 :: rat)"
    by (metis of_int_le_iff of_int_numeral of_int_power)+
  then show ?thesis
    using u by (simp add: f64_pos_def Let_def power_int_add mult.commute mult_right_mono)
qed

lemma f64_pos_mono:
  assumes "0 < x" "x \<le> y" shows "f64_pos x \<le> f64_pos y"
proof (cases "ulp_exp x = ulp_exp y")
  case True
  let ?u = "(2::rat) powi (ulp_exp y)"
  have "x / ?u \<le> y / ?u" using assms by (intro divide_right_mono) auto
  then have "round_half_even (x / ?u) \<le> round_half_even (y / ?u)" by (rule round_half_even_mono)
  then have "(of_int (round_half_even (x / ?u)) :: rat) * ?u \<le> of_int (round_half_even (y / ?u)) * ?u"
    by (intro mult_right_mono) auto
  then show ?thesis by (simp add: f64_pos_def Let_def True)
next
  case False
  with ulp_exp_mono [OF assms] have "ulp_exp x + 53 \<le> ulp_exp y + 52" by linarith
  then have "(2::rat) powi (ulp_exp x + 53) \<le> 2 powi (ulp_exp y + 52)" by simp
  moreover have "f64_pos x \<le> 2 powi (ulp_exp x + 53)" and "2 powi (ulp_exp y + 52) \<le> f64_pos y"
    using f64_pos_bounds [of x] f64_pos_bounds [of y] assms by simp_all
  ultimately show ?thesis by linarith
qed

lemma f64_pos_pos: "0 < x \<Longrightarrow> 0 < f64_pos x"
  using f64_pos_bounds [of x] pow2_pos less_le_trans by blast

lemma f64_mono: "x \<le> y \<Longrightarrow> f64 x \<le> f64 y"
  using f64_pos_pos [of y] f64_pos_pos [of "- x"] f64_pos_mono [of x y] f64_pos_mono [of "- y" "- x"]
  by (auto simp: f64_def)

lemma f64_0 [simp]: "f64 0 = 0"
  by (simp add: f64_def)

lemma f64_minus: "f64 (- x) = - f64 x"
  by (simp add: f64_def)

definition f64_exact :: "rat \<Rightarrow> bool" where
  "f64_exact x \<longleftrightarrow> (\<exists>m e. \<bar>m\<bar> \<le> 2 ^ 53 \<and> x = of_int m * 2 powi e)"

lemma f64_exact_int: "\<bar>i\<bar> \<le> 2 ^ 53 \<Longrightarrow> f64_exact (of_int i)"
  unfolding f64_exact_def by (intro exI [of _ i] exI [of _ 0]) simp

lemma f64_exact_minus: "f64_exact (- x) \<longleftrightarrow> f64_exact x"
proof -
  have "f64_exact (- x)" if "f64_exact x" for x
    using that unfolding f64_exact_def by (metis abs_minus_cancel minus_mult_left of_int_minus)
  from this [of x] this [of "- x"] show ?thesis by auto
qed

lemma f64_pos_exact:
  assumes "0 < x" "f64_exact x" shows "f64_pos x = x"
proof -
  obtain m e where m: "\<bar>m\<bar> \<le> 2 ^ 53" and x: "x = of_int m * 2 powi e"
    using assms(2) by (auto simp: f64_exact_def)
  let ?k = "ulp_exp x"
  have mpos: "0 < m" using assms(1) by (simp add: x zero_less_mult_iff)
  have b: "2 powi (?k + 52) \<le> x" "x < 2 powi (?k + 53)"
    using ulp_exp_bounds [OF assms(1)] by auto
  have "\<exists>n. x = of_int n * 2 powi ?k"
  proof (cases "?k \<le> e")
    case True
    then have "(2::rat) powi e = of_int (2 ^ nat (e - ?k)) * 2 powi ?k"
      using power_int_add [of "2::rat" "e - ?k" ?k] by (simp add: power_int_def)
    then have "x = of_int (m * 2 ^ nat (e - ?k)) * 2 powi ?k" by (simp add: x)
    then show ?thesis by blast
  next
    case False
    have "x \<le> 2 ^ 53 * 2 powi e"
      using m mpos unfolding x
      by (intro mult_right_mono) (metis abs_of_pos of_int_le_iff of_int_numeral of_int_power, simp)
    also have "\<dots> = 2 powi (e + 53)" by (simp add: power_int_add mult.commute)
    finally have "2 powi (?k + 52) \<le> (2::rat) powi (e + 53)" using b(1) by linarith
    with False have ke: "?k = e + 1" by simp
    have "2 powi (?k + 52) = (2::rat) ^ 53 * 2 powi e" by (simp add: ke power_int_add mult.commute)
    with b(1) have "(2::rat) ^ 53 \<le> of_int m" by (simp add: x)
    then have "2 ^ 53 \<le> m" by (metis of_int_le_iff of_int_numeral of_int_power)
    with m mpos have "m = 2 ^ 53" by simp
    then have "x = of_int (2 ^ 52) * 2 powi (e + 1)" by (simp add: x power_int_add)
    then show ?thesis unfolding ke by blast
  qed
  then obtain n where n: "x = of_int n * 2 powi ?k" by blast
  then have "x / 2 powi ?k = of_int n" by (simp add: divide_eq_eq)
  then have "f64_pos x = of_int n * 2 powi ?k" by (simp only: f64_pos_def Let_def round_half_even_of_int)
  with n show ?thesis by simp
qed

lemma f64_exact_fix: "f64_exact x \<Longrightarrow> f64 x = x"
  using f64_pos_exact [of x] f64_pos_exact [of "- x"] by (auto simp: f64_def f64_exact_minus)

lemma f64_pos_is_exact: assumes "0 < x" shows "f64_exact (f64_pos x)"
proof -
  let ?n = "round_half_even (x / 2 powi (ulp_exp x))"
  have "of_int ?n * 2 powi (ulp_exp x) \<le> (2::rat) ^ 53 * 2 powi (ulp_exp x)"
    using f64_pos_bounds [OF assms] by (simp add: f64_pos_def Let_def power_int_add mult.commute)
  then have "(of_int ?n :: rat) \<le> 2 ^ 53" by simp
  then have hi: "?n \<le> 2 ^ 53" by (metis of_int_le_iff of_int_numeral of_int_power)
  have "0 < f64_pos x" by (rule f64_pos_pos [OF assms])
  then have "0 < ?n" by (simp add: f64_pos_def Let_def zero_less_mult_iff)
  with hi have "\<bar>?n\<bar> \<le> 2 ^ 53" by simp
  then show ?thesis unfolding f64_exact_def f64_pos_def Let_def by blast
qed

lemma f64_is_exact: "f64_exact (f64 x)"
  using f64_pos_is_exact [of x] f64_pos_is_exact [of "- x"] f64_exact_int [of 0]
  by (auto simp: f64_def f64_exact_minus)

lemma f64_idem [simp]: "f64 (f64 x) = f64 x"
  by (rule f64_exact_fix [OF f64_is_exact])

text \<open>The relative error of one rounding.\<close>

lemma f64_pos_error:
  assumes "0 < x" shows "\<bar>f64_pos x - x\<bar> \<le> x / 2 ^ 53"
proof -
  let ?u = "(2::rat) powi (ulp_exp x)"
  have u: "0 < ?u" by simp
  have "f64_pos x - x = (of_int (round_half_even (x / ?u)) - x / ?u) * ?u"
    using u by (simp add: f64_pos_def Let_def algebra_simps)
  then have "\<bar>f64_pos x - x\<bar> = \<bar>of_int (round_half_even (x / ?u)) - x / ?u\<bar> * ?u"
    by (simp add: abs_mult)
  also have "\<dots> \<le> 1/2 * ?u"
    using round_half_even_bounds u by (intro mult_right_mono) auto
  also have "\<dots> \<le> x / 2 ^ 53"
    using ulp_exp_bounds [OF assms] by (simp add: power_int_add)
  finally show ?thesis .
qed

lemma f64_error: "\<bar>f64 x - x\<bar> \<le> \<bar>x\<bar> / 2 ^ 53"
proof (cases x "0 :: rat" rule: linorder_cases)
  case less
  then have "\<bar>f64_pos (- x) - - x\<bar> \<le> - x / 2 ^ 53" by (intro f64_pos_error) simp
  moreover have "\<bar>- f64_pos (- x) - x\<bar> = \<bar>f64_pos (- x) - - x\<bar>" by (simp add: abs_if)
  ultimately show ?thesis using less by (simp add: f64_def)
next
  case greater
  then show ?thesis using f64_pos_error [of x] by (simp add: f64_def)
qed simp

section \<open>The laws of rounding\<close>

text \<open>What the clients of \<^verbatim>\<open>float64\<close> rely on.\<close>

locale float_rounding =
  fixes rnd :: "rat \<Rightarrow> rat" and exact :: "rat \<Rightarrow> bool"
  assumes rnd_mono: "x \<le> y \<Longrightarrow> rnd x \<le> rnd y"
    and rnd_exact: "exact x \<Longrightarrow> rnd x = x"
    and exact_rnd: "exact (rnd x)"
    and exact_int: "\<bar>i\<bar> \<le> 2 ^ 53 \<Longrightarrow> exact (of_int i)"
    and rnd_error: "\<bar>rnd x - x\<bar> \<le> \<bar>x\<bar> / 2 ^ 53"
begin

lemma rnd_le_exact: "x \<le> y \<Longrightarrow> exact y \<Longrightarrow> rnd x \<le> y"
  using rnd_mono [of x y] by (simp add: rnd_exact)

lemma exact_le_rnd: "y \<le> x \<Longrightarrow> exact y \<Longrightarrow> y \<le> rnd x"
  using rnd_mono [of y x] by (simp add: rnd_exact)

lemma rnd_nonneg: "0 \<le> x \<Longrightarrow> 0 \<le> rnd x"
  using exact_le_rnd [of 0 x] exact_int [of 0] by simp

lemma rnd_upper: "0 \<le> x \<Longrightarrow> rnd x \<le> x * (1 + 1 / 2 ^ 53)"
proof -
  assume "0 \<le> x"
  then have "rnd x - x \<le> x / 2 ^ 53"
    using rnd_error [of x] abs_ge_self [of "rnd x - x"] by simp
  then show ?thesis by (simp add: algebra_simps)
qed

end

interpretation fl: float_rounding f64 f64_exact
  by unfold_locales (fact f64_mono f64_exact_fix f64_is_exact f64_exact_int f64_error)+

text \<open>\<^verbatim>\<open>Duration.Seconds\<close>.\<close>

definition seconds :: "duration \<Rightarrow> rat" where
  "seconds d =
     (let sec = sgn d * (\<bar>d\<bar> div second); nsec = sgn d * (\<bar>d\<bar> mod second)
      in f64 (f64 (of_int sec) + f64 (of_int nsec / of_int second)))"

end
