(* ===== verification/Go_Std.thy ===== *)
theory Go_Std
  imports Go_Float
begin

text \<open>
  Functions of Go's standard library that the sources call on text: \<^verbatim>\<open>time.ParseDuration\<close>,
  \<^verbatim>\<open>strconv.ParseUint\<close>, \<^verbatim>\<open>net.SplitHostPort\<close>, \<^verbatim>\<open>net.ParseIP\<close> with \<^verbatim>\<open>IP.String\<close>. Each follows the
  library's algorithm; the text of the errors is not modelled.
\<close>

section \<open>Durations\<close>

definition digit_int :: "char \<Rightarrow> int" where
  "digit_int c = of_char c - 48"

text \<open>\<open>leadingInt\<close>: the value of the leading digits and the rest, \<open>None\<close> above \<open>2^63\<close>.\<close>

fun leading_int :: "string \<Rightarrow> int \<Rightarrow> (int \<times> string) option" where
  "leading_int [] x = Some (x, [])"
| "leading_int (c # s) x =
     (if \<not> is_digit c then Some (x, c # s)
      else if 2 ^ 63 div 10 < x then None
      else let x' = 10 * x + digit_int c in if 2 ^ 63 < x' then None else leading_int s x')"

text \<open>\<open>leadingFraction\<close>: digits that no longer fit are skipped.\<close>

fun leading_fraction :: "string \<Rightarrow> int \<Rightarrow> rat \<Rightarrow> bool \<Rightarrow> int \<times> rat \<times> string" where
  "leading_fraction [] x scale overflow = (x, scale, [])"
| "leading_fraction (c # s) x scale overflow =
     (if \<not> is_digit c then (x, scale, c # s)
      else if overflow then leading_fraction s x scale True
      else if (2 ^ 63 - 1) div 10 < x then leading_fraction s x scale True
      else let y = 10 * x + digit_int c in
        if 2 ^ 63 < y then leading_fraction s x scale True
        else leading_fraction s y (f64 (scale * 10)) False)"

definition unit_of :: "string \<Rightarrow> int option" where
  "unit_of u =
     (if u = ''ns'' then Some 1
      else if u = ''us'' \<or> u = map char_of [0xC2::nat, 0xB5, 0x73] \<or> u = map char_of [0xCE::nat, 0xBC, 0x73]
        then Some 1000
      else if u = ''ms'' then Some 1000000
      else if u = ''s'' then Some 1000000000
      else if u = ''m'' then Some 60000000000
      else if u = ''h'' then Some 3600000000000
      else None)"

definition dot :: char where "dot = CHR ''.''"

text \<open>One number with its unit: its nanoseconds and the rest of the input.\<close>

definition duration_term :: "string \<Rightarrow> (int \<times> string) option" where
  "duration_term s =
     (if s = [] \<or> \<not> (hd s = dot \<or> is_digit (hd s)) then None
      else case leading_int s 0 of
        None \<Rightarrow> None
      | Some (v, s1) \<Rightarrow>
          let pre = (length s1 \<noteq> length s);
              (f, scale, s2) = (if s1 \<noteq> [] \<and> hd s1 = dot then leading_fraction (tl s1) 0 1 False
                                else (0, 1, s1));
              post = (s1 \<noteq> [] \<and> hd s1 = dot \<and> length s2 \<noteq> length (tl s1));
              u = takeWhile (\<lambda>c. \<not> (c = dot \<or> is_digit c)) s2;
              s3 = drop (length u) s2
          in if \<not> pre \<and> \<not> post then None
             else if u = [] then None
             else case unit_of u of
               None \<Rightarrow> None
             | Some unit \<Rightarrow>
                 if 2 ^ 63 div unit < v then None
                 else
                   let w = v * unit;
                       w' = (if 0 < f then w + \<lfloor>f64 (f64 (of_int f) * f64 (of_int unit / scale))\<rfloor>
                             else w)
                   in if 0 < f \<and> 2 ^ 63 < w' then None else Some (w', s3))"

lemma leading_int_length: "leading_int s x = Some (v, r) \<Longrightarrow> length r \<le> length s"
  by (induction s x rule: leading_int.induct) (auto simp: Let_def split: if_splits)

lemma leading_fraction_length: "leading_fraction s x sc ov = (f, sc', r) \<Longrightarrow> length r \<le> length s"
  by (induction s x sc ov rule: leading_fraction.induct) (auto simp: Let_def split: if_splits)

lemma duration_term_length: "duration_term s = Some (v, r) \<Longrightarrow> length r < length s"
proof -
  assume *: "duration_term s = Some (v, r)"
  then obtain v1 s1 where s1: "leading_int s 0 = Some (v1, s1)"
    by (auto simp: duration_term_def split: if_splits option.splits)
  obtain f sc s2 where s2: "(f, sc, s2) = (if s1 \<noteq> [] \<and> hd s1 = dot
      then leading_fraction (tl s1) 0 1 False else (0, 1, s1))"
    by (metis prod_cases3)
  let ?u = "takeWhile (\<lambda>c. \<not> (c = dot \<or> is_digit c)) s2"
  have "length s2 \<le> length s1"
    using s2 leading_fraction_length [of "tl s1" 0 1 False f sc s2] by (auto split: if_splits)
  moreover have "length s1 \<le> length s" using leading_int_length [OF s1] .
  moreover have "?u \<noteq> []" and "r = drop (length ?u) s2" 
    using * s1 s2 [symmetric] by (auto simp: duration_term_def Let_def split: if_splits option.splits)
  ultimately show ?thesis by (cases s2) auto
qed

function duration_terms :: "string \<Rightarrow> int \<Rightarrow> int option" where
  "duration_terms s d =
     (if s = [] then Some d
      else case duration_term s of
        None \<Rightarrow> None
      | Some (v, r) \<Rightarrow> if 2 ^ 63 < d + v then None else duration_terms r (d + v))"
  by pat_completeness auto
termination
  by (relation "measure (\<lambda>(s, d). length s)") (auto dest: duration_term_length)

declare duration_terms.simps [simp del]

definition ParseDuration :: "string \<Rightarrow> duration option" where
  "ParseDuration s =
     (let signed = (s \<noteq> [] \<and> (hd s = CHR ''-'' \<or> hd s = CHR ''+''));
          neg = (s \<noteq> [] \<and> hd s = CHR ''-'');
          s' = (if signed then tl s else s)
      in if s' = ''0'' then Some 0
         else if s' = [] then None
         else case duration_terms s' 0 of
           None \<Rightarrow> None
         | Some d \<Rightarrow>
             if neg then Some (- d)
             else if 2 ^ 63 - 1 < d then None else Some d)"

lemma digit_int_range: "is_digit c \<Longrightarrow> 0 \<le> digit_int c \<and> digit_int c \<le> 9"
  by (simp add: is_digit_def digit_int_def Let_def)

lemma leading_int_nonneg: "0 \<le> x \<Longrightarrow> leading_int s x = Some (v, r) \<Longrightarrow> 0 \<le> v"
  by (induction s x rule: leading_int.induct) (auto simp: Let_def digit_int_range split: if_splits)

lemma unit_of_pos: "unit_of u = Some n \<Longrightarrow> 0 < n"
  by (auto simp: unit_of_def split: if_splits)

lemma leading_fraction_nonneg:
  "0 \<le> x \<Longrightarrow> 0 < sc \<Longrightarrow> leading_fraction s x sc ov = (f, sc', r) \<Longrightarrow> 0 \<le> f \<and> 0 < sc'"
proof (induction s x sc ov rule: leading_fraction.induct)
  case (2 c s x sc ov)
  have "0 < f64 (sc * 10)" using 2(6) by (simp add: f64_def f64_pos_pos)
  with 2 show ?case by (auto simp: Let_def digit_int_range split: if_splits)
qed simp

lemma duration_term_nonneg: "duration_term s = Some (v, r) \<Longrightarrow> 0 \<le> v"
proof -
  assume *: "duration_term s = Some (v, r)"
  then obtain v1 s1 where s1: "leading_int s 0 = Some (v1, s1)"
    by (auto simp: duration_term_def split: if_splits option.splits)
  obtain f sc s2 where s2: "(f, sc, s2) = (if s1 \<noteq> [] \<and> hd s1 = dot
      then leading_fraction (tl s1) 0 1 False else (0, 1, s1))"
    by (metis prod_cases3)
  have v1: "0 \<le> v1" using leading_int_nonneg [OF _ s1] by simp
  have fs: "0 \<le> f \<and> 0 < sc"
    using s2 leading_fraction_nonneg [of 0 1 "tl s1" False f sc s2] by (auto split: if_splits)
  have fl: "0 \<le> \<lfloor>f64 (f64 (of_int f) * f64 (of_int u / sc))\<rfloor>" if "0 < u" for u
  proof -
    have "0 \<le> f64 (of_int f) * f64 (of_int u / sc)"
      using fs that by (intro mult_nonneg_nonneg fl.rnd_nonneg) simp_all
    then show ?thesis using fl.rnd_nonneg by simp
  qed
  show ?thesis
    using * s1 s2 [symmetric] v1 fl
    by (auto simp: duration_term_def Let_def dest!: unit_of_pos split: if_splits option.splits)
qed

lemma duration_terms_bound:
  "0 \<le> d \<Longrightarrow> d \<le> 2 ^ 63 \<Longrightarrow> duration_terms s d = Some v \<Longrightarrow> 0 \<le> v \<and> v \<le> 2 ^ 63"
proof (induction s d rule: duration_terms.induct)
  case (1 s d)
  show ?case
  proof (cases "s = []")
    case True
    with 1(4) have "d = v" by (subst (asm) duration_terms.simps) simp
    with 1(2,3) show ?thesis by simp
  next
    case False
    with 1(4) obtain w r where w: "duration_term s = Some (w, r)"
      by (subst (asm) duration_terms.simps) (auto split: option.splits)
    with False 1(4) have "\<not> 2 ^ 63 < d + w" and "duration_terms r (d + w) = Some v"
      by (subst (asm) duration_terms.simps; simp split: if_splits)+
    with 1(1) [OF False w refl] 1(2) duration_term_nonneg [OF w] show ?thesis by simp
  qed
qed

lemma ParseDuration_range:
  assumes "ParseDuration s = Some d" shows "min_int64 \<le> d \<and> d \<le> max_int64"
proof -
  have b: "0 \<le> v \<and> v \<le> 2 ^ 63" if "duration_terms t 0 = Some v" for t v
    using duration_terms_bound [OF _ _ that] by simp
  show ?thesis
    using assms by (auto simp: ParseDuration_def Let_def min_int64_def max_int64_def
        split: if_splits option.splits dest!: b)
qed

section \<open>Unsigned integers\<close>

text \<open>\<open>strconv.ParseUint(s, 10, 64)\<close>.\<close>

definition ParseUint :: "string \<Rightarrow> u64 option" where
  "ParseUint s =
     (if s = [] \<or> \<not> list_all is_digit s then None
      else if 2 ^ 64 \<le> read_nat s then None
      else Some (of_nat (read_nat s)))"

section \<open>Network addresses\<close>

definition last_index :: "char \<Rightarrow> string \<Rightarrow> nat option" where
  "last_index c s =
     map_option (\<lambda>i. length s - Suc i) (index_of (rev s) [c])"

text \<open>\<open>net.SplitHostPort\<close>.\<close>

definition SplitHostPort :: "string \<Rightarrow> (string \<times> string) option" where
  "SplitHostPort hostport =
     (case last_index (CHR '':'') hostport of
        None \<Rightarrow> None
      | Some i \<Rightarrow>
          let port = drop (Suc i) hostport
          in if hd hostport = CHR ''['' then
               (case index_of hostport '']'' of
                  None \<Rightarrow> None
                | Some end' \<Rightarrow>
                    if Suc end' \<noteq> i then None
                    else if contains (drop 1 hostport) ''['' then None
                    else if contains (drop (Suc end') hostport) '']'' then None
                    else Some (drop 1 (take end' hostport), port))
             else
               let host = take i hostport
               in if contains host '':'' then None
                  else if contains hostport ''['' \<or> contains hostport '']'' then None
                  else Some (host, port))"

fun split_on :: "char \<Rightarrow> string \<Rightarrow> string list" where
  "split_on c [] = [[]]"
| "split_on c (x # s) =
     (if x = c then [] # split_on c s
      else case split_on c s of [] \<Rightarrow> [[x]] | f # fs \<Rightarrow> (x # f) # fs)"

fun join_with :: "string \<Rightarrow> string list \<Rightarrow> string" where
  "join_with sep [] = []"
| "join_with sep [f] = f"
| "join_with sep (f # fs) = f @ sep @ join_with sep fs"

text \<open>The eight 16-bit groups of an address; an IPv4 address is mapped into \<open>::ffff:0:0/96\<close>.\<close>

type_synonym ip_addr = "int list"

definition v4_field :: "string \<Rightarrow> bool" where
  "v4_field f \<longleftrightarrow>
     f \<noteq> [] \<and> list_all is_digit f \<and> \<not> (1 < length f \<and> hd f = CHR ''0'') \<and> length f \<le> 3 \<and>
     read_nat f \<le> 255"

definition parse_v4 :: "string \<Rightarrow> int list option" where
  "parse_v4 s =
     (let fs = split_on dot s
      in if length fs = 4 \<and> list_all v4_field fs then Some (map (\<lambda>f. int (read_nat f)) fs) else None)"

definition hex_value :: "char \<Rightarrow> int option" where
  "hex_value c =
     (if is_digit c then Some (digit_int c)
      else if char_between (CHR ''a'') (CHR ''f'') c then Some (of_char c - 87)
      else if char_between (CHR ''A'') (CHR ''F'') c then Some (of_char c - 55)
      else None)"

definition is_hex :: "char \<Rightarrow> bool" where
  "is_hex c \<longleftrightarrow> hex_value c \<noteq> None"

definition read_hex :: "string \<Rightarrow> int" where
  "read_hex s = foldl (\<lambda>a c. 16 * a + (case hex_value c of None \<Rightarrow> 0 | Some v \<Rightarrow> v)) 0 s"

text \<open>The loop of \<open>parseIPv6\<close>: groups so far, position of the ellipsis, rest of the input.\<close>

function v6_loop :: "int list \<Rightarrow> nat option \<Rightarrow> string \<Rightarrow> (int list \<times> nat option \<times> string) option" where
  "v6_loop acc ell s =
     (if 8 \<le> length acc then Some (acc, ell, s)
      else
        let h = takeWhile is_hex s; s1 = drop (length h) s
        in if h = [] \<or> 4 < length h then None
           else if s1 \<noteq> [] \<and> hd s1 = dot then
             (if ell = None \<and> length acc \<noteq> 6 then None
              else if 6 < length acc then None
              else case parse_v4 s of
                Some [a, b, c, d] \<Rightarrow> Some (acc @ [256 * a + b, 256 * c + d], ell, [])
              | _ \<Rightarrow> None)
           else
             let acc1 = acc @ [read_hex h]
             in if s1 = [] then Some (acc1, ell, [])
                else if hd s1 \<noteq> CHR '':'' \<or> length s1 = 1 then None
                else let s2 = tl s1 in
                  if hd s2 = CHR '':'' then
                    (if ell \<noteq> None then None
                     else if tl s2 = [] then Some (acc1, Some (length acc1), [])
                     else v6_loop acc1 (Some (length acc1)) (tl s2))
                  else v6_loop acc1 ell s2)"
  by pat_completeness auto
termination
  by (relation "measure (\<lambda>(acc, ell, s). length s)") (auto simp: Suc_le_eq)

declare v6_loop.simps [simp del]

definition parse_v6 :: "string \<Rightarrow> ip_addr option" where
  "parse_v6 s =
     (let leading = has_prefix s ''::''; s' = (if leading then drop 2 s else s)
      in if leading \<and> s' = [] then Some (replicate 8 0)
         else case v6_loop [] (if leading then Some 0 else None) s' of
           None \<Rightarrow> None
         | Some (acc, ell, r) \<Rightarrow>
             if r \<noteq> [] then None
             else (case ell of
                 None \<Rightarrow> if length acc < 8 then None else Some acc
               | Some e \<Rightarrow>
                   if length acc < 8
                   then Some (take e acc @ replicate (8 - length acc) 0 @ drop e acc) else None))"

text \<open>\<open>net.ParseIP\<close>; an address with a zone is rejected.\<close>

definition ParseIP :: "string \<Rightarrow> ip_addr option" where
  "ParseIP s =
     (case find (\<lambda>c. c = dot \<or> c = CHR '':'' \<or> c = CHR ''%'') s of
        None \<Rightarrow> None
      | Some c \<Rightarrow>
          if c = dot then
            (case parse_v4 s of
               Some [a, b, c, d] \<Rightarrow> Some [0, 0, 0, 0, 0, 65535, 256 * a + b, 256 * c + d]
             | _ \<Rightarrow> None)
          else if c = CHR '':'' then (if contains s ''%'' then None else parse_v6 s)
          else None)"

definition hex_digit :: "int \<Rightarrow> char" where
  "hex_digit n = (if n < 10 then char_of (48 + n) else char_of (87 + n))"

definition show_hex16 :: "int \<Rightarrow> string" where
  "show_hex16 n =
     (let ds = map (\<lambda>k. n div 16 ^ k mod 16) [3, 2, 1]; ds' = dropWhile (\<lambda>d. d = 0) ds
      in map hex_digit ds' @ [hex_digit (n mod 16)])"

definition zero_run :: "ip_addr \<Rightarrow> nat \<Rightarrow> nat" where
  "zero_run ip i = length (takeWhile (\<lambda>g. g = 0) (drop i ip))"

definition longest_zero_run :: "ip_addr \<Rightarrow> (nat \<times> nat) option" where
  "longest_zero_run ip =
     foldl (\<lambda>best i. let l = zero_run ip i in
         if 2 \<le> l \<and> (case best of None \<Rightarrow> True | Some (_, bl) \<Rightarrow> bl < l) then Some (i, l) else best)
       None [0..<8]"

text \<open>\<open>IP.String\<close>.\<close>

definition show_ip :: "ip_addr \<Rightarrow> string" where
  "show_ip ip =
     (if take 6 ip = [0, 0, 0, 0, 0, 65535] then
        join_with ''.'' (map show_int
          [ip ! 6 div 256, ip ! 6 mod 256, ip ! 7 div 256, ip ! 7 mod 256])
      else case longest_zero_run ip of
        None \<Rightarrow> join_with '':'' (map show_hex16 ip)
      | Some (z, l) \<Rightarrow>
          join_with '':'' (map show_hex16 (take z ip)) @ ''::'' @
          join_with '':'' (map show_hex16 (drop (z + l) ip)))"

lemma split_on_nonempty [simp]: "split_on c s \<noteq> []"
  by (induction s) (auto split: list.split)

lemma join_split_on: "join_with [c] (split_on c s) = s"
proof (induction s)
  case (Cons x s)
  obtain f fs where f: "split_on c s = f # fs" by (cases "split_on c s") auto
  show ?case
  proof (cases fs)
    case Nil
    with f Cons show ?thesis by auto
  next
    case (Cons g gs)
    with f Cons.IH show ?thesis by auto
  qed
qed simp

lemma last_index_append:
  assumes "c \<notin> set t"
  shows "last_index c (s @ c # t) = Some (length s)"
proof -
  have "index_of (rev t @ c # rev s) [c] = Some (length t)"
    using index_of_char_append [of c "rev t" "rev s"] assms by simp
  then show ?thesis by (simp add: last_index_def)
qed

section \<open>Lines\<close>

text \<open>Text made of lines, each ended by a newline.\<close>

definition unlines :: "string list \<Rightarrow> string" where
  "unlines ls = concat (map (\<lambda>l. l @ [CHR 0x0A]) ls)"

lemma unlines_simps [simp]: "unlines [] = []" "unlines (l # ls) = l @ CHR 0x0A # unlines ls"
  "unlines (as @ bs) = unlines as @ unlines bs"
  by (simp_all add: unlines_def)

lemma unlines_concat: "unlines (concat lss) = concat (map unlines lss)"
  by (induction lss) simp_all

lemma split_on_line: "c \<notin> set l \<Longrightarrow> split_on c (l @ c # s) = l # split_on c s"
  by (induction l) auto

lemma split_on_char_free: "c \<notin> set s \<Longrightarrow> split_on c s = [s]"
  by (induction s) auto

lemma split_on_unlines: "\<forall>l\<in>set ls. CHR 0x0A \<notin> set l \<Longrightarrow> split_on (CHR 0x0A) (unlines ls) = ls @ [[]]"
  by (induction ls) (simp_all add: split_on_line)

end
