(* ===== verification/Go_Http.thy ===== *)
theory Go_Http
  imports Go_Std
begin

text \<open>
  The part of \<^verbatim>\<open>net/http\<close> the handlers use: requests with the path as escaped in the request line, canonical header keys and parsed query,
  responses as status, headers and body. A handler is a function from the request and the state it
  shares with others to a response and the new state.
\<close>

record http_request =
  req_method :: string
  req_path :: string
  req_query :: "(string, string list) go_map"
  req_header :: "(string, string list) go_map"
  req_remote_addr :: string
  req_body :: string

record http_response =
  rsp_status :: int
  rsp_header :: "(string, string list) go_map"
  rsp_body :: string

text \<open>\<open>Header.Get\<close> and \<open>Values.Get\<close>: the first value of a key, or the empty string.\<close>

definition values_get :: "(string, string list) go_map \<Rightarrow> string \<Rightarrow> string" where
  "values_get vs k = (case map_of vs k of Some (v # _) \<Rightarrow> v | _ \<Rightarrow> [])"

abbreviation header_get :: "http_request \<Rightarrow> string \<Rightarrow> string" where
  "header_get r k \<equiv> values_get (req_header r) k"

abbreviation query_get :: "http_request \<Rightarrow> string \<Rightarrow> string" where
  "query_get r k \<equiv> values_get (req_query r) k"

definition plain_text_header :: "(string, string list) go_map" where
  "plain_text_header = [(''Content-Type'', [''text/plain; charset=utf-8'']),
     (''X-Content-Type-Options'', [''nosniff''])]"

text \<open>\<open>http.Error\<close>.\<close>

definition http_error :: "string \<Rightarrow> int \<Rightarrow> http_response" where
  "http_error msg code =
     \<lparr>rsp_status = code, rsp_header = plain_text_header, rsp_body = msg @ [char_of (10::nat)]\<rparr>"

lemma rsp_status_http_error [simp]: "rsp_status (http_error msg code) = code"
  by (simp add: http_error_def)

definition StatusOK :: int where "StatusOK = 200"
definition StatusNoContent :: int where "StatusNoContent = 204"
definition StatusBadRequest :: int where "StatusBadRequest = 400"
definition StatusUnauthorized :: int where "StatusUnauthorized = 401"
definition StatusForbidden :: int where "StatusForbidden = 403"
definition StatusNotFound :: int where "StatusNotFound = 404"
definition StatusMethodNotAllowed :: int where "StatusMethodNotAllowed = 405"
definition StatusTooManyRequests :: int where "StatusTooManyRequests = 429"
definition StatusInternalServerError :: int where "StatusInternalServerError = 500"
definition StatusBadGateway :: int where "StatusBadGateway = 502"
definition StatusServiceUnavailable :: int where "StatusServiceUnavailable = 503"

lemmas status_defs = StatusOK_def StatusNoContent_def StatusBadRequest_def StatusUnauthorized_def
  StatusForbidden_def StatusNotFound_def StatusMethodNotAllowed_def StatusTooManyRequests_def
  StatusInternalServerError_def StatusBadGateway_def StatusServiceUnavailable_def

end
