(* ===== verification/Go_Json.thy ===== *)
theory Go_Json
  imports Go_Http
begin

text \<open>
  \<^verbatim>\<open>encoding/json\<close> as the sources use it: the parser, the decoding of objects into structs (keys
  match without regard to case, unknown keys are skipped, null leaves a field alone, a value of
  the wrong kind is an error), the encoder with its HTML-safe string escapes, and the compaction of
  a raw message. Bodies are taken to be valid UTF-8.
\<close>

section \<open>Values and the parser\<close>

datatype json =
    JNull
  | JBool bool
  | JNum string
  | JStr string
  | JArr "json list"
  | JObj "(string \<times> json) list"

definition json_space :: "char \<Rightarrow> bool" where
  "json_space c \<longleftrightarrow> c \<in> {CHR '' '', char_of (9::nat), char_of (10::nat), char_of (13::nat)}"

definition skip_space :: "string \<Rightarrow> string" where
  "skip_space = dropWhile json_space"

definition quote :: char where "quote = CHR 0x22"
definition backslash :: char where "backslash = CHR 0x5C"

text \<open>The UTF-8 encoding of a code point.\<close>

definition utf8 :: "int \<Rightarrow> string" where
  "utf8 n =
     (if n < 0x80 then [char_of n]
      else if n < 0x800 then [char_of (0xC0 + n div 64), char_of (0x80 + n mod 64)]
      else if n < 0x10000 then
        [char_of (0xE0 + n div 4096), char_of (0x80 + n div 64 mod 64), char_of (0x80 + n mod 64)]
      else [char_of (0xF0 + n div 262144), char_of (0x80 + n div 4096 mod 64),
            char_of (0x80 + n div 64 mod 64), char_of (0x80 + n mod 64)])"

definition hex4 :: "string \<Rightarrow> int option" where
  "hex4 s = (if length s = 4 \<and> list_all is_hex s then Some (read_hex s) else None)"

definition simple_escape :: "char \<Rightarrow> int option" where
  "simple_escape c =
     (if c = quote then Some 0x22 else if c = backslash then Some 0x5C else if c = slash then Some 0x2F
      else if c = CHR ''b'' then Some 8 else if c = CHR ''f'' then Some 12
      else if c = CHR ''n'' then Some 10 else if c = CHR ''r'' then Some 13
      else if c = CHR ''t'' then Some 9 else None)"

text \<open>The text of a string literal after its opening quote, and what follows the closing one.\<close>

function json_string :: "string \<Rightarrow> (string \<times> string) option" where
  "json_string [] = None"
| "json_string (c # s) =
     (if c = quote then Some ([], s)
      else if (of_char c :: int) < 32 then None
      else if c = backslash then
        (case s of
           [] \<Rightarrow> None
         | e # s1 \<Rightarrow>
             if e = CHR ''u'' then
               (case hex4 (take 4 s1) of
                  None \<Rightarrow> None
                | Some h \<Rightarrow>
                    let s2 = drop 4 s1 in
                    if 0xD800 \<le> h \<and> h < 0xDC00 \<and> take 2 s2 = [backslash, CHR ''u''] \<and>
                       (case hex4 (take 4 (drop 2 s2)) of Some l \<Rightarrow> 0xDC00 \<le> l \<and> l < 0xE000 | None \<Rightarrow> False)
                    then map_option (\<lambda>(t, r).
                      (utf8 (0x10000 + (h - 0xD800) * 1024 + (the (hex4 (take 4 (drop 2 s2))) - 0xDC00)) @ t, r))
                      (json_string (drop 6 s2))
                    else map_option (\<lambda>(t, r).
                      (utf8 (if 0xD800 \<le> h \<and> h < 0xE000 then 0xFFFD else h) @ t, r)) (json_string s2))
             else (case simple_escape e of
                 None \<Rightarrow> None
               | Some n \<Rightarrow> map_option (\<lambda>(t, r). (char_of n # t, r)) (json_string s1)))
      else map_option (\<lambda>(t, r). (c # t, r)) (json_string s))"
  by pat_completeness auto
termination by (relation "measure length") auto

declare json_string.simps(2) [simp del]

text \<open>A number literal in the grammar of RFC 8259.\<close>

definition json_number :: "string \<Rightarrow> (string \<times> string) option" where
  "json_number s =
     (let sgn = (if s \<noteq> [] \<and> hd s = CHR ''-'' then [CHR ''-''] else []);
          s1 = drop (length sgn) s;
          ip = (if s1 \<noteq> [] \<and> hd s1 = CHR ''0'' then [CHR ''0''] else takeWhile is_digit s1);
          s2 = drop (length ip) s1;
          fd = (if s2 \<noteq> [] \<and> hd s2 = dot then takeWhile is_digit (tl s2) else []);
          fp = (if s2 \<noteq> [] \<and> hd s2 = dot then dot # fd else []);
          s3 = drop (length fp) s2;
          ex = (s3 \<noteq> [] \<and> (hd s3 = CHR ''e'' \<or> hd s3 = CHR ''E''));
          es = (if ex \<and> tl s3 \<noteq> [] \<and> (hd (tl s3) = CHR ''+'' \<or> hd (tl s3) = CHR ''-'') then [hd (tl s3)] else []);
          ed = (if ex then takeWhile is_digit (drop (Suc (length es)) s3) else []);
          ep = (if ex then hd s3 # es @ ed else [])
      in if ip = [] \<or> (fp \<noteq> [] \<and> fd = []) \<or> (ex \<and> ed = []) then None
         else Some (sgn @ ip @ fp @ ep, drop (length ep) s3))"

text \<open>The value parser; the fuel is the length of the input, of which every call consumes a part.\<close>

fun json_value :: "nat \<Rightarrow> string \<Rightarrow> (json \<times> string) option"
  and json_elems :: "nat \<Rightarrow> string \<Rightarrow> (json list \<times> string) option"
  and json_members :: "nat \<Rightarrow> string \<Rightarrow> ((string \<times> json) list \<times> string) option" where
  "json_value 0 s = None"
| "json_value (Suc n) s =
     (case skip_space s of
        [] \<Rightarrow> None
      | c # r \<Rightarrow>
          if c = quote then map_option (\<lambda>(t, r'). (JStr t, r')) (json_string r)
          else if c = CHR ''{'' then
            (case skip_space r of
               d # r' \<Rightarrow> if d = CHR ''}'' then Some (JObj [], r')
                        else map_option (\<lambda>(ms, r''). (JObj ms, r'')) (json_members n r)
             | [] \<Rightarrow> None)
          else if c = CHR ''['' then
            (case skip_space r of
               d # r' \<Rightarrow> if d = CHR '']'' then Some (JArr [], r')
                        else map_option (\<lambda>(vs, r''). (JArr vs, r'')) (json_elems n r)
             | [] \<Rightarrow> None)
          else if has_prefix (c # r) ''null'' then Some (JNull, drop 4 (c # r))
          else if has_prefix (c # r) ''true'' then Some (JBool True, drop 4 (c # r))
          else if has_prefix (c # r) ''false'' then Some (JBool False, drop 5 (c # r))
          else map_option (\<lambda>(t, r'). (JNum t, r')) (json_number (c # r)))"
| "json_elems 0 s = None"
| "json_elems (Suc n) s =
     (case json_value n s of
        None \<Rightarrow> None
      | Some (v, r) \<Rightarrow>
          (case skip_space r of
             d # r' \<Rightarrow>
               if d = CHR '','' then map_option (\<lambda>(vs, r''). (v # vs, r'')) (json_elems n r')
               else if d = CHR '']'' then Some ([v], r') else None
           | [] \<Rightarrow> None))"
| "json_members 0 s = None"
| "json_members (Suc n) s =
     (case skip_space s of
        q # r \<Rightarrow>
          if q \<noteq> quote then None
          else (case json_string r of
            None \<Rightarrow> None
          | Some (k, r1) \<Rightarrow>
              (case skip_space r1 of
                 d # r2 \<Rightarrow>
                   if d \<noteq> CHR '':'' then None
                   else (case json_value n r2 of
                     None \<Rightarrow> None
                   | Some (v, r3) \<Rightarrow>
                       (case skip_space r3 of
                          e # r4 \<Rightarrow>
                            if e = CHR '','' then map_option (\<lambda>(ms, r5). ((k, v) # ms, r5)) (json_members n r4)
                            else if e = CHR ''}'' then Some ([(k, v)], r4) else None
                        | [] \<Rightarrow> None))
               | [] \<Rightarrow> None))
      | [] \<Rightarrow> None)"

definition json_parse :: "string \<Rightarrow> json option" where
  "json_parse s =
     (case json_value (2 * length s + 2) s of
        Some (v, r) \<Rightarrow> if skip_space r = [] then Some v else None
      | None \<Rightarrow> None)"

section \<open>Decoding into structs\<close>

text \<open>A field decoder takes the current value of the field; \<open>None\<close> is an \<open>UnmarshalTypeError\<close>.\<close>

fun dec_string :: "json \<Rightarrow> string \<Rightarrow> string option" where
  "dec_string (JStr s) cur = Some s"
| "dec_string JNull cur = Some cur"
| "dec_string _ cur = None"

fun dec_bool :: "json \<Rightarrow> bool \<Rightarrow> bool option" where
  "dec_bool (JBool b) cur = Some b"
| "dec_bool JNull cur = Some cur"
| "dec_bool _ cur = None"

text \<open>\<open>json.Number\<close>: a number literal, or a string that is one.\<close>

fun dec_number :: "json \<Rightarrow> string \<Rightarrow> string option" where
  "dec_number (JNum s) cur = Some s"
| "dec_number (JStr s) cur = (case json_number s of Some (t, []) \<Rightarrow> Some t | _ \<Rightarrow> None)"
| "dec_number JNull cur = Some cur"
| "dec_number _ cur = None"

text \<open>A struct: the members in order, each given to the decoder of the field it names.\<close>

fun dec_members :: "(string \<Rightarrow> (json \<Rightarrow> 'r \<Rightarrow> 'r option) option) \<Rightarrow> (string \<times> json) list \<Rightarrow> 'r \<Rightarrow> 'r option" where
  "dec_members flds [] cur = Some cur"
| "dec_members flds ((k, v) # ms) cur =
     (case flds (to_lower k) of
        None \<Rightarrow> dec_members flds ms cur
      | Some d \<Rightarrow> (case d v cur of None \<Rightarrow> None | Some cur' \<Rightarrow> dec_members flds ms cur'))"

fun dec_struct :: "(string \<Rightarrow> (json \<Rightarrow> 'r \<Rightarrow> 'r option) option) \<Rightarrow> json \<Rightarrow> 'r \<Rightarrow> 'r option" where
  "dec_struct flds (JObj ms) cur = dec_members flds ms cur"
| "dec_struct flds JNull cur = Some cur"
| "dec_struct flds _ cur = None"

text \<open>A slice of structs, each element decoded from its zero value.\<close>

fun dec_list :: "(json \<Rightarrow> 'r option) \<Rightarrow> json list \<Rightarrow> 'r list option" where
  "dec_list d [] = Some []"
| "dec_list d (v # vs) =
     (case d v of None \<Rightarrow> None | Some x \<Rightarrow> map_option ((#) x) (dec_list d vs))"

fun dec_slice :: "(json \<Rightarrow> 'r option) \<Rightarrow> json \<Rightarrow> 'r list \<Rightarrow> 'r list option" where
  "dec_slice d (JArr vs) cur = dec_list d vs"
| "dec_slice d JNull cur = Some []"
| "dec_slice d _ cur = None"

section \<open>Encoding\<close>

definition u_escape :: "int \<Rightarrow> string" where
  "u_escape n = [backslash, CHR ''u''] @ map (\<lambda>k. hex_digit (n div 16 ^ k mod 16)) [3, 2, 1, 0]"

fun escape_string :: "string \<Rightarrow> string" where
  "escape_string [] = []"
| "escape_string (c # s) =
     (let n = (of_char c :: int) in
      if c = quote \<or> c = backslash then backslash # c # escape_string s
      else if n = 8 then [backslash, CHR ''b''] @ escape_string s
      else if n = 12 then [backslash, CHR ''f''] @ escape_string s
      else if n = 10 then [backslash, CHR ''n''] @ escape_string s
      else if n = 13 then [backslash, CHR ''r''] @ escape_string s
      else if n = 9 then [backslash, CHR ''t''] @ escape_string s
      else if n < 32 \<or> c = CHR ''<'' \<or> c = CHR ''>'' \<or> c = CHR ''&'' then u_escape n @ escape_string s
      else if c = CHR 0xE2 \<and> take 2 s = [CHR 0x80, CHR 0xA8] then u_escape 0x2028 @ escape_string (drop 2 s)
      else if c = CHR 0xE2 \<and> take 2 s = [CHR 0x80, CHR 0xA9] then u_escape 0x2029 @ escape_string (drop 2 s)
      else c # escape_string s)"

definition json_quote :: "string \<Rightarrow> string" where
  "json_quote s = quote # escape_string s @ [quote]"

fun json_encode :: "json \<Rightarrow> string" where
  "json_encode JNull = ''null''"
| "json_encode (JBool b) = (if b then ''true'' else ''false'')"
| "json_encode (JNum s) = s"
| "json_encode (JStr s) = json_quote s"
| "json_encode (JArr vs) = ''['' @ join_with '','' (map json_encode vs) @ '']''"
| "json_encode (JObj ms) =
     ''{'' @ join_with '','' (map (\<lambda>(k, v). json_quote k @ '':'' @ json_encode v) ms) @ ''}''"

text \<open>\<open>json.RawMessage\<close> inside a marshalled struct: spaces outside strings go, HTML is escaped.\<close>

fun json_compact :: "bool \<Rightarrow> string \<Rightarrow> string" where
  "json_compact in_str [] = []"
| "json_compact in_str (c # s) =
     (if \<not> in_str \<and> json_space c then json_compact in_str s
      else if c = CHR ''<'' \<or> c = CHR ''>'' \<or> c = CHR ''&'' then u_escape (of_char c) @ json_compact in_str s
      else if c = CHR 0xE2 \<and> take 2 s = [CHR 0x80, CHR 0xA8] then u_escape 0x2028 @ json_compact in_str (drop 2 s)
      else if c = CHR 0xE2 \<and> take 2 s = [CHR 0x80, CHR 0xA9] then u_escape 0x2029 @ json_compact in_str (drop 2 s)
      else if in_str \<and> c = backslash then
        (case s of [] \<Rightarrow> [c] | d # s' \<Rightarrow> c # d # json_compact in_str s')
      else if c = quote then c # json_compact (\<not> in_str) s
      else c # json_compact in_str s)"

definition newline :: char where "newline = CHR 0x0A"

text \<open>\<open>json.NewEncoder(w).Encode(body)\<close> after the content type and the status.\<close>

definition writeJSON :: "int \<Rightarrow> json \<Rightarrow> http_response" where
  "writeJSON status body =
     \<lparr>rsp_status = status, rsp_header = [(''Content-Type'', [''application/json''])],
      rsp_body = json_encode body @ [newline]\<rparr>"

lemma rsp_status_writeJSON [simp]: "rsp_status (writeJSON status body) = status"
  by (simp add: writeJSON_def)

end
