(* ===== verification/Go_Mux.thy ===== *)
theory Go_Mux
  imports Go_Http
begin

text \<open>
  \<^verbatim>\<open>http.ServeMux\<close> as the sources use it: patterns with an optional method, literal segments,
  single-segment wildcards and subtree (trailing slash) patterns; path cleaning and trailing-slash
  redirects; 404 and 405 for what does not match. A mux is a list of patterns, a more specific one
  before the less specific ones it overlaps with.
\<close>

section \<open>Paths\<close>

text \<open>\<open>url.PathUnescape\<close> of one segment; a malformed escape leaves the segment as it is.\<close>

fun unescape :: "string \<Rightarrow> string option" where
  "unescape [] = Some []"
| "unescape (c # s) =
     (if c = CHR ''%'' then
        (case s of
           a # b # s' \<Rightarrow>
             (case (hex_value a, hex_value b) of
                (Some x, Some y) \<Rightarrow> map_option ((#) (char_of (16 * x + y))) (unescape s')
              | _ \<Rightarrow> None)
         | _ \<Rightarrow> None)
      else map_option ((#) c) (unescape s))"

definition path_unescape :: "string \<Rightarrow> string" where
  "path_unescape s = (case unescape s of Some t \<Rightarrow> t | None \<Rightarrow> s)"

text \<open>\<open>cleanPath\<close>: empty and dot segments vanish, dot-dot removes its predecessor.\<close>

fun clean_segs :: "string list \<Rightarrow> string list \<Rightarrow> string list" where
  "clean_segs acc [] = rev acc"
| "clean_segs acc (s # ss) =
     (if s = [] \<or> s = ''.'' then clean_segs acc ss
      else if s = ''..'' then clean_segs (tl acc) ss
      else clean_segs (s # acc) ss)"

definition clean_path :: "string \<Rightarrow> string" where
  "clean_path p =
     (let p' = (if p = [] \<or> hd p \<noteq> slash then slash # p else p);
          np = slash # join_with [slash] (clean_segs [] (split_on slash (tl p')))
      in if last p' = slash \<and> np \<noteq> [slash] then np @ [slash] else np)"

section \<open>Patterns\<close>

datatype segment = Lit string | Wild

record mux_pattern =
  pat_method :: "string option"
  pat_segments :: "segment list"
  pat_subtree :: bool

text \<open>The segments of a cleaned path: the text between slashes, and whether it ends in a slash.\<close>

definition path_segments :: "string \<Rightarrow> string list \<times> bool" where
  "path_segments p =
     (let ss = split_on slash (tl p)
      in if last ss = [] then (map path_unescape (butlast ss), True) else (map path_unescape ss, False))"

fun match_segments :: "segment list \<Rightarrow> string list \<Rightarrow> (string list \<times> string list) option" where
  "match_segments [] ss = Some ([], ss)"
| "match_segments (p # ps) [] = None"
| "match_segments (Lit l # ps) (s # ss) = (if l = s then match_segments ps ss else None)"
| "match_segments (Wild # ps) (s # ss) = map_option (\<lambda>(ws, r). (s # ws, r)) (match_segments ps ss)"

text \<open>The wildcard values when the pattern matches the path.\<close>

definition match_path :: "mux_pattern \<Rightarrow> string \<Rightarrow> string list option" where
  "match_path pat p =
     (let (ss, trail) = path_segments p
      in case match_segments (pat_segments pat) ss of
           None \<Rightarrow> None
         | Some (ws, rest) \<Rightarrow>
             if pat_subtree pat then (if rest \<noteq> [] \<or> trail then Some ws else None)
             else (if rest = [] \<and> \<not> trail then Some ws else None))"

definition find_pattern ::
  "mux_pattern list \<Rightarrow> string option \<Rightarrow> string \<Rightarrow> (nat \<times> string list) option" where
  "find_pattern pats method p =
     map_option (\<lambda>i. (i, the (match_path (pats ! i) p)))
       (find (\<lambda>i. pat_method (pats ! i) = method \<and> match_path (pats ! i) p \<noteq> None) [0..<length pats])"

text \<open>\<open>routingNode.match\<close>: the method's own patterns, \<open>GET\<close> for \<open>HEAD\<close>, then those of any method.\<close>

definition mux_match :: "mux_pattern list \<Rightarrow> string \<Rightarrow> string \<Rightarrow> (nat \<times> string list) option" where
  "mux_match pats method p =
     (case find_pattern pats (Some method) p of
        Some m \<Rightarrow> Some m
      | None \<Rightarrow>
          (case (if method = ''HEAD'' then find_pattern pats (Some ''GET'') p else None) of
             Some m \<Rightarrow> Some m
           | None \<Rightarrow> find_pattern pats None p))"

definition exact_match :: "mux_pattern list \<Rightarrow> (nat \<times> string list) option \<Rightarrow> string \<Rightarrow> bool" where
  "exact_match pats m p =
     (case m of
        None \<Rightarrow> False
      | Some (i, _) \<Rightarrow>
          if \<not> pat_subtree (pats ! i) then True
          else p \<noteq> [] \<and> last p = slash \<and>
            Suc (length (pat_segments (pats ! i))) = length (filter (\<lambda>c. c = slash) p))"

datatype mux_result =
    MuxHandler nat "string list"
  | MuxRedirect string
  | MuxMethodNotAllowed "string list"
  | MuxNotFound

definition matching_methods :: "mux_pattern list \<Rightarrow> string \<Rightarrow> string list" where
  "matching_methods pats p =
     (let ms = concat (map (\<lambda>pat. if match_path pat p \<noteq> None then
            (case pat_method pat of
               Some m \<Rightarrow> if m = ''GET'' then [''GET'', ''HEAD''] else [m]
             | None \<Rightarrow> []) else []) pats)
      in sort (remdups ms))"

definition mux_find :: "mux_pattern list \<Rightarrow> string \<Rightarrow> string \<Rightarrow> mux_result" where
  "mux_find pats method escapedPath =
     (let p = clean_path escapedPath; m = mux_match pats method p
      in if \<not> exact_match pats m p \<and> last p \<noteq> slash \<and>
            exact_match pats (mux_match pats method (p @ [slash])) (p @ [slash])
         then MuxRedirect (p @ [slash])
         else if p \<noteq> escapedPath then MuxRedirect p
         else case m of
           Some (i, ws) \<Rightarrow> MuxHandler i ws
         | None \<Rightarrow>
             let ms = matching_methods pats p
             in if ms \<noteq> [] then MuxMethodNotAllowed ms else MuxNotFound)"

text \<open>The responses of the mux itself.\<close>

definition redirect_response :: "string \<Rightarrow> http_response" where
  "redirect_response u = \<lparr>rsp_status = 301, rsp_header = [(''Location'', [u])], rsp_body = []\<rparr>"

definition mux_fallback :: "mux_result \<Rightarrow> http_response" where
  "mux_fallback r =
     (case r of
        MuxRedirect u \<Rightarrow> redirect_response u
      | MuxMethodNotAllowed ms \<Rightarrow>
          (http_error ''Method Not Allowed'' StatusMethodNotAllowed)
            \<lparr>rsp_header := (''Allow'', [join_with '', '' ms]) # plain_text_header\<rparr>
      | _ \<Rightarrow> http_error ''404 page not found'' StatusNotFound)"

lemma find_pattern_sound:
  "find_pattern pats m p = Some (i, ws) \<Longrightarrow>
     i < length pats \<and> pat_method (pats ! i) = m \<and> match_path (pats ! i) p = Some ws"
  by (auto simp: find_pattern_def find_Some_iff)

lemma mux_match_sound:
  "mux_match pats method p = Some (i, ws) \<Longrightarrow>
     i < length pats \<and> match_path (pats ! i) p = Some ws \<and>
     (pat_method (pats ! i) = Some method \<or> pat_method (pats ! i) = None \<or>
      method = ''HEAD'' \<and> pat_method (pats ! i) = Some ''GET'')"
  by (auto simp: mux_match_def split: option.splits if_splits dest!: find_pattern_sound)

lemma mux_find_sound:
  assumes "mux_find pats method p = MuxHandler i ws"
  shows "i < length pats \<and> match_path (pats ! i) p = Some ws \<and>
    (pat_method (pats ! i) = Some method \<or> pat_method (pats ! i) = None \<or>
     method = ''HEAD'' \<and> pat_method (pats ! i) = Some ''GET'')"
  using assms
  by (auto simp: mux_find_def Let_def split: if_splits option.splits dest!: mux_match_sound)

end
