(* ===== verification/Egress_Receiver.thy ===== *)
theory Egress_Receiver
  imports Metrics Go_Json Go_Mux Retention_Policy
begin

text \<open>
  The egress webhook receiver (\<^verbatim>\<open>internal/wrap/recording.go\<close>): verification, attribution to a tenant,
  the update of the recording ledger, and the forward to the cloud with bounded retries. The webhook
  verification of the LiveKit library, the HTTP client and the recording store are parameters; the
  JSON text is parsed and produced here. The lemmas show what an unauthenticated or foreign event can
  touch, that replays leave the ledger alone, and how the retry loop ends.
\<close>

section \<open>Configuration\<close>

text \<open>A store is given by its \<open>Upsert\<close>; \<open>None\<close> is the nil store.\<close>

record 's egress_config =
  ec_tenant :: tenant
  ec_api_key :: string
  ec_api_secret :: string
  ec_cloud_url :: string
  ec_cloud_auth_tok :: string
  ec_max_attempts :: int
  ec_base_backoff :: duration
  ec_store :: "(recording \<Rightarrow> 's \<Rightarrow> store_error option \<times> 's) option"

datatype egress_config_error = EgressNilTenant | EgressMissingKeySecret | EgressMissingCloudToken

definition NewEgressReceiver :: "tenant option \<Rightarrow> 's egress_config \<Rightarrow> egress_config_error + 's egress_config" where
  "NewEgressReceiver tenant cfg =
     (case tenant of
        None \<Rightarrow> Inl EgressNilTenant
      | Some T \<Rightarrow>
          if ec_api_key cfg = [] \<or> ec_api_secret cfg = [] then Inl EgressMissingKeySecret
          else if ec_cloud_url cfg \<noteq> [] \<and> ec_cloud_auth_tok cfg = [] then Inl EgressMissingCloudToken
          else
            let cfg = cfg\<lparr>ec_tenant := T\<rparr>;
                cfg = (if ec_max_attempts cfg = 0 then cfg\<lparr>ec_max_attempts := 4\<rparr> else cfg)
            in Inr (if ec_base_backoff cfg = 0 then cfg\<lparr>ec_base_backoff := 250 * millisecond\<rparr> else cfg))"

definition WebhookPath :: string where
  "WebhookPath = ''/v1/egress/webhook''"

section \<open>The event\<close>

record webhook_file =
  wf_size :: string
  wf_duration :: string

record webhook_event =
  we_event :: string
  we_room_name :: string
  we_egress_id :: string
  we_egress_room_name :: string
  we_status :: string
  we_file :: webhook_file
  we_file_results :: "webhook_file list"

definition zero_file :: webhook_file where
  "zero_file = \<lparr>wf_size = [], wf_duration = []\<rparr>"

definition zero_event :: webhook_event where
  "zero_event = \<lparr>we_event = [], we_room_name = [], we_egress_id = [], we_egress_room_name = [],
     we_status = [], we_file = zero_file, we_file_results = []\<rparr>"

definition file_fields :: "string \<Rightarrow> (json \<Rightarrow> webhook_file \<Rightarrow> webhook_file option) option" where
  "file_fields k =
     (if k = ''size'' then Some (\<lambda>v f. map_option (\<lambda>s. f\<lparr>wf_size := s\<rparr>) (dec_number v (wf_size f)))
      else if k = ''duration'' then Some (\<lambda>v f. map_option (\<lambda>s. f\<lparr>wf_duration := s\<rparr>) (dec_number v (wf_duration f)))
      else None)"

definition egress_info_fields :: "string \<Rightarrow> (json \<Rightarrow> webhook_event \<Rightarrow> webhook_event option) option" where
  "egress_info_fields k =
     (if k = ''egress_id'' then Some (\<lambda>v e. map_option (\<lambda>s. e\<lparr>we_egress_id := s\<rparr>) (dec_string v (we_egress_id e)))
      else if k = ''room_name'' then Some (\<lambda>v e. map_option (\<lambda>s. e\<lparr>we_egress_room_name := s\<rparr>) (dec_string v (we_egress_room_name e)))
      else if k = ''status'' then Some (\<lambda>v e. map_option (\<lambda>s. e\<lparr>we_status := s\<rparr>) (dec_string v (we_status e)))
      else if k = ''file'' then Some (\<lambda>v e. map_option (\<lambda>f. e\<lparr>we_file := f\<rparr>) (dec_struct file_fields v (we_file e)))
      else if k = ''file_results'' then Some (\<lambda>v e. map_option (\<lambda>fs. e\<lparr>we_file_results := fs\<rparr>)
        (dec_slice (\<lambda>w. dec_struct file_fields w zero_file) v (we_file_results e)))
      else None)"

definition room_fields :: "string \<Rightarrow> (json \<Rightarrow> webhook_event \<Rightarrow> webhook_event option) option" where
  "room_fields k =
     (if k = ''name'' then Some (\<lambda>v e. map_option (\<lambda>s. e\<lparr>we_room_name := s\<rparr>) (dec_string v (we_room_name e)))
      else None)"

definition event_fields :: "string \<Rightarrow> (json \<Rightarrow> webhook_event \<Rightarrow> webhook_event option) option" where
  "event_fields k =
     (if k = ''event'' then Some (\<lambda>v e. map_option (\<lambda>s. e\<lparr>we_event := s\<rparr>) (dec_string v (we_event e)))
      else if k = ''room'' then Some (dec_struct room_fields)
      else if k = ''egress_info'' then Some (dec_struct egress_info_fields)
      else None)"

definition decode_event :: "string \<Rightarrow> webhook_event option" where
  "decode_event raw =
     (case json_parse raw of None \<Rightarrow> None | Some v \<Rightarrow> dec_struct event_fields v zero_event)"

text \<open>\<open>json.Number.Int64\<close> is \<open>strconv.ParseInt(s, 10, 64)\<close>.\<close>

definition read_int :: "string \<Rightarrow> int" where
  "read_int s = foldl (\<lambda>a c. 10 * a + digit_int c) 0 s"

definition ParseInt64 :: "string \<Rightarrow> int option" where
  "ParseInt64 s =
     (let neg = (s \<noteq> [] \<and> hd s = CHR ''-'');
          ds = (if neg \<or> s \<noteq> [] \<and> hd s = CHR ''+'' then tl s else s);
          v = (if neg then - read_int ds else read_int ds)
      in if ds = [] \<or> \<not> list_all is_digit ds \<or> v < min_int64 \<or> max_int64 < v then None else Some v)"

definition parseUint :: "string \<Rightarrow> u64" where
  "parseUint n =
     (if n = [] then 0
      else case ParseInt64 n of
        None \<Rightarrow> 0
      | Some v \<Rightarrow> if v < 0 then 0 else word_of_int v)"

record egress_envelope =
  env_schema :: string
  env_event :: string
  env_tenant :: string
  env_room :: string
  env_full_room :: string
  env_egress_id :: string
  env_at :: int
  env_raw :: string

record parsed_egress =
  pe_event :: string
  pe_status :: string
  pe_egress_id :: string
  pe_size_bytes :: u64
  pe_duration_ms :: u64

datatype envelope_error = EnvelopeBadJSON | EnvelopeNoRoom | EnvelopeBadRoom tenant_error

definition envelopeFromWebhookBody ::
  "tenant \<Rightarrow> time \<Rightarrow> string \<Rightarrow> envelope_error + egress_envelope \<times> parsed_egress" where
  "envelopeFromWebhookBody T now raw =
     (case decode_event raw of
        None \<Rightarrow> Inl EnvelopeBadJSON
      | Some ev \<Rightarrow>
          let fullRoom = (if we_egress_room_name ev = [] then we_room_name ev else we_egress_room_name ev)
          in if fullRoom = [] then Inl EnvelopeNoRoom
             else case SplitRoom T fullRoom of
               Inl e \<Rightarrow> Inl (EnvelopeBadRoom e)
             | Inr (tenant, rest) \<Rightarrow>
                 let sz = parseUint (wf_size (we_file ev));
                     dur = parseUint (wf_duration (we_file ev));
                     sz = (if sz = 0 \<and> we_file_results ev \<noteq> []
                             then parseUint (wf_size (hd (we_file_results ev))) else sz);
                     dur = (if dur = 0 \<and> we_file_results ev \<noteq> []
                            then parseUint (wf_duration (hd (we_file_results ev))) else dur)
                 in Inr (\<lparr>env_schema = ''vulos-meet/egress/v1'', env_event = we_event ev,
                          env_tenant = tenant, env_room = rest, env_full_room = fullRoom,
                          env_egress_id = we_egress_id ev, env_at = time_unix now, env_raw = raw\<rparr>,
                         \<lparr>pe_event = we_event ev, pe_status = we_status ev,
                          pe_egress_id = we_egress_id ev, pe_size_bytes = sz, pe_duration_ms = dur\<rparr>))"

section \<open>The ledger\<close>

definition statusIsComplete :: "string \<Rightarrow> bool" where
  "statusIsComplete s \<longleftrightarrow> s = ''EGRESS_COMPLETE''"

definition statusIsFailed :: "string \<Rightarrow> bool" where
  "statusIsFailed s \<longleftrightarrow> s \<in> {''EGRESS_FAILED'', ''EGRESS_ABORTED'', ''EGRESS_LIMIT_REACHED''}"

definition lifecycle_recording :: "int \<Rightarrow> egress_envelope \<Rightarrow> parsed_egress \<Rightarrow> recording" where
  "lifecycle_recording now env pe =
     (let rec' = zero_recording\<lparr>rec_egress_id := pe_egress_id pe, rec_tenant := env_tenant env,
                  rec_room := env_room env\<rparr>;
          available = rec'\<lparr>rec_state := RecordingStateAvailable, rec_ended_at := now,
                       rec_size_bytes := pe_size_bytes pe, rec_duration_ms := pe_duration_ms pe\<rparr>;
          started = rec'\<lparr>rec_state := RecordingStateRecording, rec_started_at := now\<rparr>
      in if statusIsComplete (pe_status pe) then available
         else if statusIsFailed (pe_status pe) then rec'\<lparr>rec_state := RecordingStateFailed, rec_ended_at := now\<rparr>
         else if pe_event pe = ''egress_ended'' then available
         else if pe_event pe = ''egress_started'' then started
         else started)"

definition recordLifecycle ::
  "'s egress_config \<Rightarrow> time \<Rightarrow> egress_envelope \<Rightarrow> parsed_egress \<Rightarrow> 's \<times> metrics option \<Rightarrow> 's \<times> metrics option" where
  "recordLifecycle cfg now env pe st =
     (let (s, m) = st in
      case ec_store cfg of
        None \<Rightarrow> (s, m)
      | Some upsert \<Rightarrow>
          if pe_egress_id pe = [] then (s, m)
          else
            let rec' = lifecycle_recording (time_unix now) env pe; (err, s') = upsert rec' s
            in if err \<noteq> None then (s', m)
               else
                 let m = ObserveRecordingLifecycle (rec_state rec') m
                 in (s', if rec_state rec' = RecordingStateAvailable \<and>
                            (0 < rec_size_bytes rec' \<or> 0 < rec_duration_ms rec')
                         then ObserveRecordingBytes (rec_size_bytes rec') (rec_duration_ms rec') m else m))"

section \<open>The forward\<close>

definition envelope_json :: "egress_envelope \<Rightarrow> string" where
  "envelope_json env =
     ''{'' @ join_with '',''
       (map (\<lambda>(k, v). json_quote k @ '':'' @ v)
         [(''schema'', json_quote (env_schema env)), (''event'', json_quote (env_event env)),
          (''tenant'', json_quote (env_tenant env)), (''room'', json_quote (env_room env)),
          (''full_room'', json_quote (env_full_room env)), (''egress_id'', json_quote (env_egress_id env)),
          (''at'', show_int (env_at env)), (''raw'', json_compact False (env_raw env))]) @ ''}''"

text \<open>An outgoing request and the client that performs it: a transport error or a status.\<close>

record out_request =
  or_method :: string
  or_url :: string
  or_header :: "(string, string) go_map"
  or_body :: string

type_synonym 'c http_client = "out_request \<Rightarrow> 'c \<Rightarrow> (string + int) \<times> 'c"

datatype forward_error =
    ForwardCancelled
  | ForwardBadURL
  | ForwardTransport string
  | ForwardStatus int
  | ForwardNoAttempts

definition forward_request :: "'s egress_config \<Rightarrow> egress_envelope \<Rightarrow> out_request" where
  "forward_request cfg env =
     \<lparr>or_method = ''POST'', or_url = ec_cloud_url cfg,
      or_header = [(''Content-Type'', ''application/json''), (''X-Vulos-Schema'', env_schema env),
        (''X-Vulos-Tenant'', env_tenant env), (''Authorization'', ''Bearer '' @ ec_cloud_auth_tok cfg)],
      or_body = envelope_json env\<rparr>"

text \<open>
  One pass of the loop from attempt number \<open>k\<close>. \<open>cancelled k\<close> says whether the context ends during
  the wait before attempt \<open>k\<close>; the waits are returned. The URL either parses in every attempt or in
  none.
\<close>

fun forward_loop ::
  "'c http_client \<Rightarrow> out_request \<Rightarrow> (nat \<Rightarrow> bool) \<Rightarrow> bool \<Rightarrow> nat \<Rightarrow> nat \<Rightarrow> duration \<Rightarrow>
     forward_error option \<Rightarrow> 'c \<Rightarrow> forward_error option \<times> duration list \<times> 'c" where
  "forward_loop client req cancelled url_ok 0 k backoff lastErr c =
     ((case lastErr of None \<Rightarrow> Some ForwardNoAttempts | Some e \<Rightarrow> Some e), [], c)"
| "forward_loop client req cancelled url_ok (Suc n) k backoff lastErr c =
     (if 0 < k \<and> cancelled k then (Some ForwardCancelled, [], c)
      else
        let waits = (if 0 < k then [backoff] else []);
            backoff = (if 0 < k then wrap64 (2 * backoff) else backoff)
        in if \<not> url_ok then (Some ForwardBadURL, waits, c)
           else case client req c of
             (Inl e, c') \<Rightarrow>
               (let (r, ws, c'') = forward_loop client req cancelled url_ok n (Suc k) backoff
                      (Some (ForwardTransport e)) c' in (r, waits @ ws, c''))
           | (Inr status, c') \<Rightarrow>
               if 200 \<le> status \<and> status < 300 then (None, waits, c')
               else if 400 \<le> status \<and> status < 500 then (Some (ForwardStatus status), waits, c')
               else (let (r, ws, c'') = forward_loop client req cancelled url_ok n (Suc k) backoff
                       (Some (ForwardStatus status)) c' in (r, waits @ ws, c'')))"

definition forward ::
  "'s egress_config \<Rightarrow> 'c http_client \<Rightarrow> (nat \<Rightarrow> bool) \<Rightarrow> bool \<Rightarrow> egress_envelope \<Rightarrow> 'c \<Rightarrow>
     forward_error option \<times> duration list \<times> 'c" where
  "forward cfg client cancelled url_ok env c =
     forward_loop client (forward_request cfg env) cancelled url_ok (nat (ec_max_attempts cfg)) 0
       (ec_base_backoff cfg) None c"

section \<open>The handler\<close>

text \<open>
  \<open>webhook.Receive\<close>: the verified body. The body is read through a reader capped at 1 MiB, so a longer
  one is an error whatever the verification would say.
\<close>

definition max_webhook_body :: int where "max_webhook_body = 2 ^ 20"

definition receive_capped :: "(http_request \<Rightarrow> string option) \<Rightarrow> http_request \<Rightarrow> string option" where
  "receive_capped receive req =
     (if max_webhook_body < int (length (req_body req)) then None else receive req)"

definition no_content :: http_response where
  "no_content = \<lparr>rsp_status = StatusNoContent, rsp_header = [], rsp_body = []\<rparr>"

record ('s, 'c) egress_state =
  es_store :: 's
  es_metrics :: "metrics option"
  es_cloud :: 'c

record 'c egress_env =
  ee_receive :: "http_request \<Rightarrow> string option"
  ee_client :: "'c http_client"
  ee_cancelled :: "nat \<Rightarrow> bool"
  ee_url_ok :: bool

definition egress_handle ::
  "'s egress_config \<Rightarrow> 'c egress_env \<Rightarrow> time \<Rightarrow> time \<Rightarrow> http_request \<Rightarrow> ('s, 'c) egress_state \<Rightarrow>
     http_response \<times> ('s, 'c) egress_state" where
  "egress_handle cfg E now now' req st =
     (if req_method req \<noteq> ''POST''
      then (http_error ''method not allowed'' StatusMethodNotAllowed, st)
      else case receive_capped (ee_receive E) req of
        None \<Rightarrow> (http_error ''unauthorized'' StatusUnauthorized, st)
      | Some raw \<Rightarrow>
          (case envelopeFromWebhookBody (ec_tenant cfg) now raw of
             Inl _ \<Rightarrow> (http_error ''bad event'' StatusBadRequest, st)
           | Inr (env, pe) \<Rightarrow>
               let (s, m) = recordLifecycle cfg now' env pe (es_store st, es_metrics st);
                   st = st\<lparr>es_store := s, es_metrics := m\<rparr>
               in if ec_cloud_url cfg = [] then (no_content, st)
                  else case forward cfg (ee_client E) (ee_cancelled E) (ee_url_ok E) env (es_cloud st) of
                    (Some _, _, c) \<Rightarrow> (http_error ''bad gateway'' StatusBadGateway, st\<lparr>es_cloud := c\<rparr>)
                  | (None, _, c) \<Rightarrow> (no_content, st\<lparr>es_cloud := c\<rparr>)))"

section \<open>Lemmas on the ledger\<close>

lemma lifecycle_recording_id [simp]:
  "rec_egress_id (lifecycle_recording now env pe) = pe_egress_id pe"
  "rec_tenant (lifecycle_recording now env pe) = env_tenant env"
  "rec_room (lifecycle_recording now env pe) = env_room env"
  by (simp_all add: lifecycle_recording_def Let_def)

lemma recordLifecycle_metrics_ok [keeps]:
  "metrics_opt_ok m \<Longrightarrow> metrics_opt_ok (snd (recordLifecycle cfg now env pe (s, m)))"
  by (auto simp: recordLifecycle_def Let_def case_prod_beta keeps_counters keeps_recording_lifecycle
      split: option.split)

lemma Upsert_lookup:
  "map_of (snd (Upsert r s)) k =
     (if k = rec_egress_id r \<and> k \<noteq> []
      then Some (case map_of s k of None \<Rightarrow> r | Some cur \<Rightarrow> merge_recording cur r) else map_of s k)"
  by (auto simp: Upsert_def split: option.split)

lemma Upsert_ok [simp]: "fst (Upsert r s) = None \<longleftrightarrow> rec_egress_id r \<noteq> []"
  by (simp add: Upsert_def split: option.split)

lemma update_update_same: "put k v (put k w m) = put k v m"
  by (induction m) auto

lemma put_same: "map_of m k = Some v \<Longrightarrow> put k v m = m"
  by (induction m) auto

lemma Upsert_replay: "snd (Upsert r (snd (Upsert r s))) = snd (Upsert r s)"
proof (cases "rec_egress_id r = []")
  case True
  then show ?thesis by (simp add: Upsert_def)
next
  case False
  let ?v = "case map_of s (rec_egress_id r) of None \<Rightarrow> r | Some cur \<Rightarrow> merge_recording cur r"
  have "map_of (snd (Upsert r s)) (rec_egress_id r) = Some ?v"
    using False by (simp add: Upsert_lookup)
  moreover have "merge_recording ?v r = ?v" by (simp split: option.split)
  ultimately show ?thesis using False by (simp add: Upsert_def put_same)
qed

text \<open>What any event may do to the in-memory ledger.\<close>

lemma recordLifecycle_mem:
  assumes "ec_store cfg = Some Upsert"
  shows "fst (recordLifecycle cfg now env pe (s, m)) =
    (if pe_egress_id pe = [] then s
     else snd (Upsert (lifecycle_recording (time_unix now) env pe) s))"
  using assms by (simp add: recordLifecycle_def Let_def case_prod_beta)

section \<open>Lemmas on the retry loop\<close>

definition attempt_ok :: "string + int \<Rightarrow> bool" where
  "attempt_ok a = (case a of Inl _ \<Rightarrow> False | Inr status \<Rightarrow> 200 \<le> status \<and> status < 300)"

definition attempt_retryable :: "string + int \<Rightarrow> bool" where
  "attempt_retryable a =
     (case a of Inl _ \<Rightarrow> True
      | Inr status \<Rightarrow> \<not> (200 \<le> status \<and> status < 300) \<and> \<not> (400 \<le> status \<and> status < 500))"

text \<open>A client that answers its \<open>i\<close>-th request with \<open>answers i\<close> and keeps what it was sent.\<close>

definition log_client :: "(nat \<Rightarrow> string + int) \<Rightarrow> out_request list http_client" where
  "log_client answers req sent = (answers (length sent), sent @ [req])"

fun first_final :: "(nat \<Rightarrow> string + int) \<Rightarrow> nat \<Rightarrow> nat \<Rightarrow> nat option" where
  "first_final answers k 0 = None"
| "first_final answers k (Suc n) =
     (if attempt_retryable (answers k) then first_final answers (Suc k) n else Some k)"

lemma first_final_Some:
  "first_final answers k n = Some i \<longleftrightarrow>
     k \<le> i \<and> i < k + n \<and> \<not> attempt_retryable (answers i) \<and> (\<forall>j. k \<le> j \<and> j < i \<longrightarrow> attempt_retryable (answers j))"
proof (induction n arbitrary: k)
  case (Suc n)
  have "k \<le> i \<longleftrightarrow> i = k \<or> Suc k \<le> i" by auto
  then show ?case using Suc.IH [of "Suc k"]
    by (cases "attempt_retryable (answers k)") (auto simp: Suc_le_eq intro: le_neq_implies_less)
qed simp

lemma forward_loop_outcome:
  assumes "length sent = k"
  shows "case forward_loop (log_client answers) req (\<lambda>_. False) True n k backoff e sent of
    (r, ws, sent') \<Rightarrow>
      (case first_final answers k n of
         Some i \<Rightarrow> sent' = sent @ replicate (Suc i - k) req \<and> (r = None \<longleftrightarrow> attempt_ok (answers i))
       | None \<Rightarrow> sent' = sent @ replicate n req \<and> r \<noteq> None)"
  using assms
proof (induction n arbitrary: k backoff e sent)
  case 0
  then show ?case by (simp split: option.split)
next
  case (Suc n)
  have step: "log_client answers req sent = (answers k, sent @ [req])"
    using Suc.prems by (simp add: log_client_def)
  show ?case
  proof (cases "attempt_retryable (answers k)")
    case False
    then show ?thesis
      using step by (cases "answers k") (auto simp: attempt_retryable_def attempt_ok_def)
  next
    case True
    have len: "length (sent @ [req]) = Suc k" using Suc.prems by simp
    have le: "Suc k \<le> i" if "first_final answers (Suc k) n = Some i" for i
      using that by (simp add: first_final_Some)
    have rep: "req # replicate (Suc i - Suc k) req = replicate (Suc i - k) req"
      if "Suc k \<le> i" for i
      using that by (metis Suc_diff_Suc Suc_le_lessD less_SucI replicate_Suc)
    show ?thesis
      using True step Suc.IH [OF len] le rep
      by (cases "answers k")
        (auto simp: attempt_retryable_def case_prod_beta Let_def split: option.splits)
  qed
qed

lemma forward_loop_waits:
  assumes "\<forall>i. attempt_retryable (answers i)" "0 \<le> backoff" "backoff * 2 ^ n \<le> max_int64" "length sent = k"
  shows "fst (snd (forward_loop (log_client answers) req (\<lambda>_. False) True n k backoff e sent)) =
    (if k = 0 then map (\<lambda>i. backoff * 2 ^ i) [0..<n - 1] else map (\<lambda>i. backoff * 2 ^ i) [0..<n])"
  using assms(2-)
proof (induction n arbitrary: k backoff e sent)
  case (Suc n)
  have step: "log_client answers req sent = (answers k, sent @ [req])"
    using Suc.prems by (simp add: log_client_def)
  have r: "attempt_retryable (answers k)" using assms(1) by blast
  have b: "2 * backoff * 2 ^ n \<le> max_int64" using Suc.prems(2) by (simp add: mult_ac)
  have "2 * backoff \<le> 2 * backoff * 2 ^ n" using Suc.prems(1) by (simp add: mult_le_cancel_left1)
  with b Suc.prems(1) have w: "wrap64 (2 * backoff) = 2 * backoff"
    by (simp add: min_int64_def)
  have "backoff * 2 ^ n \<le> 2 * backoff * 2 ^ n"
    using Suc.prems(1) by (intro mult_right_mono) simp_all
  with b have b0: "backoff * 2 ^ n \<le> max_int64" by linarith
  have up: "map (\<lambda>i. backoff * 2 ^ i) [0..<Suc n] = backoff # map (\<lambda>i. 2 * backoff * 2 ^ i) [0..<n]"
    by (simp add: upt_conv_Cons mult_ac del: upt_Suc flip: map_Suc_upt)
  have I: "fst (snd (forward_loop (log_client answers) req (\<lambda>_. False) True n (Suc k) c e' (sent @ [req]))) =
      map (\<lambda>i. c * 2 ^ i) [0..<n]" if "0 \<le> c" "c * 2 ^ n \<le> max_int64" for c e'
    using Suc.IH [of c "sent @ [req]" "Suc k" e'] that Suc.prems(3) by simp
  show ?case
    using r step w up I [of backoff] I [of "2 * backoff"] b b0 Suc.prems
    by (cases "answers k") (auto simp: attempt_retryable_def case_prod_beta Let_def simp del: upt_Suc)
qed simp

section \<open>Properties\<close>

text \<open>
  What is not a verified event of a tenant's room leaves no trace: unless the request is a POST
  whose body is at most 1 MiB, passes the webhook verification, decodes, and names a room that splits
  into a tenant and a room, the answer is 405, 401 or 400 and ledger, metrics and cloud are as before;
  otherwise the answer is 204 or 502.
\<close>

theorem egress_rejects_without_effect:
  "(if req_method req = ''POST'' \<and> int (length (req_body req)) \<le> max_webhook_body \<and>
       (\<exists>raw env pe. ee_receive E req = Some raw \<and>
          envelopeFromWebhookBody (ec_tenant cfg) now raw = Inr (env, pe))
    then rsp_status (fst (egress_handle cfg E now now' req st)) \<in> {204, 502}
    else rsp_status (fst (egress_handle cfg E now now' req st)) \<in> {400, 401, 405} \<and>
         snd (egress_handle cfg E now now' req st) = st)"
  by (auto simp: egress_handle_def receive_capped_def no_content_def status_defs case_prod_beta Let_def
      split: option.splits sum.splits)

text \<open>
  Attribution: every event that is recorded or forwarded carries the tenant that owns its room,
  so the room gate admits exactly that tenant to the room named in the envelope.
\<close>

theorem egress_envelope_attribution:
  assumes "envelopeFromWebhookBody T now raw = Inr (env, pe)"
  shows "env_full_room env = env_tenant env @ Separator T @ env_room env \<and>
    (EnforceRoom T u (env_full_room env) = None \<longleftrightarrow> u = env_tenant env) \<and>
    env_egress_id env = pe_egress_id pe \<and> env_raw env = raw"
proof -
  have "SplitRoom T (env_full_room env) = Inr (env_tenant env, env_room env)"
    and "env_egress_id env = pe_egress_id pe" and "env_raw env = raw"
    using assms by (auto simp: envelopeFromWebhookBody_def Let_def split: option.splits sum.splits if_splits)
  moreover from this(1) have "env_full_room env = env_tenant env @ Separator T @ env_room env"
    by (simp add: split_room_iff)
  ultimately show ?thesis by (auto simp: EnforceRoom_None_split)
qed

definition sample_event_body :: string where
  \<open>sample_event_body = ''{"event":"egress_ended","egress_info":{"egress_id":"EG1","room_name":"acme:a","file":{"size":"10","duration":5}}}''\<close>

definition sample_envelope :: egress_envelope where
  "sample_envelope = \<lparr>env_schema = ''vulos-meet/egress/v1'', env_event = ''egress_ended'',
     env_tenant = ''acme'', env_room = ''a'', env_full_room = ''acme:a'', env_egress_id = ''EG1'',
     env_at = 7, env_raw = sample_event_body\<rparr>"

definition sample_parsed :: "string \<Rightarrow> string \<Rightarrow> u64 \<Rightarrow> u64 \<Rightarrow> parsed_egress" where
  "sample_parsed event status sz dur =
     \<lparr>pe_event = event, pe_status = status, pe_egress_id = ''EG1'', pe_size_bytes = sz, pe_duration_ms = dur\<rparr>"

theorem egress_envelope_attribution_witness:
  "EnforceRoom \<lparr>tenant_sep = CHR '':''\<rparr> ''evil'' (env_full_room sample_envelope) \<noteq> None"
proof -
  have "envelopeFromWebhookBody \<lparr>tenant_sep = CHR '':''\<rparr> (7 * second) sample_event_body =
      Inr (sample_envelope, sample_parsed ''egress_ended'' [] 10 5)"
    by code_simp
  from egress_envelope_attribution [OF this, of "''evil''"]
  show ?thesis by (simp add: sample_envelope_def)
qed

text \<open>
  Replays leave the in-memory ledger alone: recording the same event again changes nothing, no
  recorded event lowers the lifecycle rank of any recording, and no event touches a recording of
  another egress.
\<close>

theorem ledger_replay_and_monotone:
  assumes "ec_store cfg = Some Upsert"
  shows "fst (recordLifecycle cfg now env pe (recordLifecycle cfg now env pe (s, m))) =
      fst (recordLifecycle cfg now env pe (s, m)) \<and>
    (\<forall>k r. map_of s k = Some r \<longrightarrow>
      (\<exists>r'. map_of (fst (recordLifecycle cfg now env pe (s, m))) k = Some r' \<and>
        stateRank (rec_state r) \<le> stateRank (rec_state r') \<and> (k \<noteq> pe_egress_id pe \<longrightarrow> r' = r)))"
proof
  show "fst (recordLifecycle cfg now env pe (recordLifecycle cfg now env pe (s, m))) =
      fst (recordLifecycle cfg now env pe (s, m))"
    by (cases "recordLifecycle cfg now env pe (s, m)")
      (use recordLifecycle_mem [OF assms, of now env pe s m] recordLifecycle_mem [OF assms, of now env pe] in
        \<open>simp add: Upsert_replay split: if_splits\<close>)
qed (auto simp: recordLifecycle_mem [OF assms] Upsert_lookup merge_rank)

definition sample_egress_config :: "mem_store egress_config" where
  "sample_egress_config = \<lparr>ec_tenant = \<lparr>tenant_sep = CHR '':''\<rparr>, ec_api_key = ''k'', ec_api_secret = ''s'',
     ec_cloud_url = ''https://cloud'', ec_cloud_auth_tok = ''t'', ec_max_attempts = 4,
     ec_base_backoff = 250 * millisecond, ec_store = Some Upsert\<rparr>"

theorem ledger_replay_and_monotone_witness:
  "fst (recordLifecycle sample_egress_config 0 sample_envelope (sample_parsed ''egress_started'' [] 0 0)
     (recordLifecycle sample_egress_config 0 sample_envelope (sample_parsed ''egress_started'' [] 0 0) ([], None))) =
   fst (recordLifecycle sample_egress_config 0 sample_envelope (sample_parsed ''egress_started'' [] 0 0) ([], None))"
  by (rule ledger_replay_and_monotone [THEN conjunct1]) (simp add: sample_egress_config_def)

text \<open>
  The metrics do not share that idempotence: an update that reports the egress active after its
  start counts as a second start, so the in-progress gauge stays at one after the egress has ended, and
  a redelivered completion adds the recording's bytes a second time.
\<close>

theorem egress_metrics_count_replays:
  "(let ev = (\<lambda>event status sz. recordLifecycle sample_egress_config 0 sample_envelope
       (sample_parsed event status sz 0));
     st0 = ([], Some NewMetrics);
     st1 = ev ''egress_ended'' ''EGRESS_COMPLETE'' 10
            (ev ''egress_updated'' ''EGRESS_ACTIVE'' 0 (ev ''egress_started'' ''EGRESS_STARTING'' 0 st0));
     st2 = ev ''egress_ended'' ''EGRESS_COMPLETE'' 10 st1
   in map_option m_egressInProgress (snd st1) = Some 1 \<and>
      map_option rec_state (map_of (fst st1) ''EG1'') = Some RecordingStateAvailable \<and>
      fst st2 = fst st1 \<and> map_option m_recordingBytesTotal (snd st2) = Some 20)"
  by code_simp

text \<open>
  The forward makes at most the configured number of attempts, all with the same request, stops
  at the first answer that is a success or a client error, and succeeds exactly when that answer is a
  success.
\<close>

theorem forward_attempts:
  "case forward cfg (log_client answers) (\<lambda>_. False) True env [] of (r, waits, sent) \<Rightarrow>
     (case first_final answers 0 (nat (ec_max_attempts cfg)) of
        Some i \<Rightarrow> sent = replicate (Suc i) (forward_request cfg env) \<and> (r = None \<longleftrightarrow> attempt_ok (answers i))
      | None \<Rightarrow> sent = replicate (nat (ec_max_attempts cfg)) (forward_request cfg env) \<and> r \<noteq> None)"
  using forward_loop_outcome [where sent = "[]" and k = 0 and answers = answers and
      req = "forward_request cfg env" and n = "nat (ec_max_attempts cfg)" and
      backoff = "ec_base_backoff cfg" and e = None]
  by (simp add: forward_def case_prod_beta cong: option.case_cong)

text \<open>
  Backoff: while every attempt may be retried, the waits between attempts start at the base and
  double each time; with the defaults of four attempts and 250 ms they add up to 1.75 seconds.
\<close>

theorem forward_backoff_doubles:
  assumes "\<forall>i. attempt_retryable (answers i)" "0 \<le> ec_base_backoff cfg"
    "ec_base_backoff cfg * 2 ^ nat (ec_max_attempts cfg) \<le> max_int64"
  shows "fst (snd (forward cfg (log_client answers) (\<lambda>_. False) True env [])) =
    map (\<lambda>i. ec_base_backoff cfg * 2 ^ i) [0..<nat (ec_max_attempts cfg) - 1]"
  using forward_loop_waits [OF assms(1,2,3), where sent = "[]" and k = 0] by (simp add: forward_def)

theorem forward_backoff_doubles_witness:
  "sum_list (fst (snd (forward sample_egress_config (log_client (\<lambda>_. Inr 503)) (\<lambda>_. False) True sample_envelope []))) =
     1750 * millisecond"
proof -
  have "fst (snd (forward sample_egress_config (log_client (\<lambda>_. Inr 503)) (\<lambda>_. False) True sample_envelope [])) =
      map (\<lambda>i. ec_base_backoff sample_egress_config * 2 ^ i) [0..<nat (ec_max_attempts sample_egress_config) - 1]"
    by (rule forward_backoff_doubles)
      (simp_all add: attempt_retryable_def sample_egress_config_def millisecond_def max_int64_def)
  then show ?thesis by (simp add: sample_egress_config_def millisecond_def upt_conv_Cons)
qed

text \<open>
  Nothing is forwarded without credentials: a receiver built by \<open>NewEgressReceiver\<close> that forwards
  at all sends a non-empty bearer token, and names in the tenant header the owner of the room.
\<close>

theorem forward_always_authenticated:
  assumes "NewEgressReceiver tenant cfg0 = Inr cfg" "ec_cloud_url cfg \<noteq> []"
    "envelopeFromWebhookBody (ec_tenant cfg) now raw = Inr (env, pe)"
  shows "\<exists>tok. tok \<noteq> [] \<and>
    map_of (or_header (forward_request cfg env)) ''Authorization'' = Some (''Bearer '' @ tok) \<and>
    (\<exists>t. map_of (or_header (forward_request cfg env)) ''X-Vulos-Tenant'' = Some t \<and>
      EnforceRoom (ec_tenant cfg) t (env_full_room env) = None)"
proof -
  have "ec_cloud_auth_tok cfg \<noteq> []"
    using assms(1,2) by (auto simp: NewEgressReceiver_def Let_def split: option.splits if_splits)
  moreover have "SplitRoom (ec_tenant cfg) (env_full_room env) = Inr (env_tenant env, env_room env)"
    using assms(3) by (auto simp: envelopeFromWebhookBody_def Let_def split: option.splits sum.splits if_splits)
  ultimately show ?thesis by (auto simp: forward_request_def EnforceRoom_None_split)
qed

theorem forward_always_authenticated_witness:
  "\<exists>tok. tok \<noteq> [] \<and>
    map_of (or_header (forward_request sample_egress_config sample_envelope)) ''Authorization'' = Some (''Bearer '' @ tok)"
proof -
  have new: "NewEgressReceiver (Some \<lparr>tenant_sep = CHR '':''\<rparr>) sample_egress_config = Inr sample_egress_config"
    by (simp add: NewEgressReceiver_def sample_egress_config_def millisecond_def)
  have url: "ec_cloud_url sample_egress_config \<noteq> []" by (simp add: sample_egress_config_def)
  have env: "envelopeFromWebhookBody (ec_tenant sample_egress_config) (7 * second) sample_event_body =
      Inr (sample_envelope, sample_parsed ''egress_ended'' [] 10 5)"
    by code_simp
  show ?thesis using forward_always_authenticated [OF new url env] by blast
qed

end
