(* ===== verification/Meet_Lifecycle.thy ===== *)
theory Meet_Lifecycle
  imports Meet_Prelude
begin

text \<open>
  The running server (the second half of \<open>run\<close> in \<^verbatim>\<open>cmd/vulos-meet/main.go\<close>): its goroutines, the
  error channel, the wait for a signal or the first error, and the ordered shutdown, as a step relation. A
  subsystem's own work is abstracted to the moment it ends and how. The lemmas show that reporting a failure
  never blocks, that the shutdown steps happen in order, and that a stop completes.
\<close>

section \<open>States and steps\<close>

datatype subsystem = AdminSrv | MetricsSrv | SignalSrv | Sweeper | LiveKitChild

text \<open>\<open>Stopping k\<close>: the steps done of shutting down the three servers, \<open>rooms.Close\<close> and \<open>cpClient.Close\<close>.\<close>

datatype main_pc = Waiting | Stopping nat | Returned

record run_state =
  rn_running :: "subsystem list"
  rn_errs :: "subsystem list"
  rn_cancelled :: bool
  rn_pc :: main_pc
  rn_shut :: "subsystem list"
  rn_cp_closed :: bool

definition errCh_capacity :: nat where "errCh_capacity = 4"

definition run_start :: "bool \<Rightarrow> run_state" where
  "run_start sweeper = \<lparr>rn_running = [AdminSrv, MetricsSrv, SignalSrv] @ (if sweeper then [Sweeper] else []) @ [LiveKitChild],
     rn_errs = [], rn_cancelled = False, rn_pc = Waiting, rn_shut = [], rn_cp_closed = False\<rparr>"

definition ended :: "subsystem \<Rightarrow> run_state \<Rightarrow> run_state" where
  "ended x s = s\<lparr>rn_running := remove1 x (rn_running s)\<rparr>"

definition failed :: "subsystem \<Rightarrow> run_state \<Rightarrow> run_state" where
  "failed x s = s\<lparr>rn_running := remove1 x (rn_running s), rn_errs := rn_errs s @ [x]\<rparr>"

definition stop_step :: "nat \<Rightarrow> run_state \<Rightarrow> run_state" where
  "stop_step k s =
     s\<lparr>rn_pc := Stopping (Suc k),
       rn_shut := rn_shut s @ (if k < 3 then [[AdminSrv, MetricsSrv, SignalSrv] ! k] else []),
       rn_cp_closed := (rn_cp_closed s \<or> k = 4)\<rparr>"

text \<open>
  The child ends without an error when it exits with status zero or because of the cancellation. A server
  returns \<open>ErrServerClosed\<close>, which is not reported, once \<open>Shutdown\<close> was called on it.
\<close>

inductive run_step :: "run_state \<Rightarrow> run_state \<Rightarrow> bool" where
  interrupt: "run_step s (s\<lparr>rn_cancelled := True\<rparr>)"
| server_fails: "x \<in> set (rn_running s) \<Longrightarrow> x \<in> {AdminSrv, MetricsSrv, SignalSrv} \<Longrightarrow> x \<notin> set (rn_shut s) \<Longrightarrow>
     length (rn_errs s) < errCh_capacity \<Longrightarrow> run_step s (failed x s)"
| server_closes: "x \<in> set (rn_running s) \<Longrightarrow> x \<in> set (rn_shut s) \<Longrightarrow> run_step s (ended x s)"
| sweeper_stops: "Sweeper \<in> set (rn_running s) \<Longrightarrow> rn_cancelled s \<Longrightarrow> run_step s (ended Sweeper s)"
| child_fails: "LiveKitChild \<in> set (rn_running s) \<Longrightarrow> length (rn_errs s) < errCh_capacity \<Longrightarrow>
     run_step s (failed LiveKitChild s)"
| child_ends: "LiveKitChild \<in> set (rn_running s) \<Longrightarrow> run_step s (ended LiveKitChild s)"
| main_signal: "rn_pc s = Waiting \<Longrightarrow> rn_cancelled s \<Longrightarrow> run_step s (s\<lparr>rn_pc := Stopping 0\<rparr>)"
| main_error: "rn_pc s = Waiting \<Longrightarrow> rn_errs s = e # es \<Longrightarrow>
     run_step s (s\<lparr>rn_errs := es, rn_cancelled := True, rn_pc := Stopping 0\<rparr>)"
| main_stops: "rn_pc s = Stopping k \<Longrightarrow> k < 5 \<Longrightarrow> run_step s (stop_step k s)"
| main_returns: "rn_pc s = Stopping 5 \<Longrightarrow> rn_running s = [] \<Longrightarrow> run_step s (s\<lparr>rn_pc := Returned\<rparr>)"

inductive run_reaches :: "bool \<Rightarrow> run_state \<Rightarrow> bool" for sweeper where
  start: "run_reaches sweeper (run_start sweeper)"
| step: "run_reaches sweeper s \<Longrightarrow> run_step s s' \<Longrightarrow> run_reaches sweeper s'"

inductive_cases run_stepE: "run_step s s'"

section \<open>The invariant\<close>

text \<open>How many shutdown steps are done, and which servers they have shut down.\<close>

definition stops_done :: "main_pc \<Rightarrow> nat" where
  "stops_done pc = (case pc of Waiting \<Rightarrow> 0 | Stopping k \<Rightarrow> k | Returned \<Rightarrow> 5)"

definition run_inv :: "run_state \<Rightarrow> bool" where
  "run_inv s \<longleftrightarrow>
     distinct (rn_running s) \<and> distinct (rn_errs s) \<and> set (rn_errs s) \<inter> set (rn_running s) = {} \<and>
     Sweeper \<notin> set (rn_errs s) \<and> stops_done (rn_pc s) \<le> 5 \<and>
     rn_shut s = take (stops_done (rn_pc s)) [AdminSrv, MetricsSrv, SignalSrv] \<and>
     rn_cp_closed s = (stops_done (rn_pc s) = 5) \<and>
     (rn_pc s \<noteq> Waiting \<longrightarrow> rn_cancelled s) \<and> (rn_pc s = Returned \<longrightarrow> rn_running s = [])"

lemma run_inv_start: "run_inv (run_start sweeper)"
  by (simp add: run_inv_def run_start_def stops_done_def)

lemma run_inv_ended: "run_inv s \<Longrightarrow> run_inv (ended x s)"
  by (auto simp: run_inv_def ended_def dest: set_remove1_subset [THEN subsetD])

lemma run_inv_failed: "run_inv s \<Longrightarrow> x \<in> set (rn_running s) \<Longrightarrow> x \<noteq> Sweeper \<Longrightarrow> run_inv (failed x s)"
  by (auto simp: run_inv_def failed_def dest: set_remove1_subset [THEN subsetD])

lemma run_inv_stop: "run_inv s \<Longrightarrow> rn_pc s = Stopping k \<Longrightarrow> k < 5 \<Longrightarrow> run_inv (stop_step k s)"
proof -
  assume inv: "run_inv s" and pc: "rn_pc s = Stopping k" and "k < 5"
  then have "k = 0 \<or> k = 1 \<or> k = 2 \<or> k = 3 \<or> k = 4" by linarith
  then show "run_inv (stop_step k s)"
    using inv pc by (elim disjE) (simp_all add: run_inv_def stop_step_def stops_done_def)
qed

lemma run_inv_step: "run_step s s' \<Longrightarrow> run_inv s \<Longrightarrow> run_inv s'"
proof (induction rule: run_step.induct)
  case (server_fails x s)
  then show ?case by (intro run_inv_failed) auto
next
  case (child_fails s)
  then show ?case by (intro run_inv_failed) auto
next
  case (main_stops s k)
  then show ?case by (intro run_inv_stop)
next
  case (server_closes x s)
  then show ?case by (intro run_inv_ended)
next
  case (sweeper_stops s)
  then show ?case by (intro run_inv_ended)
next
  case (child_ends s)
  then show ?case by (intro run_inv_ended)
qed (auto simp: run_inv_def stops_done_def)

lemma run_inv_reaches: "run_reaches sweeper s \<Longrightarrow> run_inv s"
  by (induction rule: run_reaches.induct) (auto intro: run_inv_start run_inv_step)

section \<open>Progress\<close>

text \<open>What is left to do: subsystems to end and steps of the main goroutine.\<close>

definition work_left :: "run_state \<Rightarrow> nat" where
  "work_left s = length (rn_running s) +
     (case rn_pc s of Waiting \<Rightarrow> 7 | Stopping k \<Rightarrow> 6 - k | Returned \<Rightarrow> 0)"

lemma work_left_ended: "x \<in> set (rn_running s) \<Longrightarrow> Suc (work_left (ended x s)) = work_left s"
  using length_pos_if_in_set [of x "rn_running s"] by (simp add: work_left_def ended_def length_remove1)

lemma work_left_failed: "x \<in> set (rn_running s) \<Longrightarrow> Suc (work_left (failed x s)) = work_left s"
  using length_pos_if_in_set [of x "rn_running s"] by (simp add: work_left_def failed_def length_remove1)

lemma run_step_decreases:
  assumes "run_step s s'" "run_inv s" shows "s' = s\<lparr>rn_cancelled := True\<rparr> \<or> work_left s' < work_left s"
  using assms
  by cases (auto simp: work_left_def stop_step_def dest: work_left_ended work_left_failed)

text \<open>
  The steps the program itself owes: a server whose \<open>Shutdown\<close> was called returns, the sweeper and the child
  end once the context is cancelled, the main goroutine takes its next step. Signals, failures and a child that
  exits on its own are up to the environment and owed by nobody.
\<close>

inductive owed_step :: "run_state \<Rightarrow> run_state \<Rightarrow> bool" where
  server_returns: "x \<in> set (rn_running s) \<Longrightarrow> x \<in> set (rn_shut s) \<Longrightarrow> owed_step s (ended x s)"
| sweeper_returns: "Sweeper \<in> set (rn_running s) \<Longrightarrow> rn_cancelled s \<Longrightarrow> owed_step s (ended Sweeper s)"
| child_terminates: "LiveKitChild \<in> set (rn_running s) \<Longrightarrow> rn_cancelled s \<Longrightarrow> owed_step s (ended LiveKitChild s)"
| sees_signal: "rn_pc s = Waiting \<Longrightarrow> rn_cancelled s \<Longrightarrow> owed_step s (s\<lparr>rn_pc := Stopping 0\<rparr>)"
| sees_error: "rn_pc s = Waiting \<Longrightarrow> rn_errs s = e # es \<Longrightarrow>
     owed_step s (s\<lparr>rn_errs := es, rn_cancelled := True, rn_pc := Stopping 0\<rparr>)"
| stops: "rn_pc s = Stopping k \<Longrightarrow> k < 5 \<Longrightarrow> owed_step s (stop_step k s)"
| returns: "rn_pc s = Stopping 5 \<Longrightarrow> rn_running s = [] \<Longrightarrow> owed_step s (s\<lparr>rn_pc := Returned\<rparr>)"

lemma owed_is_step: "owed_step s s' \<Longrightarrow> run_step s s'"
  by (induction rule: owed_step.induct) (auto intro: run_step.intros)

text \<open>
  Whatever the environment does, \<open>run\<close> returns: it has returned, or the program owes a step and every step that
  changes anything, the program's or the environment's, leads to a state from which it returns.
\<close>

inductive inevitably_returns :: "run_state \<Rightarrow> bool" where
  has_returned: "rn_pc s = Returned \<Longrightarrow> inevitably_returns s"
| must_return: "owed_step s s1 \<Longrightarrow> (\<And>s'. run_step s s' \<Longrightarrow> s' \<noteq> s \<Longrightarrow> inevitably_returns s') \<Longrightarrow> inevitably_returns s"

text \<open>A stop in progress always has an owed step.\<close>

lemma stopping_owes:
  assumes inv: "run_inv s" and stop: "rn_cancelled s \<or> rn_errs s \<noteq> []" "rn_pc s \<noteq> Returned"
  shows "\<exists>s'. owed_step s s'"
proof (cases "rn_pc s")
  case Waiting
  then show ?thesis
    using stop by (cases "rn_errs s") (auto intro: owed_step.sees_signal owed_step.sees_error)
next
  case (Stopping k)
  then have cancelled: "rn_cancelled s" and k: "k \<le> 5" and shut: "rn_shut s = take k [AdminSrv, MetricsSrv, SignalSrv]"
    using inv by (auto simp: run_inv_def stops_done_def)
  show ?thesis
  proof (cases "k < 5")
    case True
    then show ?thesis using Stopping by (auto intro: owed_step.stops)
  next
    case False
    with k have k5: "k = 5" by simp
    show ?thesis
    proof (cases "rn_running s")
      case Nil
      then show ?thesis using Stopping k5 by (auto intro: owed_step.returns)
    next
      case (Cons x xs)
      then have "x \<in> set (rn_running s)" by simp
      then have "owed_step s (ended x s)"
        using shut k5 cancelled
        by - (cases x; auto intro: owed_step.server_returns owed_step.sweeper_returns owed_step.child_terminates)
      then show ?thesis by blast
    qed
  qed
qed (use stop in simp)

lemma stop_persists: "run_step s s' \<Longrightarrow> rn_cancelled s \<or> rn_errs s \<noteq> [] \<Longrightarrow> rn_cancelled s' \<or> rn_errs s' \<noteq> []"
  by (induction rule: run_step.induct) (auto simp: ended_def failed_def stop_step_def)

text \<open>Every step that changes anything brings the return nearer; a first signal does so too.\<close>

definition distance :: "run_state \<Rightarrow> nat" where
  "distance s = 2 * work_left s + (if rn_cancelled s then 0 else 1)"

lemma run_step_nearer:
  assumes "run_step s s'" "run_inv s" "s' \<noteq> s" shows "distance s' < distance s"
  using run_step_decreases [OF assms(1,2)]
proof
  assume e: "s' = s\<lparr>rn_cancelled := True\<rparr>"
  with assms(3) have "\<not> rn_cancelled s" by auto
  with e show ?thesis by (simp add: distance_def work_left_def)
qed (simp add: distance_def)

lemma stop_inevitable:
  "run_inv s \<Longrightarrow> rn_cancelled s \<or> rn_errs s \<noteq> [] \<Longrightarrow> inevitably_returns s"
proof (induction "distance s" arbitrary: s rule: less_induct)
  case less
  show ?case
  proof (cases "rn_pc s = Returned")
    case False
    obtain s1 where "owed_step s s1" using stopping_owes [OF less.prems False] by blast
    then show ?thesis
      by (rule must_return)
        (use less.hyps [OF run_step_nearer run_inv_step stop_persists] less.prems in blast)
  qed (rule has_returned)
qed

section \<open>Properties\<close>

text \<open>
  C36. Reporting a failure never blocks: whatever has happened before, a subsystem that can still fail finds
  room in the error channel, so no goroutine is stuck in a send when \<open>run\<close> waits for all of them; and a server
  is in the list of failed ones at most once.
\<close>

theorem error_report_never_blocks:
  assumes "run_reaches sweeper s" "x \<in> set (rn_running s)" "x \<noteq> Sweeper"
  shows "length (rn_errs s) < errCh_capacity \<and> distinct (rn_errs s)"
proof -
  have inv: "run_inv s" using assms(1) by (rule run_inv_reaches)
  have "y \<in> {AdminSrv, MetricsSrv, SignalSrv, Sweeper, LiveKitChild}" for y by (cases y) simp_all
  then have "set (rn_errs s) \<subseteq> {AdminSrv, MetricsSrv, SignalSrv, LiveKitChild} - {x}"
    using inv assms(2) by (auto simp: run_inv_def)
  then have "card (set (rn_errs s)) \<le> card ({AdminSrv, MetricsSrv, SignalSrv, LiveKitChild} - {x})"
    by (intro card_mono) auto
  also have "\<dots> \<le> 3" using assms(3) by (cases x) simp_all
  finally have "card (set (rn_errs s)) \<le> 3" .
  then show ?thesis using inv by (simp add: run_inv_def distinct_card errCh_capacity_def)
qed

theorem error_report_never_blocks_witness:
  "length (rn_errs (failed MetricsSrv (run_start True))) < errCh_capacity"
proof -
  have "run_reaches True (failed MetricsSrv (run_start True))"
    by (rule run_reaches.step [OF run_reaches.start])
      (rule run_step.server_fails, simp_all add: run_start_def errCh_capacity_def)
  then show ?thesis
    using error_report_never_blocks [of True "failed MetricsSrv (run_start True)" AdminSrv]
    by (simp add: failed_def run_start_def)
qed

text \<open>
  Shutdown is ordered and complete: the metering client is closed only after \<open>Shutdown\<close> was called on the
  admin, the metrics and the public server in this order, and when \<open>run\<close> returns the context is cancelled, the
  client is closed and no goroutine is left.
\<close>

theorem shutdown_ordered:
  assumes "run_reaches sweeper s"
  shows "(if rn_cp_closed s then rn_shut s = [AdminSrv, MetricsSrv, SignalSrv] else True) \<and>
    (if rn_pc s = Returned then rn_cancelled s \<and> rn_cp_closed s \<and> rn_running s = [] else True)"
  using run_inv_reaches [OF assms] by (auto simp: run_inv_def stops_done_def)

text \<open>
  C23. A stop always completes: from every reachable state in which a signal has arrived or a failure is
  reported, \<open>run\<close> returns whatever further signals, failures and exits come in between. Until it has returned the
  program owes a step, every step that changes anything keeps the return inevitable, and no execution has more
  than twelve steps that are not further signals. A scheduler that lets owed steps happen is all that is needed;
  a server that is never shut down would be waited for without end. The child is taken to obey \<^verbatim>\<open>SIGTERM\<close>:
  \<^verbatim>\<open>supervise.go\<close> sets no delay after which it would be killed.
\<close>

theorem stop_completes:
  assumes "run_reaches sweeper s" "rn_cancelled s \<or> rn_errs s \<noteq> []"
  shows "inevitably_returns s \<and> work_left s \<le> 12 \<and>
    (\<forall>s'. run_step s s' \<longrightarrow> s' = s\<lparr>rn_cancelled := True\<rparr> \<or> work_left s' < work_left s)"
proof (intro conjI allI impI)
  have inv: "run_inv s" using assms(1) by (rule run_inv_reaches)
  show "inevitably_returns s" using inv assms(2) by (rule stop_inevitable)
  have "set (rn_running s) \<subseteq> {AdminSrv, MetricsSrv, SignalSrv, Sweeper, LiveKitChild}"
    using subsystem.exhaust by blast
  then have "length (rn_running s) \<le> 5"
    using inv card_mono [of "{AdminSrv, MetricsSrv, SignalSrv, Sweeper, LiveKitChild}" "set (rn_running s)"]
    by (simp add: run_inv_def distinct_card)
  then show "work_left s \<le> 12" by (auto simp: work_left_def split: main_pc.split)
  show "s' = s\<lparr>rn_cancelled := True\<rparr> \<or> work_left s' < work_left s" if "run_step s s'" for s'
    using run_step_decreases [OF that inv] .
qed

theorem stop_completes_witness:
  "inevitably_returns ((run_start False)\<lparr>rn_cancelled := True\<rparr>)"
  using stop_completes [of False "(run_start False)\<lparr>rn_cancelled := True\<rparr>"]
    run_reaches.step [OF run_reaches.start run_step.interrupt, of False] by simp

theorem shutdown_ordered_witness: "rn_cp_closed (run_start True) = False"
  using shutdown_ordered [OF run_reaches.start [of True]] by (simp add: run_start_def)

text \<open>
  A child that exits cleanly goes unnoticed: after \<open>livekit-server\<close> ends with status zero all other
  subsystems keep running, nothing is reported, and the main goroutine still waits and cannot move on its own.
\<close>

theorem clean_child_exit_unnoticed:
  "\<exists>s. run_reaches sweeper s \<and> LiveKitChild \<notin> set (rn_running s) \<and>
     rn_running s = [AdminSrv, MetricsSrv, SignalSrv] @ (if sweeper then [Sweeper] else []) \<and>
     rn_errs s = [] \<and> \<not> rn_cancelled s \<and> rn_pc s = Waiting"
proof (intro exI conjI)
  show "run_reaches sweeper (ended LiveKitChild (run_start sweeper))"
    by (rule run_reaches.step [OF run_reaches.start]) (rule run_step.child_ends, simp add: run_start_def)
qed (simp_all add: ended_def run_start_def)

end
