(* ===== verification/Go_Sha256.thy ===== *)
theory Go_Sha256
  imports Go_Std
begin

text \<open>
  \<^verbatim>\<open>sha256.Sum256\<close> (FIPS 180-4) on byte strings and \<^verbatim>\<open>hex.EncodeToString\<close>, which the key cache
  uses to name its entries: padding to 64-byte blocks, the message schedule, the compression function
  and the big-endian digest.
\<close>

unbundle bit_operations_syntax

type_synonym w32 = "32 word"

definition rotr :: "nat \<Rightarrow> w32 \<Rightarrow> w32" where
  "rotr n x = drop_bit n x OR push_bit (32 - n) x"

definition sha_k :: "w32 list" where
  "sha_k =
    [1116352408, 1899447441, 3049323471, 3921009573, 961987163, 1508970993, 2453635748, 2870763221,
     3624381080, 310598401, 607225278, 1426881987, 1925078388, 2162078206, 2614888103, 3248222580,
     3835390401, 4022224774, 264347078, 604807628, 770255983, 1249150122, 1555081692, 1996064986,
     2554220882, 2821834349, 2952996808, 3210313671, 3336571891, 3584528711, 113926993, 338241895,
     666307205, 773529912, 1294757372, 1396182291, 1695183700, 1986661051, 2177026350, 2456956037,
     2730485921, 2820302411, 3259730800, 3345764771, 3516065817, 3600352804, 4094571909, 275423344,
     430227734, 506948616, 659060556, 883997877, 958139571, 1322822218, 1537002063, 1747873779,
     1955562222, 2024104815, 2227730452, 2361852424, 2428436474, 2756734187, 3204031479, 3329325298]"

definition sha_h0 :: "w32 list" where
  "sha_h0 =
    [1779033703, 3144134277, 1013904242, 2773480762, 1359893119, 2600822924, 528734635, 1541459225]"

text \<open>Big-endian words of a byte string and the bytes of a word.\<close>

definition word_of_bytes :: "string \<Rightarrow> w32" where
  "word_of_bytes bs = foldl (\<lambda>a b. push_bit 8 a OR of_char b) 0 bs"

definition bytes_of_word :: "w32 \<Rightarrow> string" where
  "bytes_of_word x = map (\<lambda>n. char_of (uint (drop_bit n x) mod 256)) [24, 16, 8, 0]"

function chunks :: "nat \<Rightarrow> 'a list \<Rightarrow> 'a list list" where
  "chunks n xs = (if xs = [] \<or> n = 0 then [] else take n xs # chunks n (drop n xs))"
  by pat_completeness auto
termination by (relation "measure (\<lambda>(n, xs). length xs)") auto

declare chunks.simps [simp del]

text \<open>Padding: one bit, zeros up to 56 bytes modulo 64, the length in bits in eight bytes.\<close>

definition sha_pad :: "string \<Rightarrow> string" where
  "sha_pad s =
     (let n = length s; z = (119 - n mod 64) mod 64
      in s @ [char_of (0x80::int)] @ replicate z (char_of (0::int)) @
         map (\<lambda>k. char_of (8 * int n div 256 ^ k mod 256)) [7, 6, 5, 4, 3, 2, 1, 0])"

text \<open>The schedule, newest word first.\<close>

definition schedule_next :: "w32 list \<Rightarrow> w32 list" where
  "schedule_next w =
     (let x = w ! 1; y = w ! 14;
          s1 = rotr 17 x XOR rotr 19 x XOR drop_bit 10 x;
          s0 = rotr 7 y XOR rotr 18 y XOR drop_bit 3 y
      in (s1 + w ! 6 + s0 + w ! 15) # w)"

definition sha_schedule :: "string \<Rightarrow> w32 list" where
  "sha_schedule block = rev ((schedule_next ^^ 48) (rev (map word_of_bytes (chunks 4 block))))"

fun sha_round :: "w32 list \<Rightarrow> w32 \<times> w32 \<Rightarrow> w32 list" where
  "sha_round [a, b, c, d, e, f, g, h] (k, w) =
     (let t1 = h + (rotr 6 e XOR rotr 11 e XOR rotr 25 e) + ((e AND f) XOR (NOT e AND g)) + k + w;
          t2 = (rotr 2 a XOR rotr 13 a XOR rotr 22 a) + ((a AND b) XOR (a AND c) XOR (b AND c))
      in [t1 + t2, a, b, c, d + t1, e, f, g])"
| "sha_round st _ = st"

definition sha_block :: "w32 list \<Rightarrow> string \<Rightarrow> w32 list" where
  "sha_block st block = map2 (+) st (foldl sha_round st (zip sha_k (sha_schedule block)))"

definition Sum256 :: "string \<Rightarrow> string" where
  "Sum256 s = concat (map bytes_of_word (foldl sha_block sha_h0 (chunks 64 (sha_pad s))))"

definition EncodeToString :: "string \<Rightarrow> string" where
  "EncodeToString s = concat (map (\<lambda>c. [hex_digit (of_char c div 16), hex_digit (of_char c mod 16)]) s)"

lemma hex_value_digit: "0 \<le> k \<Longrightarrow> k < 16 \<Longrightarrow> hex_value (hex_digit k) = Some k"
proof -
  have "list_all (\<lambda>k. hex_value (hex_digit k) = Some k) [0..15]" by code_simp
  then show "0 \<le> k \<Longrightarrow> k < 16 \<Longrightarrow> hex_value (hex_digit k) = Some k" by (simp add: list_all_iff)
qed

lemma of_char_range: "0 \<le> (of_char c :: int) \<and> (of_char c :: int) < 256"
  by (metis of_char_mod_256 pos_mod_bound pos_mod_sign zero_less_numeral)

lemma hex_byte_inject:
  assumes "hex_digit (of_char c div 16) = hex_digit (of_char d div 16)"
    and "hex_digit (of_char c mod 16) = hex_digit (of_char d mod 16)"
  shows "c = d"
proof -
  have v: "hex_value (hex_digit (of_char e div 16)) = Some (of_char e div 16)"
    "hex_value (hex_digit (of_char e mod 16)) = Some (of_char e mod 16)" for e
    using of_char_range [of e] by (intro hex_value_digit; simp; linarith)+
  have "(of_char c :: int) div 16 = of_char d div 16" "(of_char c :: int) mod 16 = of_char d mod 16"
    using arg_cong [OF assms(1), of hex_value] arg_cong [OF assms(2), of hex_value] unfolding v by simp_all
  then have "(of_char c :: int) = of_char d" by (metis div_mult_mod_eq)
  then show ?thesis by simp
qed

lemma EncodeToString_inject [simp]: "EncodeToString s = EncodeToString t \<longleftrightarrow> s = t"
proof (induction s arbitrary: t)
  case Nil
  then show ?case by (cases t) (simp_all add: EncodeToString_def)
next
  case (Cons c s)
  then show ?case
    by (cases t) (auto simp: EncodeToString_def dest: hex_byte_inject)
qed

end
