(* ===== verification/Go_Url.thy ===== *)
theory Go_Url
  imports Go_Mux
begin

text \<open>
  \<^verbatim>\<open>url.Parse\<close>, \<open>URL.Hostname\<close> and \<open>URL.String\<close> of \<^verbatim>\<open>net/url\<close> for the addresses the sources
  parse (storage endpoints and upstream addresses), the address classes of \<^verbatim>\<open>net.IP\<close>, and
  \<^verbatim>\<open>subtle.ConstantTimeCompare\<close>. The text of the errors is not modelled.
\<close>

section \<open>Escaping\<close>

datatype url_part = PartHost | PartZone | PartPath | PartUser | PartFragment

definition alphanumeric :: "char \<Rightarrow> bool" where
  "alphanumeric c \<longleftrightarrow> char_between (CHR ''a'') (CHR ''z'') c \<or> char_between (CHR ''A'') (CHR ''Z'') c \<or> is_digit c"

definition shouldEscape :: "url_part \<Rightarrow> char \<Rightarrow> bool" where
  "shouldEscape part c =
     (if alphanumeric c \<or> c \<in> set ''-_.~'' then False
      else if part = PartHost \<or> part = PartZone then c \<notin> set (CHR 0x22 # CHR 0x27 # ''!$&()*+,;=:[]<>'')
      else if c \<in> set ''$&+,/:;=?@'' then
        (if part = PartPath then c = CHR ''?''
         else if part = PartUser then c \<in> set ''@/?:'' else False)
      else \<not> (part = PartFragment \<and> c \<in> set ''!()*''))"

text \<open>The checks of \<open>unescape\<close> on each byte and escape; the decoded text is that of \<^const>\<open>unescape\<close>.\<close>

fun escapes_ok :: "url_part \<Rightarrow> string \<Rightarrow> bool" where
  "escapes_ok part [] = True"
| "escapes_ok part (c # s) =
     (if c = CHR ''%'' then
        (case s of
           a # b # s' \<Rightarrow>
             (case (hex_value a, hex_value b) of
                (Some x, Some y) \<Rightarrow>
                  \<not> (part = PartHost \<and> x < 8 \<and> (a, b) \<noteq> (CHR ''2'', CHR ''5'')) \<and>
                  \<not> (part = PartZone \<and> (a, b) \<noteq> (CHR ''2'', CHR ''5'') \<and> 16 * x + y \<noteq> 32 \<and>
                     shouldEscape PartHost (char_of (16 * x + y))) \<and> escapes_ok part s'
              | _ \<Rightarrow> False)
         | _ \<Rightarrow> False)
      else if (part = PartHost \<or> part = PartZone) \<and> (of_char c :: int) < 128 \<and> shouldEscape part c then False
      else escapes_ok part s)"

definition url_unescape :: "url_part \<Rightarrow> string \<Rightarrow> string option" where
  "url_unescape part s = (if escapes_ok part s then unescape s else None)"

definition url_escape :: "url_part \<Rightarrow> string \<Rightarrow> string" where
  "url_escape part s =
     concat (map (\<lambda>c. if shouldEscape part c
        then [CHR ''%''] @ map (\<lambda>h. if char_between (CHR ''a'') (CHR ''f'') h then char_of ((of_char h :: int) - 32) else h)
               [hex_digit (of_char c div 16), hex_digit (of_char c mod 16)]
        else [c]) s)"

section \<open>Parsing\<close>

record url =
  u_scheme :: string
  u_opaque :: string
  u_user :: "(string \<times> string option) option"
  u_host :: string
  u_path :: string
  u_raw_path :: string
  u_query :: string
  u_force_query :: bool
  u_raw_fragment :: string

definition cut :: "char \<Rightarrow> string \<Rightarrow> string \<times> string option" where
  "cut c s = (case index_of s [c] of None \<Rightarrow> (s, None) | Some i \<Rightarrow> (take i s, Some (drop (Suc i) s)))"

text \<open>\<open>getScheme\<close>: no scheme, a scheme and the rest, or an error (\<open>None\<close>).\<close>

fun scheme_loop :: "string \<Rightarrow> string \<Rightarrow> (string \<times> string) option option" where
  "scheme_loop acc [] = Some None"
| "scheme_loop acc (c # s) =
     (if char_between (CHR ''a'') (CHR ''z'') c \<or> char_between (CHR ''A'') (CHR ''Z'') c then scheme_loop (acc @ [c]) s
      else if is_digit c \<or> c \<in> set ''+-.'' then (if acc = [] then Some None else scheme_loop (acc @ [c]) s)
      else if c = CHR '':'' then (if acc = [] then None else Some (Some (acc, s)))
      else Some None)"

definition getScheme :: "string \<Rightarrow> (string \<times> string) option" where
  "getScheme s =
     (case scheme_loop [] s of
        None \<Rightarrow> None
      | Some None \<Rightarrow> Some ([], s)
      | Some (Some (sch, rest)) \<Rightarrow> Some (to_lower sch, rest))"

definition validOptionalPort :: "string \<Rightarrow> bool" where
  "validOptionalPort p \<longleftrightarrow> p = [] \<or> hd p = CHR '':'' \<and> list_all is_digit (tl p)"

text \<open>A bracketed host must be an IPv6 address, with an optional zone.\<close>

definition ipv6_literal :: "string \<Rightarrow> bool" where
  "ipv6_literal s \<longleftrightarrow>
     (case cut (CHR ''%'') s of
        (a, zone) \<Rightarrow> find (\<lambda>c. c = dot \<or> c = CHR '':'') a = Some (CHR '':'') \<and> parse_v6 a \<noteq> None \<and> zone \<noteq> Some [])"

definition parseHost :: "string \<Rightarrow> string option" where
  "parseHost host =
     (case last_index (CHR ''['') host of
        Some open' \<Rightarrow>
          (case last_index (CHR '']'') host of
             None \<Rightarrow> None
           | Some close \<Rightarrow>
               let colonPort = drop (Suc close) host;
                   hostname = drop (Suc open') (take close host);
                   name = (case index_of hostname ''%25'' of
                       None \<Rightarrow> url_unescape PartHost hostname
                     | Some z \<Rightarrow>
                         (case (url_unescape PartHost (take z hostname), url_unescape PartZone (drop z hostname)) of
                            (Some a, Some b) \<Rightarrow> Some (a @ b) | _ \<Rightarrow> None))
               in if \<not> validOptionalPort colonPort then None
                  else case name of
                    None \<Rightarrow> None
                  | Some n \<Rightarrow> if ipv6_literal n then Some (''['' @ n @ '']'' @ colonPort) else None)
      | None \<Rightarrow>
          (case index_of host '':'' of
             None \<Rightarrow> url_unescape PartHost host
           | Some i \<Rightarrow> if validOptionalPort (drop i host) then url_unescape PartHost host else None))"

definition user_byte :: "char \<Rightarrow> bool" where
  "user_byte c \<longleftrightarrow> alphanumeric c \<or> c \<in> set (CHR 0x27 # ''-._:~!$&()*+,;=%@'')"

definition parseAuthority :: "string \<Rightarrow> ((string \<times> string option) option \<times> string) option" where
  "parseAuthority a =
     (case last_index (CHR ''@'') a of
        None \<Rightarrow> map_option (Pair None) (parseHost a)
      | Some i \<Rightarrow>
          (case parseHost (drop (Suc i) a) of
             None \<Rightarrow> None
           | Some host \<Rightarrow>
               if \<not> list_all user_byte (take i a) then None
               else case cut (CHR '':'') (take i a) of
                 (name, None) \<Rightarrow> map_option (\<lambda>n. (Some (n, None), host)) (url_unescape PartUser name)
               | (name, Some pass) \<Rightarrow>
                   (case (url_unescape PartUser name, url_unescape PartUser pass) of
                      (Some n, Some p) \<Rightarrow> Some (Some (n, Some p), host)
                    | _ \<Rightarrow> None)))"

definition ctl_byte :: "char \<Rightarrow> bool" where
  "ctl_byte c \<longleftrightarrow> (of_char c :: int) < 32 \<or> (of_char c :: int) = 127"

definition parse_hier :: "string \<Rightarrow> string \<Rightarrow> string \<Rightarrow> bool \<Rightarrow> string \<Rightarrow> url option" where
  "parse_hier sch rest query force frag =
     (let mk = (\<lambda>user host path. map_option (\<lambda>p. \<lparr>u_scheme = sch, u_opaque = [], u_user = user, u_host = host,
                  u_path = p, u_raw_path = path, u_query = query, u_force_query = force, u_raw_fragment = frag\<rparr>)
                (url_unescape PartPath path))
      in if (sch \<noteq> [] \<or> \<not> has_prefix rest ''///'') \<and> has_prefix rest ''//'' then
           (case cut slash (drop 2 rest) of
              (auth, path) \<Rightarrow>
                (case parseAuthority auth of
                   None \<Rightarrow> None
                 | Some (user, host) \<Rightarrow> mk user host (case path of None \<Rightarrow> [] | Some p \<Rightarrow> slash # p)))
         else mk None [] rest)"

definition url_Parse :: "string \<Rightarrow> url option" where
  "url_Parse raw =
     (case cut (CHR ''#'') raw of
        (s, frag) \<Rightarrow>
          let frag = (case frag of None \<Rightarrow> [] | Some f \<Rightarrow> f) in
          if list_ex ctl_byte s \<or> url_unescape PartFragment frag = None then None
          else case getScheme s of
            None \<Rightarrow> None
          | Some (sch, rest) \<Rightarrow>
              (case cut (CHR ''?'') rest of
                 (rest, q) \<Rightarrow>
                   let force = (q = Some []); query = (case q of None \<Rightarrow> [] | Some q \<Rightarrow> q) in
                   if \<not> has_prefix rest ''/'' \<and> sch \<noteq> [] then
                     Some \<lparr>u_scheme = sch, u_opaque = rest, u_user = None, u_host = [], u_path = [], u_raw_path = [],
                       u_query = query, u_force_query = force, u_raw_fragment = frag\<rparr>
                   else if \<not> has_prefix rest ''/'' \<and> contains (fst (cut slash rest)) '':'' then None
                   else parse_hier sch rest query force frag))"

text \<open>\<open>Hostname\<close>: the host without port and brackets.\<close>

definition url_Hostname :: "url \<Rightarrow> string" where
  "url_Hostname u =
     (let h = u_host u;
          h = (case last_index (CHR '':'') h of
                 Some i \<Rightarrow> if validOptionalPort (drop i h) then take i h else h
               | None \<Rightarrow> h)
      in if h \<noteq> [] \<and> hd h = CHR ''['' \<and> last h = CHR '']'' then butlast (tl h) else h)"

section \<open>Printing\<close>

definition valid_encoded :: "url_part \<Rightarrow> string \<Rightarrow> bool" where
  "valid_encoded part s \<longleftrightarrow> list_all (\<lambda>c. c \<in> set (CHR 0x27 # ''!$&()*+,;=:@[]%'') \<or> \<not> shouldEscape part c) s"

text \<open>\<open>EscapedPath\<close> and \<open>EscapedFragment\<close>: the text as given when it is a valid encoding.\<close>

definition url_escaped :: "url_part \<Rightarrow> string \<Rightarrow> string" where
  "url_escaped part raw =
     (if valid_encoded part raw then raw
      else url_escape part (case unescape raw of None \<Rightarrow> [] | Some s \<Rightarrow> s))"

text \<open>\<open>String\<close> of a URL with a host, as \<open>"http://" + addr\<close> parses to.\<close>

definition url_String :: "url \<Rightarrow> string" where
  "url_String u =
     u_scheme u @ ''://'' @
     (case u_user u of
        None \<Rightarrow> []
      | Some (n, p) \<Rightarrow> url_escape PartUser n @ (case p of None \<Rightarrow> [] | Some p \<Rightarrow> '':'' @ url_escape PartUser p) @ ''@'') @
     url_escape PartHost (u_host u) @ url_escaped PartPath (u_raw_path u) @
     (if u_force_query u \<or> u_query u \<noteq> [] then ''?'' @ u_query u else []) @
     (if u_raw_fragment u = [] then [] else ''#'' @ url_escaped PartFragment (u_raw_fragment u))"

section \<open>Address classes\<close>

text \<open>On the eight groups of an address: is it an IPv4 address, and its first octets.\<close>

definition is_v4 :: "ip_addr \<Rightarrow> bool" where
  "is_v4 ip \<longleftrightarrow> take 6 ip = [0, 0, 0, 0, 0, 65535]"

definition v4_octet :: "ip_addr \<Rightarrow> nat \<Rightarrow> int" where
  "v4_octet ip i = (if even i then ip ! (6 + i div 2) div 256 else ip ! (6 + i div 2) mod 256)"

definition IsLoopback :: "ip_addr \<Rightarrow> bool" where
  "IsLoopback ip \<longleftrightarrow> (if is_v4 ip then v4_octet ip 0 = 127 else ip = [0, 0, 0, 0, 0, 0, 0, 1])"

definition IsPrivate :: "ip_addr \<Rightarrow> bool" where
  "IsPrivate ip \<longleftrightarrow>
     (if is_v4 ip then
        v4_octet ip 0 = 10 \<or> v4_octet ip 0 = 172 \<and> v4_octet ip 1 div 16 = 1 \<or>
        v4_octet ip 0 = 192 \<and> v4_octet ip 1 = 168
      else ip ! 0 div 512 = 0xfc div 2)"

definition IsLinkLocalUnicast :: "ip_addr \<Rightarrow> bool" where
  "IsLinkLocalUnicast ip \<longleftrightarrow>
     (if is_v4 ip then v4_octet ip 0 = 169 \<and> v4_octet ip 1 = 254 else ip ! 0 div 64 = 0xfe80 div 64)"

section \<open>Constant-time comparison\<close>

text \<open>\<open>subtle.ConstantTimeCompare\<close>: the bytes' differences are accumulated, none may remain.\<close>

definition ConstantTimeCompare :: "string \<Rightarrow> string \<Rightarrow> int" where
  "ConstantTimeCompare x y =
     (if length x \<noteq> length y then 0
      else if foldl (\<lambda>v (a, b). or v (xor (of_char a :: int) (of_char b))) 0 (zip x y) = 0 then 1 else 0)"

lemma int_xor_zero: "xor (x :: int) y = 0 \<longleftrightarrow> x = y"
proof
  assume "xor x y = 0"
  then have "xor x (xor x y) = x" by simp
  then show "x = y" by (simp flip: xor.assoc)
qed simp

lemma fold_or_zero:
  "foldl (\<lambda>v (a, b). or v (xor (of_char a :: int) (of_char b))) v0 ps = 0 \<longleftrightarrow> v0 = 0 \<and> list_all (\<lambda>(a, b). a = b) ps"
proof (induction ps arbitrary: v0)
  case (Cons p ps)
  obtain a b where p: "p = (a, b)" by fastforce
  have "or v0 (xor (of_char a :: int) (of_char b)) = 0 \<longleftrightarrow> v0 = 0 \<and> a = b"
    by (auto simp: or_eq_0_iff int_xor_zero)
  then show ?case using Cons by (simp add: p)
qed simp

lemma ConstantTimeCompare_eq [simp]: "ConstantTimeCompare x y = 1 \<longleftrightarrow> x = y"
proof -
  have "length x = length y \<Longrightarrow> list_all (\<lambda>(a, b). a = b) (zip x y) \<longleftrightarrow> x = y"
    by (induction x y rule: list_induct2) auto
  then show ?thesis by (auto simp: ConstantTimeCompare_def fold_or_zero)
qed

end
