(* ===== verification/Api_Key.thy ===== *)
theory Api_Key
  imports Go_Sha256 Go_Url Egress_Receiver
begin

text \<open>
  API-key introspection (\<^verbatim>\<open>internal/apikey/apikey.go\<close>): the request to the control plane and the
  in-process cache of its answers. The HTTP client is a parameter acting on its own state; the cache
  methods are atomic under the mutex and each reads the clock. The lemmas show that an answer is never
  older than the cache lifetime, that the control plane is not asked again within it, and that every
  failure is reported and remembered by nobody.
\<close>

section \<open>Configuration and results\<close>

definition VkPrefix :: string where "VkPrefix = ''vk_''"
definition ProductMeet :: string where "ProductMeet = ''meet''"
definition EnvCPBaseURL :: string where "EnvCPBaseURL = ''VULOS_CP_BASE_URL''"
definition EnvCPToken :: string where "EnvCPToken = ''VULOS_CP_TOKEN''"
definition HeaderRelayAuth :: string where "HeaderRelayAuth = ''X-Relay-Auth''"
definition cacheTTL :: duration where "cacheTTL = 60 * second"

record key_result =
  kr_valid :: bool
  kr_account :: string
  kr_scopes :: "string list"
  kr_products :: "string list"

definition zero_result :: key_result where
  "zero_result = \<lparr>kr_valid = False, kr_account = [], kr_scopes = [], kr_products = []\<rparr>"

definition HasProduct :: "string \<Rightarrow> key_result \<Rightarrow> bool" where
  "HasProduct p r = list_ex (\<lambda>x. x = p) (kr_products r)"

definition HasScope :: "string \<Rightarrow> key_result \<Rightarrow> bool" where
  "HasScope s r = list_ex (\<lambda>x. x = s) (kr_scopes r)"

record key_config =
  kc_base_url :: string
  kc_token :: string

definition FromEnv :: "(string \<Rightarrow> string) \<Rightarrow> key_config" where
  "FromEnv env = \<lparr>kc_base_url = trim_right_slashes (trim_space (env EnvCPBaseURL)),
     kc_token = trim_space (env EnvCPToken)\<rparr>"

definition Enabled :: "key_config \<Rightarrow> bool" where
  "Enabled c \<longleftrightarrow> trim_space (kc_base_url c) \<noteq> []"

section \<open>The introspector\<close>

text \<open>The cache: hashed key to a result and the time it was fetched.\<close>

record 'c introspector =
  in_cfg :: key_config
  in_cache :: "(string, key_result \<times> time) go_map"
  in_net :: 'c

definition NewIntrospectorWithClient :: "key_config \<Rightarrow> 'c \<Rightarrow> 'c introspector" where
  "NewIntrospectorWithClient cfg net = \<lparr>in_cfg = cfg, in_cache = [], in_net = net\<rparr>"

definition NewIntrospector :: "key_config \<Rightarrow> 'c \<Rightarrow> 'c introspector option" where
  "NewIntrospector cfg net = (if Enabled cfg then Some (NewIntrospectorWithClient cfg net) else None)"

definition cacheKey :: "string \<Rightarrow> string" where
  "cacheKey key = EncodeToString (Sum256 key)"

definition fromCache :: "time \<Rightarrow> string \<Rightarrow> 'c introspector \<Rightarrow> key_result option" where
  "fromCache now key c =
     (case map_of (in_cache c) (cacheKey key) of
        None \<Rightarrow> None
      | Some (res, fetched) \<Rightarrow> if cacheTTL \<le> time_sub now fetched then None else Some res)"

definition remember :: "time \<Rightarrow> string \<Rightarrow> key_result \<Rightarrow> 'c introspector \<Rightarrow> 'c introspector" where
  "remember now key res c = c\<lparr>in_cache := put (cacheKey key) (res, now) (in_cache c)\<rparr>"

text \<open>A client returns the response, or \<open>None\<close> for a transport error.\<close>

type_synonym 'c key_client = "out_request \<Rightarrow> 'c \<Rightarrow> http_response option \<times> 'c"

definition introspect_request :: "key_config \<Rightarrow> string \<Rightarrow> out_request" where
  "introspect_request cfg key =
     \<lparr>or_method = ''POST'', or_url = kc_base_url cfg @ ''/api/keys/introspect'',
      or_header = [(''Content-Type'', ''application/json'')] @
        (if kc_token cfg = [] then [] else [(HeaderRelayAuth, kc_token cfg)]),
      or_body = json_encode (JObj [(''key'', JStr key)])\<rparr>"

definition dec_strings :: "json \<Rightarrow> string list \<Rightarrow> string list option" where
  "dec_strings = dec_slice (\<lambda>v. dec_string v [])"

definition result_fields :: "string \<Rightarrow> (json \<Rightarrow> key_result \<Rightarrow> key_result option) option" where
  "result_fields k =
     (if k = ''valid'' then Some (\<lambda>v r. map_option (\<lambda>b. r\<lparr>kr_valid := b\<rparr>) (dec_bool v (kr_valid r)))
      else if k = ''account'' then Some (\<lambda>v r. map_option (\<lambda>s. r\<lparr>kr_account := s\<rparr>) (dec_string v (kr_account r)))
      else if k = ''scopes'' then Some (\<lambda>v r. map_option (\<lambda>s. r\<lparr>kr_scopes := s\<rparr>) (dec_strings v (kr_scopes r)))
      else if k = ''products'' then Some (\<lambda>v r. map_option (\<lambda>s. r\<lparr>kr_products := s\<rparr>) (dec_strings v (kr_products r)))
      else None)"

text \<open>\<open>Decoder.Decode\<close> reads the first value of the body.\<close>

definition decode_result :: "string \<Rightarrow> key_result option" where
  "decode_result body =
     (case json_value (2 * length body + 2) body of
        None \<Rightarrow> None
      | Some (v, _) \<Rightarrow> dec_struct result_fields v zero_result)"

datatype introspect_error = IntrospectBadURL | IntrospectTransport | IntrospectStatus int | IntrospectBadBody

text \<open>
  The clock is read by the cache lookup (\<open>now\<close>) and, after the answer, by the cache update (\<open>now'\<close>).
\<close>

definition Introspect ::
  "'c key_client \<Rightarrow> time \<Rightarrow> time \<Rightarrow> string \<Rightarrow> 'c introspector \<Rightarrow> (introspect_error + key_result) \<times> 'c introspector" where
  "Introspect client now now' key c =
     (case fromCache now key c of
        Some r \<Rightarrow> (Inr r, c)
      | None \<Rightarrow>
          let req = introspect_request (in_cfg c) key in
          if url_Parse (or_url req) = None then (Inl IntrospectBadURL, c)
          else case client req (in_net c) of
            (None, net) \<Rightarrow> (Inl IntrospectTransport, c\<lparr>in_net := net\<rparr>)
          | (Some rsp, net) \<Rightarrow>
              let c = c\<lparr>in_net := net\<rparr> in
              if rsp_status rsp \<noteq> StatusOK then (Inl (IntrospectStatus (rsp_status rsp)), c)
              else (case decode_result (rsp_body rsp) of
                  None \<Rightarrow> (Inl IntrospectBadBody, c)
                | Some res \<Rightarrow> (Inr res, remember now' key res c)))"

section \<open>Histories\<close>

text \<open>
  A call with its clock readings, and the history of the answers fetched from the control plane: the
  key, the time of the answer and the result.
\<close>

record key_call =
  kq_key :: string
  kq_now :: time
  kq_now' :: time

type_synonym fetches = "(string \<times> time \<times> key_result) list"

definition introspect_step ::
  "'c key_client \<Rightarrow> key_call \<Rightarrow> 'c introspector \<times> fetches \<Rightarrow> 'c introspector \<times> fetches" where
  "introspect_step client q s =
     (let (c, h) = s; (r, c') = Introspect client (kq_now q) (kq_now' q) (kq_key q) c
      in (c', case r of
            Inl _ \<Rightarrow> h
          | Inr res \<Rightarrow> if fromCache (kq_now q) (kq_key q) c = None then (kq_key q, kq_now' q, res) # h else h))"

definition introspect_run ::
  "'c key_client \<Rightarrow> key_call list \<Rightarrow> 'c introspector \<times> fetches \<Rightarrow> 'c introspector \<times> fetches" where
  "introspect_run client qs s = fold (introspect_step client) qs s"

text \<open>Every cache entry is the newest fetch of a key with that hash.\<close>

definition newest_fetch :: "string \<Rightarrow> fetches \<Rightarrow> (key_result \<times> time) option" where
  "newest_fetch ck h =
     map_option (\<lambda>(k, t, res). (res, t)) (find (\<lambda>(k, t, res). cacheKey k = ck) h)"

definition cache_inv :: "'c introspector \<times> fetches \<Rightarrow> bool" where
  "cache_inv s \<longleftrightarrow> (\<forall>ck. map_of (in_cache (fst s)) ck = newest_fetch ck (snd s))"

lemma cache_inv_new [keeps]: "cache_inv (NewIntrospectorWithClient cfg net, [])"
  by (simp add: cache_inv_def NewIntrospectorWithClient_def newest_fetch_def)

lemma newest_fetch_Cons [simp]:
  "newest_fetch ck ((k, t, res) # h) = (if cacheKey k = ck then Some (res, t) else newest_fetch ck h)"
  by (simp add: newest_fetch_def)

text \<open>What one call does, case by case.\<close>

lemma Introspect_cases:
  obtains r where "fromCache now key c = Some r" "Introspect client now now' key c = (Inr r, c)"
  | e net where "fromCache now key c = None" "Introspect client now now' key c = (Inl e, c\<lparr>in_net := net\<rparr>)"
  | rsp net res where "fromCache now key c = None"
      "client (introspect_request (in_cfg c) key) (in_net c) = (Some rsp, net)" "rsp_status rsp = StatusOK"
      "decode_result (rsp_body rsp) = Some res"
      "Introspect client now now' key c = (Inr res, remember now' key res (c\<lparr>in_net := net\<rparr>))"
proof (cases "fromCache now key c")
  case None
  let ?req = "introspect_request (in_cfg c) key"
  obtain a net where a: "client ?req (in_net c) = (a, net)" by fastforce
  show thesis
  proof (cases "url_Parse (or_url ?req) = None")
    case True
    then show thesis using None by (intro that(2) [of IntrospectBadURL "in_net c"]) (simp_all add: Introspect_def)
  next
    case False
    show thesis
    proof (cases "\<exists>rsp res. a = Some rsp \<and> rsp_status rsp = StatusOK \<and> decode_result (rsp_body rsp) = Some res")
      case True
      then obtain rsp res where r: "a = Some rsp" "rsp_status rsp = StatusOK" "decode_result (rsp_body rsp) = Some res"
        by blast
      show thesis using None a r False
        by (intro that(3) [of rsp net res]) (simp_all add: Introspect_def Let_def)
    next
      case bad: False
      have "\<exists>e. Introspect client now now' key c = (Inl e, c\<lparr>in_net := net\<rparr>)"
        using None False a bad by (auto simp: Introspect_def Let_def split: option.split)
      then show thesis using None that(2) by blast
    qed
  qed
qed (use that(1) in \<open>simp add: Introspect_def\<close>)

lemma in_cache_remember [simp]: "in_cache (remember t k res c) = put (cacheKey k) (res, t) (in_cache c)"
  by (simp add: remember_def)

lemma fromCache_net [simp]: "fromCache now key (c\<lparr>in_net := net\<rparr>) = fromCache now key c"
  by (simp add: fromCache_def)

lemma cache_inv_step [keeps]: "cache_inv s \<Longrightarrow> cache_inv (introspect_step client q s)"
proof -
  obtain c h where s: "s = (c, h)" by fastforce
  assume "cache_inv s"
  then show ?thesis
    unfolding s
    by (cases rule: Introspect_cases [of "kq_now q" "kq_key q" c client "kq_now' q"])
      (auto simp: introspect_step_def cache_inv_def)
qed

lemma cache_inv_run [keeps]: "cache_inv s \<Longrightarrow> cache_inv (introspect_run client qs s)"
  unfolding introspect_run_def by (induction qs arbitrary: s) (simp_all add: cache_inv_step)

text \<open>Fetches of one key hash lie apart by the cache lifetime while the clock does not run backwards.\<close>

fun spaced :: "fetches \<Rightarrow> bool" where
  "spaced [] = True"
| "spaced ((k, t, res) # h) =
     ((case newest_fetch (cacheKey k) h of None \<Rightarrow> True | Some (_, t') \<Rightarrow> cacheTTL \<le> time_sub t t') \<and> spaced h)"

lemma spaced_step:
  assumes "cache_inv (c, h)" "spaced h" "kq_now q \<le> kq_now' q"
  shows "spaced (snd (introspect_step client q (c, h)))"
proof (cases rule: Introspect_cases [of "kq_now q" "kq_key q" c client "kq_now' q"])
  case (3 rsp net res)
  have "map_of (in_cache c) (cacheKey (kq_key q)) = newest_fetch (cacheKey (kq_key q)) h"
    using assms(1) by (simp add: cache_inv_def)
  with 3(1) have "case newest_fetch (cacheKey (kq_key q)) h of None \<Rightarrow> True | Some (_, t') \<Rightarrow> cacheTTL \<le> time_sub (kq_now q) t'"
    by (auto simp: fromCache_def split: option.splits if_splits)
  then have "case newest_fetch (cacheKey (kq_key q)) h of None \<Rightarrow> True | Some (_, t') \<Rightarrow> cacheTTL \<le> time_sub (kq_now' q) t'"
    using time_sub_mono [OF assms(3)] by (auto split: option.splits intro: order_trans)
  then show ?thesis using 3 assms(2) by (simp add: introspect_step_def)
qed (use assms(2) in \<open>simp_all add: introspect_step_def\<close>)

lemma spaced_run:
  assumes "cache_inv s" "spaced (snd s)" "list_all (\<lambda>q. kq_now q \<le> kq_now' q) qs"
  shows "spaced (snd (introspect_run client qs s))"
  using assms unfolding introspect_run_def
proof (induction qs arbitrary: s)
  case (Cons q qs)
  obtain c h where s: "s = (c, h)" by fastforce
  show ?case
    using Cons.IH [OF cache_inv_step [OF Cons.prems(1)], of client q] Cons.prems spaced_step [of c h q client]
    by (simp add: s)
qed simp

lemma ttl_sub: "cacheTTL \<le> time_sub a b \<longleftrightarrow> b + cacheTTL \<le> a"
  by (auto simp: time_sub_def cacheTTL_def duration_defs min_int64_def max_int64_def)

lemma newest_fetch_in: "(k, t, res) \<in> set h \<Longrightarrow> newest_fetch (cacheKey k) h \<noteq> None"
  by (induction h) auto

lemma newest_fetch_SomeD: "newest_fetch ck h = Some (res, t) \<Longrightarrow> \<exists>k. (k, t, res) \<in> set h \<and> cacheKey k = ck"
  by (induction h) (auto simp: newest_fetch_def split: if_splits prod.splits)

lemma spaced_newest:
  assumes "spaced h" "(k, t, res) \<in> set h" "cacheKey k = ck" "newest_fetch ck h = Some (res', t')"
  shows "t = t' \<or> t + cacheTTL \<le> t'"
  using assms
proof (induction h arbitrary: res' t')
  case (Cons x h)
  obtain j s r where x: "x = (j, s, r)" by (cases x)
  show ?case
  proof (cases "cacheKey j = ck")
    case False
    then show ?thesis using Cons x by auto
  next
    case True
    then have s: "t' = s" using Cons.prems(4) by (simp add: x)
    show ?thesis
    proof (cases "(k, t, res) \<in> set h")
      case False
      then show ?thesis using Cons.prems(2) s by (simp add: x)
    next
      case in_h: True
      then have "newest_fetch ck h \<noteq> None"
        using newest_fetch_in [OF in_h] Cons.prems(3) by simp
      then obtain r2 t2 where n: "newest_fetch ck h = Some (r2, t2)" by auto
      have "t2 + cacheTTL \<le> s" using Cons.prems(1) n True by (simp add: x ttl_sub)
      moreover have "t = t2 \<or> t + cacheTTL \<le> t2"
        using Cons.IH [OF _ in_h Cons.prems(3) n] Cons.prems(1) by (simp add: x)
      moreover have "0 < cacheTTL" by (simp add: cacheTTL_def duration_defs)
      ultimately show ?thesis using s by auto
    qed
  qed
qed simp

definition fetches_apart :: "string \<times> time \<times> key_result \<Rightarrow> string \<times> time \<times> key_result \<Rightarrow> bool" where
  "fetches_apart x y \<longleftrightarrow> cacheKey (fst x) \<noteq> cacheKey (fst y) \<or> fst (snd y) + cacheTTL \<le> fst (snd x)"

lemma spaced_sorted: "spaced h \<Longrightarrow> sorted_wrt fetches_apart h"
proof (induction h)
  case (Cons x h)
  obtain k t res where x: "x = (k, t, res)" by (cases x)
  have "fetches_apart x y" if "y \<in> set h" for y
  proof (cases "cacheKey k = cacheKey (fst y)")
    case True
    obtain j s r where y: "y = (j, s, r)" by (cases y)
    have "newest_fetch (cacheKey j) h \<noteq> None" using newest_fetch_in that y by blast
    then obtain r2 t2 where n: "newest_fetch (cacheKey j) h = Some (r2, t2)" by auto
    have "s = t2 \<or> s + cacheTTL \<le> t2" using spaced_newest [OF _ _ refl n] that y Cons.prems by (simp add: x)
    moreover have "t2 + cacheTTL \<le> t" using Cons.prems True n y by (simp add: x ttl_sub)
    moreover have "0 < cacheTTL" by (simp add: cacheTTL_def duration_defs)
    ultimately show ?thesis by (auto simp: fetches_apart_def x y)
  qed (simp add: fetches_apart_def x)
  then show ?case using Cons by (simp add: x)
qed simp

lemma run_cfg [simp]: "in_cfg (fst (introspect_run client qs s)) = in_cfg (fst s)"
proof -
  have "in_cfg (snd (Introspect client now now' key c)) = in_cfg c" for now now' key and c :: "'a introspector"
    by (cases rule: Introspect_cases [of now key c client now']) (simp_all add: remember_def)
  then have "in_cfg (fst (introspect_step client q s)) = in_cfg (fst s)" for q s
    by (simp add: introspect_step_def case_prod_beta Let_def)
  then show ?thesis unfolding introspect_run_def by (induction qs arbitrary: s) simp_all
qed

section \<open>Properties\<close>

text \<open>
  C20. An answer is fresh and its own: after any calls, whatever the control plane answered, a result
  returned for a key was either fetched by this very call or fetched less than the cache lifetime ago for
  a key with the same hash; and a failed call changes nothing in the cache.
\<close>

theorem introspection_fresh:
  "case introspect_run client qs (NewIntrospectorWithClient cfg net, []) of (c, h) \<Rightarrow>
     (case Introspect client now now' key c of
        (Inl _, c') \<Rightarrow> in_cache c' = in_cache c
      | (Inr res, c') \<Rightarrow>
          (\<exists>k t. (k, t, res) \<in> set h \<and> cacheKey k = cacheKey key \<and> time_sub now t < cacheTTL) \<or>
          (\<exists>rsp net'. client (introspect_request cfg key) (in_net c) = (Some rsp, net') \<and>
             rsp_status rsp = StatusOK \<and> decode_result (rsp_body rsp) = Some res))"
proof -
  obtain c h where run: "introspect_run client qs (NewIntrospectorWithClient cfg net, []) = (c, h)" by fastforce
  have inv: "cache_inv (c, h)" using cache_inv_run [OF cache_inv_new, of client qs cfg net] by (simp add: run)
  have cfg: "in_cfg c = cfg"
    using run_cfg [of client qs "(NewIntrospectorWithClient cfg net, [])"] unfolding run
    by (simp add: NewIntrospectorWithClient_def)
  show ?thesis
  proof (cases rule: Introspect_cases [of now key c client now'])
    case (1 r)
    then obtain t where t: "newest_fetch (cacheKey key) h = Some (r, t)" "time_sub now t < cacheTTL"
      using inv by (auto simp: fromCache_def cache_inv_def split: option.splits if_splits)
    then have "\<exists>k. (k, t, r) \<in> set h \<and> cacheKey k = cacheKey key"
      using newest_fetch_SomeD by blast
    then show ?thesis using 1 t(2) by (auto simp: run)
  qed (use cfg in \<open>auto simp: run\<close>)
qed

text \<open>
  The control plane is spared: in any sequence of calls, successful fetches for the same key hash are
  at least the cache lifetime of 60 seconds apart, provided that within each call the clock does not run
  backwards.
\<close>

theorem introspection_at_most_once_per_ttl:
  assumes "list_all (\<lambda>q. kq_now q \<le> kq_now' q) qs"
  shows "sorted_wrt fetches_apart (snd (introspect_run client qs (NewIntrospectorWithClient cfg net, [])))"
  using spaced_run [OF cache_inv_new _ assms] by (intro spaced_sorted) simp

definition sample_key_client :: "nat key_client" where
  "sample_key_client req n = (Some \<lparr>rsp_status = 200, rsp_header = [], rsp_body = ''{}''\<rparr>, Suc n)"

definition sample_key_config :: key_config where
  "sample_key_config = \<lparr>kc_base_url = ''https://cp'', kc_token = []\<rparr>"

theorem introspection_at_most_once_per_ttl_witness:
  "sorted_wrt fetches_apart (snd (introspect_run sample_key_client
     [\<lparr>kq_key = ''vk_1'', kq_now = 0, kq_now' = 1\<rparr>, \<lparr>kq_key = ''vk_1'', kq_now = 70 * second, kq_now' = 71 * second\<rparr>]
     (NewIntrospectorWithClient sample_key_config 0, [])))"
  by (rule introspection_at_most_once_per_ttl) (simp add: duration_defs)

text \<open>
  The cache only grows: no call removes an entry, so the memory it takes is bounded only by the number
  of different keys that were ever presented and answered.
\<close>

theorem key_cache_never_shrinks:
  "keys (in_cache c) \<subseteq> keys (in_cache (snd (Introspect client now now' key c)))"
  by (cases rule: Introspect_cases [of now key c client now']) auto

end
