(* ===== verification/Room_Service.thy ===== *)
theory Room_Service
  imports Tenant_Gate Go_Http
begin

text \<open>
  The room services (\<^verbatim>\<open>internal/wrap/rooms.go\<close>, \<^verbatim>\<open>internal/wrap/rooms_livekit.go\<close>): the in-memory
  service with its contract \<open>room_store\<close>, and the client of the LiveKit child with its per-call
  admin token and circuit breaker. The JWT, Twirp and RoomService libraries are the parameter record
  \<open>lk_lib\<close>. The breaker is related to an abstract machine with the states closed, open and half open,
  and the load it lets through to a failing child is bounded.
\<close>

section \<open>The in-memory service\<close>

type_synonym memory_rooms = "(string, int) go_map"

record room_participants =
  rp_name :: string
  rp_num_participants :: int

definition NewMemoryRoomService :: memory_rooms where
  "NewMemoryRoomService = []"

definition CreateRoom :: "string \<Rightarrow> memory_rooms \<Rightarrow> memory_rooms" where
  "CreateRoom roomID m = (if map_of m roomID = None then put roomID 0 m else m)"

definition SetParticipants :: "string \<Rightarrow> int \<Rightarrow> memory_rooms \<Rightarrow> memory_rooms" where
  "SetParticipants roomID n m = put roomID n m"

definition mem_ListRoomParticipants :: "memory_rooms \<Rightarrow> room_participants list" where
  "mem_ListRoomParticipants m = map (\<lambda>(r, n). \<lparr>rp_name = r, rp_num_participants = n\<rparr>) m"

definition mem_ListRoomIDs :: "memory_rooms \<Rightarrow> string list" where
  "mem_ListRoomIDs m = map fst m"

definition mem_DeleteRoom :: "string \<Rightarrow> memory_rooms \<Rightarrow> memory_rooms" where
  "mem_DeleteRoom roomID m = remove_key roomID m"

text \<open>What the admin surface relies on: listing without duplicates, idempotent delete of one room.\<close>

locale room_store =
  fixes invar :: "'s \<Rightarrow> bool" and list_ids :: "'s \<Rightarrow> string list" and delete_room :: "string \<Rightarrow> 's \<Rightarrow> 's"
  assumes list_distinct: "invar s \<Longrightarrow> distinct (list_ids s)"
    and delete_invar: "invar s \<Longrightarrow> invar (delete_room r s)"
    and delete_list: "invar s \<Longrightarrow> set (list_ids (delete_room r s)) = set (list_ids s) - {r}"
begin

lemma delete_idem: "invar s \<Longrightarrow> set (list_ids (delete_room r (delete_room r s))) = set (list_ids (delete_room r s))"
  by (simp add: delete_list delete_invar)

lemma delete_commute:
  "invar s \<Longrightarrow> set (list_ids (delete_room r (delete_room q s))) = set (list_ids (delete_room q (delete_room r s)))"
  by (auto simp: delete_list delete_invar)

lemma delete_length: "invar s \<Longrightarrow> r \<in> set (list_ids s) \<Longrightarrow>
    length (list_ids (delete_room r s)) = length (list_ids s) - 1"
  by (simp add: list_distinct delete_invar delete_list card_Diff_singleton flip: distinct_card)

end

interpretation memrooms: room_store go_map mem_ListRoomIDs mem_DeleteRoom
  by unfold_locales (simp_all add: mem_ListRoomIDs_def mem_DeleteRoom_def)

section \<open>The circuit breaker\<close>

text \<open>\<open>openUntil\<close> is \<open>None\<close> for the zero \<open>time.Time\<close>.\<close>

record breaker =
  br_consec_fail :: int
  br_open_until :: "time option"
  br_half_open :: bool

record lk_config =
  lkc_signaling_addr :: string
  lkc_api_key :: string
  lkc_api_secret :: string
  lkc_call_timeout :: duration
  lkc_breaker_cooldown :: duration
  lkc_breaker_threshold :: int
  lkc_http_scheme :: string

text \<open>\<open>True\<close> is nil, \<open>False\<close> is \<open>ErrRoomServiceBreakerOpen\<close>.\<close>

definition preCall :: "time \<Rightarrow> breaker \<Rightarrow> bool \<times> breaker" where
  "preCall now b =
     (case br_open_until b of
        None \<Rightarrow> (True, b)
      | Some u \<Rightarrow>
          if now < u then (False, b)
          else if br_half_open b then (False, b)
          else (True, b\<lparr>br_half_open := True\<rparr>))"

definition postCall :: "lk_config \<Rightarrow> time \<Rightarrow> bool \<Rightarrow> breaker \<Rightarrow> breaker" where
  "postCall cfg now ok b =
     (let b = b\<lparr>br_half_open := False\<rparr>
      in if ok then b\<lparr>br_consec_fail := 0, br_open_until := None\<rparr>
         else
           let b = b\<lparr>br_consec_fail := br_consec_fail b + 1\<rparr>
           in if lkc_breaker_threshold cfg \<le> br_consec_fail b
              then b\<lparr>br_open_until := Some (time_add now (lkc_breaker_cooldown cfg))\<rparr> else b)"

definition BreakerOpen :: "time \<Rightarrow> breaker \<Rightarrow> bool" where
  "BreakerOpen now b \<longleftrightarrow> (case br_open_until b of None \<Rightarrow> False | Some u \<Rightarrow> now < u)"

definition new_breaker :: breaker where
  "new_breaker = \<lparr>br_consec_fail = 0, br_open_until = None, br_half_open = False\<rparr>"

section \<open>The LiveKit client\<close>

record room_grant =
  rg_room_list :: bool
  rg_room_admin :: bool
  rg_room :: string

record lk_room =
  lkr_name :: string
  lkr_num_participants :: int

record participant_meta =
  pm_identity :: string
  pm_name :: string
  pm_state :: string
  pm_joined_at :: int
  pm_is_publisher :: bool

text \<open>
  The libraries: minting (key, secret, grant, validity), attaching the header to the call context,
  and the four RPCs; each may fail with an error text.
\<close>

record 'ctx lk_lib =
  mint_jwt :: "string \<Rightarrow> string \<Rightarrow> room_grant \<Rightarrow> duration \<Rightarrow> string + string"
  attach_header :: "(string, string list) go_map \<Rightarrow> string + 'ctx"
  rpc_list_rooms :: "'ctx \<Rightarrow> string + lk_room list"
  rpc_list_participants :: "'ctx \<Rightarrow> string \<Rightarrow> string + participant_meta list"
  rpc_send_data :: "'ctx \<Rightarrow> string \<Rightarrow> string \<Rightarrow> string option \<Rightarrow> string + unit"
  rpc_delete_room :: "'ctx \<Rightarrow> string \<Rightarrow> string + unit"

datatype room_service_error =
    ErrRoomServiceBreakerOpen
  | EmptyRoomID
  | MintError string
  | RPCError string

datatype room_service_config_error = MissingAPIKeySecret | MissingSignalingAddr

record lk_service =
  lk_cfg :: lk_config
  lk_base_url :: string
  lk_breaker :: breaker
  lk_requests_total :: u64

definition hostFromSignalingAddr :: "string \<Rightarrow> string" where
  "hostFromSignalingAddr addr =
     (if addr = [] then ''127.0.0.1:7880''
      else if hd addr = CHR '':'' then ''127.0.0.1'' @ addr
      else
        let wildcard = ''0.0.0.0''
        in if length wildcard < length addr \<and> take (length wildcard) addr = wildcard
           then ''127.0.0.1'' @ drop (length wildcard) addr
           else addr)"

definition NewLiveKitRoomService :: "lk_config \<Rightarrow> room_service_config_error + lk_service" where
  "NewLiveKitRoomService cfg =
     (if lkc_api_key cfg = [] \<or> lkc_api_secret cfg = [] then Inl MissingAPIKeySecret
      else if lkc_signaling_addr cfg = [] then Inl MissingSignalingAddr
      else
        let cfg = (if lkc_call_timeout cfg = 0 then cfg\<lparr>lkc_call_timeout := 5 * second\<rparr> else cfg);
            cfg = (if lkc_breaker_cooldown cfg = 0 then cfg\<lparr>lkc_breaker_cooldown := 30 * second\<rparr> else cfg);
            cfg = (if lkc_breaker_threshold cfg = 0 then cfg\<lparr>lkc_breaker_threshold := 3\<rparr> else cfg);
            cfg = (if lkc_http_scheme cfg = [] then cfg\<lparr>lkc_http_scheme := ''http''\<rparr> else cfg)
        in Inr \<lparr>lk_cfg = cfg,
               lk_base_url = lkc_http_scheme cfg @ ''://'' @ hostFromSignalingAddr (lkc_signaling_addr cfg),
               lk_breaker = new_breaker, lk_requests_total = 0\<rparr>)"

definition authCtx :: "'ctx lk_lib \<Rightarrow> lk_config \<Rightarrow> room_grant \<Rightarrow> room_service_error + 'ctx" where
  "authCtx L cfg grant =
     (case mint_jwt L (lkc_api_key cfg) (lkc_api_secret cfg) grant (2 * minute) of
        Inl e \<Rightarrow> Inl (MintError e)
      | Inr tok \<Rightarrow>
          (case attach_header L [(''Authorization'', [''Bearer '' @ tok])] of
             Inl e \<Rightarrow> Inl (MintError e)
           | Inr ctx \<Rightarrow> Inr ctx))"

text \<open>
  The body shared by the wrappers: count, ask the breaker (at \<open>t0\<close>), mint, call, tell the breaker
  (at \<open>t1\<close>).
\<close>

definition guarded_call ::
  "'ctx lk_lib \<Rightarrow> room_grant \<Rightarrow> ('ctx \<Rightarrow> string + 'a) \<Rightarrow> time \<Rightarrow> time \<Rightarrow> lk_service \<Rightarrow>
     (room_service_error + 'a) \<times> lk_service" where
  "guarded_call L grant rpc t0 t1 l =
     (let l = l\<lparr>lk_requests_total := lk_requests_total l + 1\<rparr>;
          (ok, b) = preCall t0 (lk_breaker l);
          l = l\<lparr>lk_breaker := b\<rparr>
      in if \<not> ok then (Inl ErrRoomServiceBreakerOpen, l)
         else case authCtx L (lk_cfg l) grant of
           Inl e \<Rightarrow> (Inl e, l\<lparr>lk_breaker := postCall (lk_cfg l) t1 False (lk_breaker l)\<rparr>)
         | Inr ctx \<Rightarrow>
             (case rpc ctx of
                Inl e \<Rightarrow> (Inl (RPCError e), l\<lparr>lk_breaker := postCall (lk_cfg l) t1 False (lk_breaker l)\<rparr>)
              | Inr a \<Rightarrow> (Inr a, l\<lparr>lk_breaker := postCall (lk_cfg l) t1 True (lk_breaker l)\<rparr>)))"

definition list_grant :: room_grant where
  "list_grant = \<lparr>rg_room_list = True, rg_room_admin = False, rg_room = []\<rparr>"

definition admin_grant :: "string \<Rightarrow> room_grant" where
  "admin_grant roomID = \<lparr>rg_room_list = False, rg_room_admin = True, rg_room = roomID\<rparr>"

definition ListRoomIDs ::
  "'ctx lk_lib \<Rightarrow> time \<Rightarrow> time \<Rightarrow> lk_service \<Rightarrow> (room_service_error + string list) \<times> lk_service" where
  "ListRoomIDs L t0 t1 l =
     (let (r, l') = guarded_call L list_grant (rpc_list_rooms L) t0 t1 l
      in (map_sum id (map lkr_name) r, l'))"

definition ListRoomParticipants ::
  "'ctx lk_lib \<Rightarrow> time \<Rightarrow> time \<Rightarrow> lk_service \<Rightarrow> (room_service_error + room_participants list) \<times> lk_service" where
  "ListRoomParticipants L t0 t1 l =
     (let (r, l') = guarded_call L list_grant (rpc_list_rooms L) t0 t1 l
      in (map_sum id (map (\<lambda>q. \<lparr>rp_name = lkr_name q, rp_num_participants = lkr_num_participants q\<rparr>)) r, l'))"

definition ListParticipants ::
  "'ctx lk_lib \<Rightarrow> string \<Rightarrow> time \<Rightarrow> time \<Rightarrow> lk_service \<Rightarrow>
     (room_service_error + participant_meta list) \<times> lk_service" where
  "ListParticipants L roomID t0 t1 l =
     (if roomID = [] then (Inl EmptyRoomID, l)
      else guarded_call L (admin_grant roomID) (\<lambda>ctx. rpc_list_participants L ctx roomID) t0 t1 l)"

definition SendData ::
  "'ctx lk_lib \<Rightarrow> string \<Rightarrow> string \<Rightarrow> string \<Rightarrow> time \<Rightarrow> time \<Rightarrow> lk_service \<Rightarrow>
     (room_service_error + unit) \<times> lk_service" where
  "SendData L roomID data topic t0 t1 l =
     (if roomID = [] then (Inl EmptyRoomID, l)
      else guarded_call L (admin_grant roomID)
        (\<lambda>ctx. rpc_send_data L ctx roomID data (if topic \<noteq> [] then Some topic else None)) t0 t1 l)"

definition DeleteRoom ::
  "'ctx lk_lib \<Rightarrow> string \<Rightarrow> time \<Rightarrow> time \<Rightarrow> lk_service \<Rightarrow> (room_service_error + unit) \<times> lk_service" where
  "DeleteRoom L roomID t0 t1 l =
     (if roomID = [] then (Inl EmptyRoomID, l)
      else guarded_call L (admin_grant roomID) (\<lambda>ctx. rpc_delete_room L ctx roomID) t0 t1 l)"

definition RequestsTotal :: "lk_service \<Rightarrow> u64" where
  "RequestsTotal l = lk_requests_total l"

section \<open>The breaker as a state machine\<close>

text \<open>
  The wrappers run concurrently: any interleaving of \<open>preCall\<close>s and \<open>postCall\<close>s is possible, so the
  breaker is studied over arbitrary event sequences. The answer of a \<open>preCall\<close> is recorded.
\<close>

datatype breaker_event = Pre time | Post time bool

fun breaker_step :: "lk_config \<Rightarrow> breaker_event \<Rightarrow> breaker \<Rightarrow> bool option \<times> breaker" where
  "breaker_step cfg (Pre t) b = (let (ok, b') = preCall t b in (Some ok, b'))"
| "breaker_step cfg (Post t ok) b = (None, postCall cfg t ok b)"

fun breaker_run :: "lk_config \<Rightarrow> breaker_event list \<Rightarrow> breaker \<Rightarrow> bool list \<times> breaker" where
  "breaker_run cfg [] b = ([], b)"
| "breaker_run cfg (e # es) b =
     (let (a, b1) = breaker_step cfg e b; (as, b2) = breaker_run cfg es b1
      in ((case a of None \<Rightarrow> as | Some x \<Rightarrow> x # as), b2))"

text \<open>The abstract machine: closed with a failure count, open until an instant, probing.\<close>

datatype breaker_state = Closed int | Open time | HalfOpen time

definition breaker_abs :: "breaker \<Rightarrow> breaker_state" where
  "breaker_abs b =
     (case br_open_until b of
        None \<Rightarrow> Closed (br_consec_fail b)
      | Some u \<Rightarrow> if br_half_open b then HalfOpen u else Open u)"

fun abs_pre :: "time \<Rightarrow> breaker_state \<Rightarrow> bool \<times> breaker_state" where
  "abs_pre t (Closed n) = (True, Closed n)"
| "abs_pre t (Open u) = (if t < u then (False, Open u) else (True, HalfOpen u))"
| "abs_pre t (HalfOpen u) = (False, HalfOpen u)"

fun abs_post :: "lk_config \<Rightarrow> time \<Rightarrow> bool \<Rightarrow> breaker_state \<Rightarrow> breaker_state" where
  "abs_post cfg t True _ = Closed 0"
| "abs_post cfg t False (Closed n) =
     (if lkc_breaker_threshold cfg \<le> n + 1 then Open (t + lkc_breaker_cooldown cfg) else Closed (n + 1))"
| "abs_post cfg t False _ = Open (t + lkc_breaker_cooldown cfg)"

definition breaker_ok :: "lk_config \<Rightarrow> breaker \<Rightarrow> bool" where
  "breaker_ok cfg b \<longleftrightarrow> 0 \<le> br_consec_fail b \<and>
     (br_open_until b \<noteq> None \<longrightarrow> lkc_breaker_threshold cfg \<le> br_consec_fail b) \<and>
     (br_half_open b \<longrightarrow> br_open_until b \<noteq> None)"

lemma breaker_ok_new [keeps]: "breaker_ok cfg new_breaker"
  by (simp add: breaker_ok_def new_breaker_def)

lemma breaker_ok_pre [keeps]: "breaker_ok cfg b \<Longrightarrow> breaker_ok cfg (snd (preCall t b))"
  by (auto simp: breaker_ok_def preCall_def split: option.split)

lemma breaker_ok_post [keeps]: "breaker_ok cfg b \<Longrightarrow> breaker_ok cfg (postCall cfg t ok b)"
  by (auto simp: breaker_ok_def postCall_def Let_def)

lemma breaker_ok_step [keeps]: "breaker_ok cfg b \<Longrightarrow> breaker_ok cfg (snd (breaker_step cfg e b))"
  by (cases e) (simp_all add: case_prod_beta breaker_ok_pre breaker_ok_post)

lemma breaker_ok_run [keeps]: "breaker_ok cfg b \<Longrightarrow> breaker_ok cfg (snd (breaker_run cfg es b))"
  by (induction es arbitrary: b) (simp_all add: case_prod_beta breaker_ok_step)

lemma abs_preCall:
  "breaker_ok cfg b \<Longrightarrow>
     fst (preCall t b) = fst (abs_pre t (breaker_abs b)) \<and>
     breaker_abs (snd (preCall t b)) = snd (abs_pre t (breaker_abs b))"
  by (auto simp: preCall_def breaker_abs_def split: option.split)

lemma abs_postCall:
  "breaker_ok cfg b \<Longrightarrow> breaker_abs (postCall cfg t ok b) = abs_post cfg t ok (breaker_abs b)"
  by (cases ok) (auto simp: postCall_def breaker_abs_def breaker_ok_def time_add_def split: option.split)

text \<open>The service keeps the invariant: each wrapper is a \<open>preCall\<close> and at most one \<open>postCall\<close>.\<close>

lemma guarded_call_cases:
  "snd (guarded_call L g rpc t0 t1 l) =
     l\<lparr>lk_requests_total := lk_requests_total l + 1,
       lk_breaker := (if fst (preCall t0 (lk_breaker l))
         then postCall (lk_cfg l) t1 (\<exists>a. fst (guarded_call L g rpc t0 t1 l) = Inr a)
           (snd (preCall t0 (lk_breaker l)))
         else lk_breaker l)\<rparr>"
  by (auto simp: guarded_call_def case_prod_beta Let_def preCall_def split: sum.split option.split)

section \<open>Load on a failing child\<close>

text \<open>How much of the window up to \<open>t1\<close> is left for calls, in the time unit of the cooldown.\<close>

definition load_credit :: "lk_config \<Rightarrow> time \<Rightarrow> time \<Rightarrow> breaker \<Rightarrow> int" where
  "load_credit cfg t1 now b =
     (case br_open_until b of
        None \<Rightarrow> 0
      | Some u \<Rightarrow> if br_half_open b then max 0 (t1 - now)
                  else max 0 (t1 - u + lkc_breaker_cooldown cfg))"

fun event_time :: "breaker_event \<Rightarrow> time" where
  "event_time (Pre t) = t"
| "event_time (Post t ok) = t"

fun event_fails :: "breaker_event \<Rightarrow> bool" where
  "event_fails (Pre t) = True"
| "event_fails (Post t ok) = (\<not> ok)"

definition calls_admitted :: "bool list \<Rightarrow> nat" where
  "calls_admitted as = length (filter id as)"

lemma failing_run_load:
  assumes "0 < lkc_breaker_cooldown cfg" "breaker_ok cfg b" "br_open_until b = Some u"
    "u \<le> now + lkc_breaker_cooldown cfg" "sorted (map event_time es)"
    "\<forall>e \<in> set es. now \<le> event_time e \<and> event_time e \<le> t1 \<and> event_fails e"
  shows "int (calls_admitted (fst (breaker_run cfg es b))) * lkc_breaker_cooldown cfg \<le>
    load_credit cfg t1 now b"
  using assms(2-)
proof (induction es arbitrary: b u now)
  case Nil
  then show ?case by (simp add: calls_admitted_def load_credit_def)
next
  case (Cons e es)
  let ?cd = "lkc_breaker_cooldown cfg"
  have later: "\<forall>e' \<in> set es. event_time e \<le> event_time e' \<and> event_time e' \<le> t1 \<and> event_fails e'"
    and srt: "sorted (map event_time es)"
    and now: "now \<le> event_time e" "event_time e \<le> t1"
    using Cons.prems by auto
  show ?case
  proof (cases e)
    case (Pre t)
    show ?thesis
    proof (cases "fst (preCall t b)")
      case False
      then have "snd (preCall t b) = b"
        using Cons.prems(2) by (auto simp: preCall_def split: if_splits)
      moreover have "int (calls_admitted (fst (breaker_run cfg es b))) * ?cd \<le> load_credit cfg t1 now b"
        using Cons.IH [OF Cons.prems(1,2,3) srt] Cons.prems(5) by auto
      ultimately show ?thesis using False by (simp add: Pre case_prod_beta calls_admitted_def)
    next
      case True
      let ?b = "b\<lparr>br_half_open := True\<rparr>"
      have u: "u \<le> t" "\<not> br_half_open b" and b: "snd (preCall t b) = ?b"
        using True Cons.prems(2) by (auto simp: preCall_def split: if_splits)
      have "breaker_ok cfg ?b" using breaker_ok_pre [OF Cons.prems(1), of t] b by simp
      then have "int (calls_admitted (fst (breaker_run cfg es ?b))) * ?cd \<le> load_credit cfg t1 t ?b"
        using later Cons.prems(2,3) now Pre by (intro Cons.IH [OF _ _ _ srt]) auto
      moreover have "load_credit cfg t1 t ?b + ?cd \<le> load_credit cfg t1 now b"
        using u now Pre assms(1) Cons.prems(2) by (simp add: load_credit_def)
      ultimately show ?thesis
        using True b by (simp add: Pre case_prod_beta calls_admitted_def distrib_right)
    qed
  next
    case (Post t ok)
    let ?b = "postCall cfg t False b"
    have ok: "\<not> ok" using Cons.prems(5) Post by auto
    have u': "br_open_until ?b = Some (t + ?cd)" and h: "\<not> br_half_open ?b"
      using Cons.prems(1,2) by (auto simp: postCall_def Let_def breaker_ok_def time_add_def)
    have "int (calls_admitted (fst (breaker_run cfg es ?b))) * ?cd \<le> load_credit cfg t1 t ?b"
      using later Post u' by (intro Cons.IH [OF breaker_ok_post [OF Cons.prems(1)] u' _ srt]) auto
    also have "\<dots> \<le> load_credit cfg t1 now b"
      using u' h now Post Cons.prems(2,3) by (simp add: load_credit_def)
    finally show ?thesis using ok by (simp add: Post case_prod_beta)
  qed
qed

section \<open>Properties\<close>

text \<open>
  C18. The breaker is the three-state machine closed, open, half open: in every interleaving of the
  wrappers' pre- and post-calls its answers and its state are those of the abstract machine, which
  rejects while open, lets one probe through after the cooldown, closes on success and reopens on
  failure.
\<close>

theorem breaker_refines_machine:
  assumes "breaker_ok cfg b"
  shows "fst (preCall t b) = fst (abs_pre t (breaker_abs b)) \<and>
    breaker_abs (snd (preCall t b)) = snd (abs_pre t (breaker_abs b)) \<and>
    breaker_abs (postCall cfg t ok b) = abs_post cfg t ok (breaker_abs b) \<and>
    breaker_ok cfg (snd (breaker_run cfg es b))"
  using assms abs_preCall abs_postCall breaker_ok_run by blast

definition sample_lk_config :: lk_config where
  "sample_lk_config = \<lparr>lkc_signaling_addr = '':7880'', lkc_api_key = ''k'', lkc_api_secret = ''s'',
     lkc_call_timeout = 5 * second, lkc_breaker_cooldown = 30 * second, lkc_breaker_threshold = 3,
     lkc_http_scheme = ''http''\<rparr>"

theorem breaker_refines_machine_witness:
  "breaker_ok sample_lk_config (snd (breaker_run sample_lk_config
     [Pre 0, Post 1 False, Pre 2, Post 3 False, Pre 4, Post 5 False, Pre 6] new_breaker)) \<and>
   fst (breaker_run sample_lk_config
     [Pre 0, Post 1 False, Pre 2, Post 3 False, Pre 4, Post 5 False, Pre 6] new_breaker) =
     [True, True, True, False]"
  by (rule conjI, rule breaker_refines_machine [OF breaker_ok_new, THEN conjunct2, THEN conjunct2, THEN conjunct2])
    code_simp

text \<open>
  The load on a dead child is bounded: once the breaker is open until \<open>u\<close>, however many callers
  interleave their calls, as long as every call that completes fails, at most one call per cooldown
  reaches the child: those admitted up to \<open>t1\<close> number at most one more than the cooldowns that fit
  between \<open>u\<close> and \<open>t1\<close>.
\<close>

theorem breaker_bounds_load:
  assumes "0 < lkc_breaker_cooldown cfg" "breaker_ok cfg b" "br_open_until b = Some u"
    "\<not> br_half_open b" "u \<le> now + lkc_breaker_cooldown cfg" "sorted (map event_time es)" "u \<le> t1"
    "\<forall>e \<in> set es. now \<le> event_time e \<and> event_time e \<le> t1 \<and> event_fails e"
  shows "int (calls_admitted (fst (breaker_run cfg es b))) \<le> (t1 - u) div lkc_breaker_cooldown cfg + 1"
proof -
  let ?cd = "lkc_breaker_cooldown cfg"
  have "int (calls_admitted (fst (breaker_run cfg es b))) * ?cd \<le> load_credit cfg t1 now b"
    by (rule failing_run_load [OF assms(1,2,3,5,6,8)])
  also have "\<dots> = (t1 - u) + ?cd" using assms by (simp add: load_credit_def)
  finally have "int (calls_admitted (fst (breaker_run cfg es b))) * ?cd div ?cd \<le> ((t1 - u) + 1 * ?cd) div ?cd"
    using assms(1) by (intro zdiv_mono1) simp_all
  then show ?thesis using assms(1) by simp
qed

definition sample_open_breaker :: breaker where
  "sample_open_breaker =
     \<lparr>br_consec_fail = 3, br_open_until = Some (30 * second), br_half_open = False\<rparr>"

theorem breaker_bounds_load_witness:
  "int (calls_admitted (fst (breaker_run sample_lk_config
     [Pre (10 * second), Pre (31 * second), Pre (32 * second), Post (36 * second) False,
      Pre (40 * second), Pre (70 * second)] sample_open_breaker))) \<le> 3"
  using breaker_bounds_load [of sample_lk_config sample_open_breaker "30 * second" 0
    "[Pre (10 * second), Pre (31 * second), Pre (32 * second), Post (36 * second) False,
      Pre (40 * second), Pre (70 * second)]" "90 * second"]
  by (simp add: sample_lk_config_def sample_open_breaker_def breaker_ok_def second_def)

text \<open>
  The breaker trips at exactly the configured number of consecutive failures: after fewer failed
  calls it is closed and counts them, after that many it is open for one cooldown from the last.
\<close>

theorem breaker_trips_at_threshold:
  assumes "ts \<noteq> []" "int (length ts) \<le> lkc_breaker_threshold cfg"
  shows "breaker_abs (fold (\<lambda>t b. postCall cfg t False (snd (preCall t b))) ts new_breaker) =
    (if int (length ts) < lkc_breaker_threshold cfg then Closed (int (length ts))
     else Open (last ts + lkc_breaker_cooldown cfg))"
  using assms
proof (induction ts rule: rev_induct)
  case (snoc t ts)
  let ?b = "fold (\<lambda>t b. postCall cfg t False (snd (preCall t b))) ts new_breaker"
  have ok: "breaker_ok cfg (fold (\<lambda>t b. postCall cfg t False (snd (preCall t b))) ts b)"
    if "breaker_ok cfg b" for b
    using that by (induction ts arbitrary: b) (simp_all add: breaker_ok_pre breaker_ok_post)
  have "breaker_abs ?b = Closed (int (length ts))"
    using snoc by (cases "ts = []") (simp_all add: new_breaker_def breaker_abs_def)
  then show ?case
    using ok [OF breaker_ok_new] snoc.prems
    by (simp add: abs_postCall breaker_ok_pre abs_preCall)
qed simp

theorem breaker_trips_at_threshold_witness:
  "breaker_abs (fold (\<lambda>t b. postCall sample_lk_config t False (snd (preCall t b))) [1, 2, 3] new_breaker) =
     Open (3 + 30 * second)"
  using breaker_trips_at_threshold [of "[1, 2, 3]" sample_lk_config]
  by (simp add: sample_lk_config_def)

text \<open>
  Least privilege: a room-scoped call mints its token for room administration of exactly that
  room and sends its request about exactly that room. Two libraries that agree on that token and on
  the calls about that room are indistinguishable, whatever else they would do.
\<close>

theorem room_calls_scoped:
  assumes "\<forall>k s d. mint_jwt L k s (admin_grant room) d = mint_jwt L' k s (admin_grant room) d"
    and "attach_header L = attach_header L'"
    and "\<forall>ctx. rpc_delete_room L ctx room = rpc_delete_room L' ctx room"
    and "\<forall>ctx. rpc_list_participants L ctx room = rpc_list_participants L' ctx room"
    and "\<forall>ctx. rpc_send_data L ctx room = rpc_send_data L' ctx room"
  shows "DeleteRoom L room t0 t1 l = DeleteRoom L' room t0 t1 l \<and>
    ListParticipants L room t0 t1 l = ListParticipants L' room t0 t1 l \<and>
    SendData L room data topic t0 t1 l = SendData L' room data topic t0 t1 l"
proof -
  have auth: "authCtx L cfg (admin_grant room) = authCtx L' cfg (admin_grant room)" for cfg
    by (simp add: authCtx_def assms(1,2) split: sum.split)
  have "guarded_call L (admin_grant room) rpc t0 t1 l = guarded_call L' (admin_grant room) rpc t0 t1 l"
    for rpc :: "'a \<Rightarrow> string + unit"
    by (simp add: guarded_call_def auth Let_def case_prod_beta)
  moreover have "guarded_call L (admin_grant room) rpc t0 t1 l = guarded_call L' (admin_grant room) rpc t0 t1 l"
    for rpc :: "'a \<Rightarrow> string + participant_meta list"
    by (simp add: guarded_call_def auth Let_def case_prod_beta)
  ultimately show ?thesis
    using assms(3-5) by (simp add: DeleteRoom_def ListParticipants_def SendData_def)
qed

end
