(* ===== verification/Rate_Limiter.thy ===== *)
theory Rate_Limiter
  imports Go_Http
begin

text \<open>
  The per-key token-bucket rate limiter (\<^verbatim>\<open>internal/wrap/ratelimit.go\<close>), its middleware and the
  client address it is keyed on. The arithmetic is \<^verbatim>\<open>float64\<close> (\<open>f64\<close> after every operation). The
  lemmas bound the tokens of a bucket and the requests admitted in a window, show that keys do not
  influence each other (locale \<open>keyed_limiter\<close>) and that eviction is unobservable.
\<close>

section \<open>The limiter\<close>

record token_bucket =
  tb_tokens :: rat
  tb_last :: time

record rate_limiter =
  rl_buckets :: "(string, token_bucket) go_map"
  rl_rate :: rat
  rl_burst :: rat
  rl_idle_ttl :: duration

definition NewRateLimiter :: "rat \<Rightarrow> rat \<Rightarrow> duration \<Rightarrow> rate_limiter" where
  "NewRateLimiter rate burst idleTTL =
     \<lparr>rl_buckets = [], rl_rate = rate, rl_burst = burst, rl_idle_ttl = idleTTL\<rparr>"

definition refill :: "rat \<Rightarrow> rat \<Rightarrow> time \<Rightarrow> token_bucket \<Rightarrow> token_bucket" where
  "refill rate burst now b =
     (let elapsed = seconds (time_sub now (tb_last b))
      in if 0 < elapsed then
           let tokens = f64 (tb_tokens b + f64 (elapsed * rate))
           in \<lparr>tb_tokens = (if burst < tokens then burst else tokens), tb_last = now\<rparr>
         else b)"

definition take_token :: "token_bucket \<Rightarrow> bool \<times> token_bucket" where
  "take_token b =
     (if tb_tokens b < 1 then (False, b) else (True, b\<lparr>tb_tokens := f64 (tb_tokens b - 1)\<rparr>))"

definition bucket_at :: "rate_limiter \<Rightarrow> time \<Rightarrow> string \<Rightarrow> token_bucket" where
  "bucket_at r now key =
     (case map_of (rl_buckets r) key of
        None \<Rightarrow> \<lparr>tb_tokens = rl_burst r, tb_last = now\<rparr>
      | Some b \<Rightarrow> refill (rl_rate r) (rl_burst r) now b)"

definition Allow :: "time \<Rightarrow> string \<Rightarrow> rate_limiter \<Rightarrow> bool \<times> rate_limiter" where
  "Allow now key r =
     (let (ok, b) = take_token (bucket_at r now key)
      in (ok, r\<lparr>rl_buckets := put key b (rl_buckets r)\<rparr>))"

definition GCOnce :: "time \<Rightarrow> rate_limiter \<Rightarrow> rate_limiter" where
  "GCOnce now r =
     (if rl_idle_ttl r = 0 then r
      else r\<lparr>rl_buckets :=
        filter (\<lambda>(_, b). \<not> rl_idle_ttl r < time_sub now (tb_last b)) (rl_buckets r)\<rparr>)"

definition BucketCount :: "rate_limiter \<Rightarrow> int" where
  "BucketCount r = int (length (rl_buckets r))"

section \<open>The middleware\<close>

definition TrustedProxyEnv :: string where
  "TrustedProxyEnv = ''MEET_TRUSTED_PROXY''"

definition isTrustedProxy :: "(string \<Rightarrow> string) \<Rightarrow> bool" where
  "isTrustedProxy env \<longleftrightarrow>
     to_lower (trim_space (env TrustedProxyEnv)) \<in> {''1'', ''true'', ''yes''}"

definition clientIP :: "http_request \<Rightarrow> bool \<Rightarrow> string" where
  "clientIP r trustXFF =
     (let xff = header_get r ''X-Forwarded-For'';
          first = (case index_of xff '','' of
                     Some i \<Rightarrow> if 0 < i then trim_space (take i xff) else trim_space xff
                   | None \<Rightarrow> trim_space xff);
          peer = (case SplitHostPort (req_remote_addr r) of
                    None \<Rightarrow> req_remote_addr r
                  | Some (host, _) \<Rightarrow> host)
      in if trustXFF \<and> xff \<noteq> [] then (case ParseIP first of Some ip \<Rightarrow> show_ip ip | None \<Rightarrow> peer)
         else peer)"

text \<open>The wrapped handler runs on its own state only when a token was taken.\<close>

definition MiddlewareWithTrust ::
  "(http_request \<Rightarrow> 's \<Rightarrow> http_response \<times> 's) \<Rightarrow> bool \<Rightarrow> time \<Rightarrow> http_request \<Rightarrow>
     rate_limiter \<times> 's \<Rightarrow> http_response \<times> rate_limiter \<times> 's" where
  "MiddlewareWithTrust inner trustXFF now req st =
     (let (r, s) = st; (ok, r') = Allow now (clientIP req trustXFF) r
      in if \<not> ok then (http_error ''rate limit exceeded'' StatusTooManyRequests, (r', s))
         else let (rsp, s') = inner req s in (rsp, (r', s')))"

section \<open>Elapsed seconds\<close>

lemma seconds_nonneg_eq:
  "0 \<le> d \<Longrightarrow> seconds d = f64 (f64 (of_int (d div second)) + f64 (of_int (d mod second) / of_int second))"
  by (cases "d = 0") (simp_all add: seconds_def Let_def)

lemma seconds_nonpos: "d \<le> 0 \<Longrightarrow> seconds d \<le> 0"
proof (cases "d = 0")
  case False
  assume "d \<le> 0"
  with False have d: "d < 0" by simp
  then have "(of_int (- (\<bar>d\<bar> div second)) :: rat) \<le> 0" "(of_int (- (\<bar>d\<bar> mod second)) / of_int second :: rat) \<le> 0"
    by (simp_all add: second_def pos_imp_zdiv_nonneg_iff divide_le_0_iff)
  then have "f64 (of_int (- (\<bar>d\<bar> div second))) \<le> 0" "f64 (of_int (- (\<bar>d\<bar> mod second)) / of_int second) \<le> 0"
    using f64_mono f64_0 by metis+
  then have "f64 (f64 (of_int (- (\<bar>d\<bar> div second))) + f64 (of_int (- (\<bar>d\<bar> mod second)) / of_int second)) \<le> f64 0"
    by (intro f64_mono) simp
  with d show ?thesis by (simp add: seconds_def Let_def)
qed (simp add: seconds_def)

text \<open>Durations whose whole seconds are exact in a \<^verbatim>\<open>float64\<close>: all \<^verbatim>\<open>int64\<close> nanosecond counts are.\<close>

lemma whole_seconds_exact: "0 \<le> d \<Longrightarrow> d \<le> max_int64 \<Longrightarrow> f64 (of_int (d div second)) = of_int (d div second)"
proof -
  assume "0 \<le> d" "d \<le> max_int64"
  then have "0 \<le> d div second" and "d div second \<le> max_int64 div second"
    by (simp_all add: second_def zdiv_mono1)
  then have "\<bar>d div second\<bar> \<le> 2 ^ 53" by (simp add: second_def max_int64_def)
  then show ?thesis by (intro fl.rnd_exact fl.exact_int)
qed

lemma nanos_range:
  "0 \<le> d \<Longrightarrow> 0 \<le> f64 (of_int (d mod second) / of_int second) \<and> f64 (of_int (d mod second) / of_int second) \<le> 1"
proof
  have n: "0 \<le> d mod second" "d mod second < second" by (simp_all add: second_def)
  then show "0 \<le> f64 (of_int (d mod second) / of_int second)"
    by (intro fl.rnd_nonneg divide_nonneg_nonneg) (simp_all add: second_def)
  have "(of_int (d mod second) / of_int second :: rat) \<le> 1"
    using n by (simp add: second_def)
  then show "f64 (of_int (d mod second) / of_int second) \<le> 1"
    using fl.rnd_le_exact [of _ 1] fl.exact_int [of 1] by simp
qed

lemma seconds_mono:
  assumes "0 \<le> a" "a \<le> b" "b \<le> max_int64"
  shows "seconds a \<le> seconds b"
proof (cases "a div second = b div second")
  case True
  with assms have "a mod second \<le> b mod second"
    by (simp add: True flip: minus_div_mult_eq_mod)
  then have "f64 (of_int (a mod second) / of_int second) \<le> f64 (of_int (b mod second) / of_int second)"
    by (intro f64_mono divide_right_mono) (simp_all add: second_def)
  with True assms show ?thesis
    by (simp add: seconds_nonneg_eq f64_mono)
next
  case False
  have "a div second \<le> b div second" using assms(2) by (simp add: second_def zdiv_mono1)
  with False have "a div second + 1 \<le> b div second" by linarith
  then have le: "(of_int (a div second) :: rat) + 1 \<le> of_int (b div second)"
    by (metis of_int_1 of_int_add of_int_le_iff)
  have a: "f64 (of_int (a div second)) = of_int (a div second)"
    and b: "f64 (of_int (b div second)) = of_int (b div second)"
    using assms by (simp_all add: whole_seconds_exact)
  have "f64 (of_int (a div second)) + f64 (of_int (a mod second) / of_int second) \<le>
      f64 (of_int (b div second)) + f64 (of_int (b mod second) / of_int second)"
    using nanos_range [of a] nanos_range [of b] assms le unfolding a b by linarith
  then show ?thesis using assms by (simp add: seconds_nonneg_eq f64_mono)
qed

lemma seconds_upper:
  assumes "0 \<le> d" "d \<le> max_int64"
  shows "seconds d \<le> of_int d / of_int second * (1 + 1 / 2 ^ 53) ^ 2"
proof -
  let ?e = "1 + 1 / 2 ^ 53 :: rat" and ?s = "of_int (d div second) :: rat"
  let ?n = "of_int (d mod second) / of_int second :: rat"
  have n: "0 \<le> ?n" by (simp add: second_def)
  have s: "0 \<le> ?s" using assms by (simp add: second_def pos_imp_zdiv_nonneg_iff)
  have "?s + f64 ?n \<le> ?s * ?e + ?n * ?e"
    using fl.rnd_upper [OF n] s by (intro add_mono) (simp_all add: algebra_simps)
  moreover have "?s + ?n = of_int d / of_int second"
  proof -
    have "(of_int d :: rat) = of_int (d div second) * of_int second + of_int (d mod second)"
      by (metis div_mult_mod_eq of_int_add of_int_mult)
    then show ?thesis by (simp add: second_def field_simps)
  qed
  ultimately have "?s + f64 ?n \<le> of_int d / of_int second * ?e"
    by (metis distrib_right)
  moreover have "0 \<le> ?s + f64 ?n" using s fl.rnd_nonneg [OF n] by simp
  ultimately have "f64 (?s + f64 ?n) \<le> of_int d / of_int second * ?e * ?e"
    by (intro order_trans [OF fl.rnd_upper] mult_right_mono) simp_all
  then show ?thesis
    using assms by (simp add: seconds_nonneg_eq whole_seconds_exact power2_eq_square mult.assoc)
qed

text \<open>A nanosecond is not rounded away.\<close>

lemma nano_exact: "f64_exact (1 / 2 ^ 30)"
proof -
  have "(1 :: rat) / 2 ^ 30 = of_int 1 * 2 powi (- 30)" by (simp add: power_int_minus)
  moreover have "\<bar>1 :: int\<bar> \<le> 2 ^ 53" by simp
  ultimately show ?thesis unfolding f64_exact_def by blast
qed

lemma seconds_pos:
  assumes "0 < d" "d \<le> max_int64" shows "0 < seconds d"
proof -
  let ?q = "of_int (d div second) :: rat" and ?n = "of_int (d mod second) / of_int second :: rat"
  have q0: "0 \<le> d div second" and m0: "0 \<le> d mod second" using assms(1) by (simp_all add: second_def)
  have n0: "0 \<le> f64 ?n" using nanos_range [of d] assms(1) by simp
  have "1 / 2 ^ 30 \<le> ?q + f64 ?n"
  proof (cases "d div second = 0")
    case True
    then have "d mod second \<noteq> 0" using assms(1) by (metis div_mult_mod_eq add_0 mult_zero_left less_irrefl)
    with m0 have "1 \<le> d mod second" by linarith
    then have "(1 :: rat) \<le> of_int (d mod second)" by simp
    then have "1 / 2 ^ 30 \<le> ?n" by (simp add: second_def field_simps)
    from fl.exact_le_rnd [OF this nano_exact] show ?thesis by (simp add: True)
  next
    case False
    with q0 have "1 \<le> d div second" by linarith
    then have "(1 :: rat) \<le> ?q" by simp
    moreover have "(1 / 2 ^ 30 :: rat) \<le> 1" by simp
    ultimately show ?thesis using n0 by linarith
  qed
  from fl.exact_le_rnd [OF this nano_exact] have "1 / 2 ^ 30 \<le> seconds d"
    using assms by (simp add: seconds_nonneg_eq whole_seconds_exact)
  then show ?thesis by (rule less_le_trans [rotated]) simp
qed

section \<open>The buckets\<close>

lemma seconds_pos_iff: "d \<le> max_int64 \<Longrightarrow> 0 < seconds d \<Longrightarrow> 0 < d"
  using seconds_nonpos [of d] by linarith

definition bucket_ok :: "rat \<Rightarrow> token_bucket \<Rightarrow> bool" where
  "bucket_ok burst b \<longleftrightarrow> 0 \<le> tb_tokens b \<and> tb_tokens b \<le> burst"

definition limiter_ok :: "rate_limiter \<Rightarrow> bool" where
  "limiter_ok r \<longleftrightarrow> 0 \<le> rl_rate r \<and> 0 \<le> rl_burst r \<and> go_map (rl_buckets r) \<and>
     (\<forall>x \<in> set (rl_buckets r). bucket_ok (rl_burst r) (snd x))"

lemma refill_ok:
  assumes "0 \<le> rate" "bucket_ok burst b" shows "bucket_ok burst (refill rate burst now b)"
proof -
  have "0 \<le> f64 (tb_tokens b + f64 (seconds (time_sub now (tb_last b)) * rate))"
    if "0 < seconds (time_sub now (tb_last b))"
    using that assms by (intro fl.rnd_nonneg add_nonneg_nonneg mult_nonneg_nonneg) (simp_all add: bucket_ok_def)
  then show ?thesis
    using assms by (auto simp: refill_def bucket_ok_def Let_def)
qed

lemma take_token_ok:
  assumes "bucket_ok burst b" "f64_exact burst" shows "bucket_ok burst (snd (take_token b))"
proof -
  have "f64 (tb_tokens b - 1) \<le> burst" if "1 \<le> tb_tokens b"
    using assms by (intro fl.rnd_le_exact) (simp_all add: bucket_ok_def)
  moreover have "0 \<le> f64 (tb_tokens b - 1)" if "1 \<le> tb_tokens b"
    using that by (intro fl.rnd_nonneg) simp
  ultimately show ?thesis
    using assms by (simp add: take_token_def bucket_ok_def)
qed

lemma map_of_bucket_ok:
  "limiter_ok r \<Longrightarrow> map_of (rl_buckets r) key = Some b \<Longrightarrow> bucket_ok (rl_burst r) b"
  by (auto simp: limiter_ok_def dest: map_of_SomeD)

lemma bucket_at_ok: "limiter_ok r \<Longrightarrow> bucket_ok (rl_burst r) (bucket_at r now key)"
  using map_of_bucket_ok [of r key]
  by (auto simp: bucket_at_def limiter_ok_def bucket_ok_def [of _ "\<lparr>tb_tokens = _, tb_last = _\<rparr>"]
      refill_ok split: option.split)

lemma limiter_ok_Allow [keeps]:
  assumes "limiter_ok r" "f64_exact (rl_burst r)"
  shows "limiter_ok (snd (Allow now key r))"
proof -
  have "bucket_ok (rl_burst r) (snd (take_token (bucket_at r now key)))"
    by (rule take_token_ok [OF bucket_at_ok [OF assms(1)] assms(2)])
  then show ?thesis
    using assms(1) by (auto simp: Allow_def limiter_ok_def case_prod_beta dest!: in_set_put)
qed

lemma limiter_ok_GCOnce [keeps]: "limiter_ok r \<Longrightarrow> limiter_ok (GCOnce now r)"
  by (auto simp: limiter_ok_def GCOnce_def distinct_map_filter)

lemma NewRateLimiter_config [simp]:
  "rl_rate (NewRateLimiter rate burst ttl) = rate" "rl_burst (NewRateLimiter rate burst ttl) = burst"
  "rl_idle_ttl (NewRateLimiter rate burst ttl) = ttl" "rl_buckets (NewRateLimiter rate burst ttl) = []"
  by (simp_all add: NewRateLimiter_def)

lemma limiter_ok_new [keeps]: "0 \<le> rate \<Longrightarrow> 0 \<le> burst \<Longrightarrow> limiter_ok (NewRateLimiter rate burst ttl)"
  by (simp add: limiter_ok_def NewRateLimiter_def)

lemma Allow_config [simp]:
  "rl_rate (snd (Allow now key r)) = rl_rate r" "rl_burst (snd (Allow now key r)) = rl_burst r"
  "rl_idle_ttl (snd (Allow now key r)) = rl_idle_ttl r"
  by (simp_all add: Allow_def case_prod_beta)

lemma Allow_lookup:
  "map_of (rl_buckets (snd (Allow now key r))) k =
     (if k = key then Some (snd (take_token (bucket_at r now key))) else map_of (rl_buckets r) k)"
  by (simp add: Allow_def case_prod_beta)

lemma Allow_decision: "fst (Allow now key r) \<longleftrightarrow> 1 \<le> tb_tokens (bucket_at r now key)"
  by (auto simp: Allow_def take_token_def case_prod_beta)

section \<open>Keys do not influence each other\<close>

text \<open>
  The contract of a per-key limiter: a decision reads only the view of its own key and changes only
  that view.
\<close>

locale keyed_limiter =
  fixes allow :: "'t \<Rightarrow> 'k \<Rightarrow> 's \<Rightarrow> bool \<times> 's" and view :: "'s \<Rightarrow> 'k \<Rightarrow> 'v"
  assumes frame: "k' \<noteq> k \<Longrightarrow> view (snd (allow t k s)) k' = view s k'"
    and reads_own: "view s k = view s' k \<Longrightarrow>
      fst (allow t k s) = fst (allow t k s') \<and> view (snd (allow t k s)) k = view (snd (allow t k s')) k"
begin

fun decisions :: "('t \<times> 'k) list \<Rightarrow> 's \<Rightarrow> ('k \<times> bool) list" where
  "decisions [] s = []"
| "decisions ((t, k) # rs) s = (k, fst (allow t k s)) # decisions rs (snd (allow t k s))"

lemma decisions_of_key:
  "view s k = view s' k \<Longrightarrow>
     filter (\<lambda>d. fst d = k) (decisions rs s) = decisions (filter (\<lambda>r. snd r = k) rs) s'"
proof (induction rs arbitrary: s s')
  case (Cons r rs)
  obtain t j where r: "r = (t, j)" by (cases r)
  show ?case
  proof (cases "j = k")
    case True
    then show ?thesis using reads_own [OF Cons.prems] Cons.IH by (simp add: r)
  next
    case False
    then have "view (snd (allow t j s)) k = view s' k" using frame Cons.prems by simp
    then show ?thesis using Cons.IH False by (simp add: r)
  qed
qed simp

end

definition limiter_view :: "rate_limiter \<Rightarrow> string \<Rightarrow> rat \<times> rat \<times> token_bucket option" where
  "limiter_view r k = (rl_rate r, rl_burst r, map_of (rl_buckets r) k)"

interpretation limiter: keyed_limiter Allow limiter_view
proof unfold_locales
  fix k k' :: string and t :: time and s assume "k' \<noteq> k"
  then show "limiter_view (snd (Allow t k s)) k' = limiter_view s k'"
    by (simp add: limiter_view_def Allow_lookup)
next
  fix s s' k and t :: time assume v: "limiter_view s k = limiter_view s' k"
  then have "bucket_at s t k = bucket_at s' t k"
    by (auto simp: limiter_view_def bucket_at_def split: option.split)
  then show "fst (Allow t k s) = fst (Allow t k s') \<and>
      limiter_view (snd (Allow t k s)) k = limiter_view (snd (Allow t k s')) k"
    using v by (simp add: limiter_view_def Allow_lookup Allow_decision)
qed

text \<open>A run of requests, each with its arrival time and key.\<close>

fun run_requests :: "(time \<times> string) list \<Rightarrow> rate_limiter \<Rightarrow> (string \<times> bool) list \<times> rate_limiter" where
  "run_requests [] r = ([], r)"
| "run_requests ((t, k) # rs) r =
     (let (ok, r1) = Allow t k r; (ds, r2) = run_requests rs r1 in ((k, ok) # ds, r2))"

lemma run_requests_decisions: "fst (run_requests rs r) = limiter.decisions rs r"
proof (induction rs arbitrary: r)
  case (Cons x rs)
  then show ?case by (cases x) (simp add: case_prod_beta)
qed simp

section \<open>Throughput\<close>

definition rounding_slack :: rat where "rounding_slack = 1 + 1 / 2 ^ 50"

lemma slack_power: "(1 + 1 / 2 ^ 53 :: rat) ^ 4 \<le> rounding_slack"
  by (simp add: rounding_slack_def power_divide eval_nat_numeral)

text \<open>One refill adds at most rate times elapsed time, up to rounding.\<close>

lemma refill_upper:
  assumes "0 \<le> rate" "bucket_ok burst b" "tb_last b \<le> now \<or> tb_last (refill rate burst now b) = tb_last b"
  shows "tb_tokens (refill rate burst now b) \<le> tb_tokens b + burst / 2 ^ 53 +
      of_int (tb_last (refill rate burst now b) - tb_last b) / of_int second * rate * rounding_slack"
proof (cases "0 < seconds (time_sub now (tb_last b))")
  case False
  then show ?thesis using assms by (simp add: refill_def bucket_ok_def)
next
  case True
  define e :: rat where "e = 1 + 1 / 2 ^ 53"
  have up: "f64 x \<le> x * e" if "0 \<le> x" for x using fl.rnd_upper [OF that] by (simp only: e_def)
  have e1: "0 \<le> e" by (simp add: e_def)
  let ?d = "time_sub now (tb_last b)" and ?c = "tb_tokens b"
  let ?D = "of_int (now - tb_last b) / of_int second :: rat"
  have dmax: "?d \<le> max_int64" by (simp add: time_sub_def min_int64_def max_int64_def)
  have dpos: "0 < ?d" by (rule seconds_pos_iff [OF dmax True])
  have dle: "?d \<le> now - tb_last b" using dpos by (auto simp: time_sub_def min_int64_def)
  have D: "of_int ?d / of_int second \<le> ?D"
    using dle by (intro divide_right_mono) (simp_all only: of_int_le_iff, simp add: second_def)
  have "0 \<le> (of_int ?d / of_int second :: rat)"
    using less_imp_le [OF dpos] unfolding second_def by (intro divide_nonneg_nonneg) simp_all
  with D have D0: "0 \<le> ?D" by simp
  have "seconds ?d \<le> of_int ?d / of_int second * e ^ 2"
    using seconds_upper [OF less_imp_le [OF dpos] dmax] by (simp only: e_def)
  also have "\<dots> \<le> ?D * e ^ 2" using D by (rule mult_right_mono) simp
  finally have sr: "seconds ?d * rate \<le> ?D * e ^ 2 * rate" using assms(1) by (rule mult_right_mono)
  have sr0: "0 \<le> seconds ?d * rate" using True assms(1) by simp
  have "f64 (seconds ?d * rate) \<le> ?D * e ^ 2 * rate * e"
    using up [OF sr0] mult_right_mono [OF sr e1] by (rule order_trans)
  then have g: "f64 (seconds ?d * rate) \<le> ?D * rate * e ^ 3"
    by (simp only: power3_eq_cube power2_eq_square mult_ac)
  have g0: "0 \<le> f64 (seconds ?d * rate)" by (rule fl.rnd_nonneg [OF sr0])
  have c: "0 \<le> ?c" "?c \<le> burst" using assms(2) by (simp_all add: bucket_ok_def)
  have "f64 (?c + f64 (seconds ?d * rate)) \<le> (?c + f64 (seconds ?d * rate)) * e"
    using c g0 by (intro up) simp
  also have "\<dots> \<le> (?c + ?D * rate * e ^ 3) * e"
    using g e1 by (intro mult_right_mono add_left_mono)
  also have "\<dots> = ?c * e + ?D * rate * e ^ 4"
    by (simp only: distrib_right power4_eq_xxxx power3_eq_cube mult.assoc)
  also have "\<dots> \<le> ?c + burst / 2 ^ 53 + ?D * rate * rounding_slack"
  proof (rule add_mono)
    show "?c * e \<le> ?c + burst / 2 ^ 53"
      using c by (simp add: e_def algebra_simps)
    show "?D * rate * e ^ 4 \<le> ?D * rate * rounding_slack"
      using D0 assms(1) slack_power by (intro mult_left_mono mult_nonneg_nonneg) (simp_all only: e_def)
  qed
  finally show ?thesis using True by (auto simp: refill_def Let_def)
qed

lemma take_token_upper:
  assumes "bucket_ok burst b"
  shows "of_bool (fst (take_token b)) + tb_tokens (snd (take_token b)) \<le> tb_tokens b + burst / 2 ^ 53"
proof (cases "tb_tokens b < 1")
  case True
  then show ?thesis using assms by (simp add: take_token_def bucket_ok_def)
next
  case False
  then have "f64 (tb_tokens b - 1) \<le> (tb_tokens b - 1) * (1 + 1 / 2 ^ 53)"
    by (intro fl.rnd_upper) simp
  also have "\<dots> = tb_tokens b - 1 + (tb_tokens b - 1) / 2 ^ 53"
    by (simp only: distrib_left mult_1_right times_divide_eq_right)
  also have "\<dots> \<le> tb_tokens b - 1 + burst / 2 ^ 53"
    using assms by (intro add_left_mono divide_right_mono) (simp_all add: bucket_ok_def)
  finally show ?thesis using False by (simp add: take_token_def)
qed

text \<open>The number of requests of a run that were admitted.\<close>

definition admitted :: "(string \<times> bool) list \<Rightarrow> nat" where
  "admitted ds = length (filter snd ds)"

text \<open>
  The potential of a bucket: its tokens, less what time may still have added since its last refill.
\<close>

lemma refill_last:
  "tb_last (refill rate burst now b) = tb_last b \<or>
   tb_last (refill rate burst now b) = now \<and> tb_last b < now"
proof -
  have "tb_last b < now" if "0 < seconds (time_sub now (tb_last b))"
    using seconds_pos_iff [OF _ that] by (simp add: time_sub_def [of now] min_int64_def max_int64_def)
  then show ?thesis by (auto simp: refill_def Let_def)
qed

lemma take_token_last [simp]: "tb_last (snd (take_token b)) = tb_last b"
  by (simp add: take_token_def)

text \<open>One admission step of a known key keeps the accounting balanced.\<close>

lemma step_potential:
  assumes ok: "limiter_ok r" and b: "map_of (rl_buckets r) key = Some b"
  shows "\<exists>b'. map_of (rl_buckets (snd (Allow now key r))) key = Some b' \<and>
    tb_last b \<le> tb_last b' \<and> (tb_last b' = tb_last b \<or> tb_last b' = now) \<and>
    of_bool (fst (Allow now key r)) + tb_tokens b' \<le> tb_tokens b + 2 * (rl_burst r / 2 ^ 53) +
      of_int (tb_last b' - tb_last b) / of_int second * rl_rate r * rounding_slack"
proof -
  let ?c = "refill (rl_rate r) (rl_burst r) now b"
  have bok: "bucket_ok (rl_burst r) b" by (rule map_of_bucket_ok [OF ok b])
  have rate: "0 \<le> rl_rate r" using ok by (simp add: limiter_ok_def)
  have cok: "bucket_ok (rl_burst r) ?c" by (rule refill_ok [OF rate bok])
  have at: "bucket_at r now key = ?c" by (simp add: bucket_at_def b)
  have last: "tb_last ?c = tb_last b \<or> tb_last ?c = now \<and> tb_last b < now" by (rule refill_last)
  have "tb_tokens ?c \<le> tb_tokens b + rl_burst r / 2 ^ 53 +
      of_int (tb_last ?c - tb_last b) / of_int second * rl_rate r * rounding_slack"
    using last by (intro refill_upper [OF rate bok]) auto
  moreover have "of_bool (fst (take_token ?c)) + tb_tokens (snd (take_token ?c)) \<le>
      tb_tokens ?c + rl_burst r / 2 ^ 53"
    by (rule take_token_upper [OF cok])
  moreover have "fst (Allow now key r) = fst (take_token ?c)"
    by (simp add: Allow_def at case_prod_beta)
  ultimately show ?thesis
    using last by (intro exI [of _ "snd (take_token ?c)"]) (auto simp: Allow_lookup at)
qed

text \<open>Time left for refills: none for a bucket that was last refilled after \<open>t1\<close> by another clock.\<close>

definition refill_room :: "time \<Rightarrow> rat \<Rightarrow> token_bucket \<Rightarrow> rat" where
  "refill_room t1 rate b = of_int (max 0 (t1 - tb_last b)) / of_int second * rate * rounding_slack"

lemma refill_room_nonneg: "0 \<le> rate \<Longrightarrow> 0 \<le> refill_room t1 rate b"
  unfolding refill_room_def by (intro mult_nonneg_nonneg divide_nonneg_nonneg) (simp_all add: second_def rounding_slack_def)

lemma refill_room_split:
  assumes "tb_last b' = tb_last b \<or> tb_last b \<le> tb_last b' \<and> tb_last b' \<le> t1"
  shows "of_int (tb_last b' - tb_last b) / of_int second * rate * rounding_slack + refill_room t1 rate b' =
    refill_room t1 rate b"
  using assms
proof
  assume "tb_last b \<le> tb_last b' \<and> tb_last b' \<le> t1"
  then have "max 0 (t1 - tb_last b) = (tb_last b' - tb_last b) + max 0 (t1 - tb_last b')" by simp
  then show ?thesis
    unfolding refill_room_def by (simp only: of_int_add add_divide_distrib distrib_right)
qed (simp add: refill_room_def)

lemma run_known_key:
  assumes "limiter_ok r" "f64_exact (rl_burst r)" "map_of (rl_buckets r) key = Some b"
    and "\<forall>x \<in> set rs. snd x = key \<and> fst x \<le> t1"
  shows "of_nat (admitted (fst (run_requests rs r))) \<le> tb_tokens b +
    of_nat (length rs) * (2 * (rl_burst r / 2 ^ 53)) + refill_room t1 (rl_rate r) b"
  using assms
proof (induction rs arbitrary: r b)
  case Nil
  then have "0 \<le> tb_tokens b" "0 \<le> rl_rate r"
    using map_of_bucket_ok [OF Nil(1,3)] by (simp_all add: bucket_ok_def limiter_ok_def)
  then show ?case using refill_room_nonneg [of "rl_rate r" t1 b] by (simp add: admitted_def)
next
  case (Cons x rs)
  obtain t k where x: "x = (t, k)" by (cases x)
  with Cons.prems(4) have k: "k = key" and t: "t \<le> t1" by auto
  let ?r' = "snd (Allow t key r)"
  obtain b' where b': "map_of (rl_buckets ?r') key = Some b'"
    and last: "tb_last b \<le> tb_last b'" "tb_last b' = tb_last b \<or> tb_last b' = t"
    and pot: "of_bool (fst (Allow t key r)) + tb_tokens b' \<le> tb_tokens b + 2 * (rl_burst r / 2 ^ 53) +
      of_int (tb_last b' - tb_last b) / of_int second * rl_rate r * rounding_slack"
    using step_potential [OF Cons.prems(1,3), of t] by blast
  have "of_nat (admitted (fst (run_requests rs ?r'))) \<le> tb_tokens b' +
      of_nat (length rs) * (2 * (rl_burst r / 2 ^ 53)) + refill_room t1 (rl_rate r) b'"
    using Cons.IH [OF limiter_ok_Allow [OF Cons.prems(1,2)] _ b'] Cons.prems by auto
  moreover have "(of_nat (admitted (fst (run_requests (x # rs) r))) :: rat) =
      of_bool (fst (Allow t key r)) + of_nat (admitted (fst (run_requests rs ?r')))"
    by (simp add: x k admitted_def case_prod_beta)
  moreover have "of_int (tb_last b' - tb_last b) / of_int second * rl_rate r * rounding_slack +
      refill_room t1 (rl_rate r) b' = refill_room t1 (rl_rate r) b"
    using last t by (intro refill_room_split) auto
  moreover have "of_nat (length (x # rs)) * (2 * (rl_burst r / 2 ^ 53)) =
      2 * (rl_burst r / 2 ^ 53) + of_nat (length rs) * (2 * (rl_burst r / 2 ^ 53))"
    by (simp only: list.size of_nat_add of_nat_1 distrib_right add_0_right mult_1 Suc_eq_plus1 add.commute)
  ultimately show ?case using pot by linarith
qed

text \<open>Whatever happened before, the first request of a window finds at most a full bucket, of its own time or later.\<close>

lemma bucket_at_last: "now \<le> tb_last (bucket_at r now key)"
proof (cases "map_of (rl_buckets r) key")
  case None
  then show ?thesis by (simp add: bucket_at_def)
next
  case (Some b)
  have "0 < seconds (time_sub now (tb_last b))" if "tb_last b < now"
    using that by (intro seconds_pos) (auto simp: time_sub_def min_int64_def max_int64_def)
  then show ?thesis using Some by (cases "tb_last b < now") (auto simp: bucket_at_def refill_def Let_def)
qed

lemma run_window_of_key:
  assumes ok: "limiter_ok r" "f64_exact (rl_burst r)" and t01: "t0 \<le> t1"
    and rs: "\<forall>x \<in> set rs. snd x = key \<and> t0 \<le> fst x \<and> fst x \<le> t1"
  shows "of_nat (admitted (fst (run_requests rs r))) \<le> rl_burst r +
    of_int (t1 - t0) / of_int second * rl_rate r * rounding_slack + of_nat (length rs) * rl_burst r / 2 ^ 52"
proof (cases rs)
  case Nil
  have "0 \<le> of_int (t1 - t0) / of_int second * rl_rate r * rounding_slack"
    using ok(1) t01 unfolding second_def
    by (intro mult_nonneg_nonneg divide_nonneg_nonneg) (simp_all add: limiter_ok_def rounding_slack_def)
  then show ?thesis using ok(1) by (simp add: Nil admitted_def limiter_ok_def)
next
  case (Cons x rs')
  obtain t k where x: "x = (t, k)" by (cases x)
  let ?b = "bucket_at r t key" and ?r' = "snd (Allow t key r)"
  have k: "k = key" and t: "t0 \<le> t" and rs': "\<forall>x \<in> set rs'. snd x = key \<and> fst x \<le> t1"
    using rs by (auto simp: Cons x)
  have rate: "0 \<le> rl_rate r" and burst: "0 \<le> rl_burst r" using ok(1) by (simp_all add: limiter_ok_def)
  have last: "t \<le> tb_last (snd (take_token ?b))" using bucket_at_last by simp
  have "of_nat (admitted (fst (run_requests rs' ?r'))) \<le> tb_tokens (snd (take_token ?b)) +
      of_nat (length rs') * (2 * (rl_burst r / 2 ^ 53)) + refill_room t1 (rl_rate r) (snd (take_token ?b))"
    using run_known_key [where r = ?r' and key = key and b = "snd (take_token ?b)" and rs = rs']
      limiter_ok_Allow [OF ok, of t key] ok(2) rs'
    by (simp add: Allow_lookup)
  moreover have "of_bool (fst (take_token ?b)) + tb_tokens (snd (take_token ?b)) \<le> rl_burst r + rl_burst r / 2 ^ 53"
    using take_token_upper [OF bucket_at_ok [OF ok(1), of t key]] bucket_at_ok [OF ok(1), of t key]
    by (simp add: bucket_ok_def)
  moreover have "(of_nat (admitted (fst (run_requests rs r))) :: rat) =
      of_bool (fst (take_token ?b)) + of_nat (admitted (fst (run_requests rs' ?r')))"
    by (simp add: Cons x k admitted_def case_prod_beta Allow_def)
  moreover have "refill_room t1 (rl_rate r) (snd (take_token ?b)) \<le>
      of_int (t1 - t0) / of_int second * rl_rate r * rounding_slack"
    using last t t01 rate unfolding refill_room_def second_def rounding_slack_def
    by (intro mult_right_mono divide_right_mono) simp_all
  moreover have "of_nat (length rs') * (2 * (rl_burst r / 2 ^ 53)) + rl_burst r / 2 ^ 53 \<le>
      of_nat (length rs) * rl_burst r / 2 ^ 52"
    using burst by (simp add: Cons field_simps)
  ultimately show ?thesis by linarith
qed

section \<open>Eviction\<close>

lemma GCOnce_config [simp]:
  "rl_rate (GCOnce now r) = rl_rate r" "rl_burst (GCOnce now r) = rl_burst r"
  by (simp_all add: GCOnce_def)

definition evicts :: "time \<Rightarrow> rate_limiter \<Rightarrow> token_bucket \<Rightarrow> bool" where
  "evicts now r b \<longleftrightarrow> rl_idle_ttl r \<noteq> 0 \<and> rl_idle_ttl r < time_sub now (tb_last b)"

lemma GCOnce_lookup:
  "limiter_ok r \<Longrightarrow> map_of (rl_buckets (GCOnce now r)) k =
     (case map_of (rl_buckets r) k of
        None \<Rightarrow> None | Some b \<Rightarrow> if evicts now r b then None else Some b)"
  by (auto simp: GCOnce_def evicts_def limiter_ok_def map_of_filter_value split: option.split)

text \<open>A bucket idle for longer than it takes to fill is full at its next use.\<close>

lemma refill_full:
  assumes ok: "limiter_ok r" and burst: "f64_exact (rl_burst r)" "0 < rl_burst r"
    and idle: "0 \<le> rl_idle_ttl r" "rl_idle_ttl r \<le> max_int64"
      "rl_burst r \<le> seconds (rl_idle_ttl r) * rl_rate r"
    and b: "bucket_ok (rl_burst r) b" and late: "rl_idle_ttl r \<le> time_sub now (tb_last b)"
  shows "refill (rl_rate r) (rl_burst r) now b = \<lparr>tb_tokens = rl_burst r, tb_last = now\<rparr>"
proof -
  let ?e = "seconds (time_sub now (tb_last b))"
  have rate: "0 \<le> rl_rate r" using ok by (simp add: limiter_ok_def)
  have "time_sub now (tb_last b) \<le> max_int64" by (simp add: time_sub_def min_int64_def max_int64_def)
  then have e: "seconds (rl_idle_ttl r) \<le> ?e" using idle late by (intro seconds_mono)
  have "0 < seconds (rl_idle_ttl r) * rl_rate r" using idle(3) burst(2) by linarith
  then have pos: "0 < seconds (rl_idle_ttl r)" using rate by (simp add: zero_less_mult_iff)
  have "rl_burst r \<le> ?e * rl_rate r" using idle(3) mult_right_mono [OF e rate] by linarith
  then have "rl_burst r \<le> f64 (?e * rl_rate r)" using burst(1) by (rule fl.exact_le_rnd)
  then have "rl_burst r \<le> tb_tokens b + f64 (?e * rl_rate r)" using b by (simp add: bucket_ok_def)
  then have "rl_burst r \<le> f64 (tb_tokens b + f64 (?e * rl_rate r))" using burst(1) by (rule fl.exact_le_rnd)
  moreover have "0 < ?e" using e pos by linarith
  ultimately show ?thesis by (simp add: refill_def Let_def)
qed

section \<open>Properties\<close>

text \<open>The life of a limiter before the window: requests of any clients and sweeps of the eviction.\<close>

datatype limiter_event = Arrival time string | Sweep time

fun limiter_life :: "limiter_event list \<Rightarrow> rate_limiter \<Rightarrow> rate_limiter" where
  "limiter_life [] r = r"
| "limiter_life (Arrival t k # es) r = limiter_life es (snd (Allow t k r))"
| "limiter_life (Sweep t # es) r = limiter_life es (GCOnce t r)"

lemma limiter_life_config [simp]:
  "rl_rate (limiter_life es r) = rl_rate r \<and> rl_burst (limiter_life es r) = rl_burst r"
  by (induction es r rule: limiter_life.induct) simp_all

lemma limiter_ok_life [keeps]:
  "limiter_ok r \<Longrightarrow> f64_exact (rl_burst r) \<Longrightarrow> limiter_ok (limiter_life es r)"
  by (induction es r rule: limiter_life.induct) (simp_all add: keeps)

lemma admitted_of_key: "length (filter (\<lambda>d. d = (key, True)) ds) = admitted (filter (\<lambda>d. fst d = key) ds)"
  unfolding admitted_def filter_filter by (intro arg_cong [where f = length] filter_cong) auto

text \<open>
  C17. Throughput: whatever requests and evictions a limiter has seen before, over any window from
  \<open>t0\<close> to \<open>t1\<close> in which it serves requests of any clients in any order, one client has at most burst
  plus rate times the seconds of the window admitted, up to \<^verbatim>\<open>float64\<close> rounding (a relative error of
  \<open>2^-50\<close> on the refill and \<open>2^-52\<close> of the burst for each of the client's requests). An idle period
  before the window earns no more than one burst. The burst is a number \<^verbatim>\<open>float64\<close> holds exactly, as
  every configured one is; an eviction inside the window changes no decision (\<open>gc_unobservable\<close>).
\<close>

theorem limiter_throughput_bounded:
  assumes "0 \<le> rate" "0 < burst" "f64_exact burst" "t0 \<le> t1"
    and "\<forall>x \<in> set rs. snd x = key \<longrightarrow> t0 \<le> fst x \<and> fst x \<le> t1"
  shows "of_nat (length (filter (\<lambda>d. d = (key, True))
      (fst (run_requests rs (limiter_life before (NewRateLimiter rate burst ttl)))))) \<le>
    burst + of_int (t1 - t0) / of_int second * rate * (1 + 1 / 2 ^ 50) +
    of_nat (length (filter (\<lambda>x. snd x = key) rs)) * burst / 2 ^ 52"
proof -
  let ?r = "limiter_life before (NewRateLimiter rate burst ttl)"
  have "filter (\<lambda>d. fst d = key) (fst (run_requests rs ?r)) =
      fst (run_requests (filter (\<lambda>x. snd x = key) rs) ?r)"
    by (simp add: run_requests_decisions limiter.decisions_of_key [OF refl])
  moreover have "limiter_ok ?r"
    using assms by (intro limiter_ok_life limiter_ok_new) simp_all
  ultimately show ?thesis
    using run_window_of_key [of ?r t0 t1 "filter (\<lambda>x. snd x = key) rs" key] assms
    by (simp add: admitted_of_key rounding_slack_def)
qed

text \<open>
  The gate's limiter of \<open>main\<close> (10 a second, burst 20), two hours after its last request: 1000 requests of
  one client at one instant, between those of another.
\<close>

theorem limiter_throughput_bounded_witness:
  "length (filter (\<lambda>d. d = (''10.0.0.1'', True))
      (fst (run_requests (concat (replicate 1000 [(120 * minute, ''10.0.0.1''), (120 * minute, ''10.0.0.2'')]))
        (limiter_life [Arrival 0 ''10.0.0.1'', Sweep (5 * minute)] (NewRateLimiter 10 20 (10 * minute)))))) \<le> 20"
proof -
  let ?rs = "concat (replicate 1000 [(120 * minute, ''10.0.0.1''), (120 * minute, ''10.0.0.2'')])"
  have n: "length (filter (\<lambda>x. snd x = ''10.0.0.1'')
      (concat (replicate n [(120 * minute, ''10.0.0.1''), (120 * minute, ''10.0.0.2'')]))) = n" for n
    by (induction n) simp_all
  have "(of_nat (length (filter (\<lambda>d. d = (''10.0.0.1'', True))
      (fst (run_requests ?rs
        (limiter_life [Arrival 0 ''10.0.0.1'', Sweep (5 * minute)] (NewRateLimiter 10 20 (10 * minute))))))) :: rat) \<le>
    20 + of_int (120 * minute - 120 * minute) / of_int second * 10 * (1 + 1 / 2 ^ 50) +
      of_nat (length (filter (\<lambda>x. snd x = ''10.0.0.1'') ?rs)) * 20 / 2 ^ 52"
    by (rule limiter_throughput_bounded) (use f64_exact_int [of 20] in auto)
  also have "\<dots> < 21" by (simp add: n)
  finally show ?thesis by simp
qed

text \<open>
  Per-key isolation: in any interleaving of requests of many clients, the decisions one client
  sees are exactly those it would see if it were alone, whatever the others send.
\<close>

theorem limiter_keys_independent:
  "filter (\<lambda>d. fst d = k) (fst (run_requests rs r)) =
   fst (run_requests (filter (\<lambda>q. snd q = k) rs) r)"
  by (simp add: run_requests_decisions limiter.decisions_of_key [OF refl])

text \<open>
  Eviction is unobservable: when the idle time refills a whole bucket, a request after
  \<open>GCOnce\<close> gets the decision, and leaves the bucket, it would have without the eviction.
\<close>

theorem gc_unobservable:
  assumes ok: "limiter_ok r" and burst: "f64_exact (rl_burst r)" "0 < rl_burst r"
    and idle: "0 \<le> rl_idle_ttl r" "rl_idle_ttl r \<le> max_int64"
      "rl_burst r \<le> seconds (rl_idle_ttl r) * rl_rate r"
    and le: "now \<le> now'"
  shows "fst (Allow now' k (GCOnce now r)) = fst (Allow now' k r) \<and>
    map_of (rl_buckets (snd (Allow now' k (GCOnce now r)))) k = map_of (rl_buckets (snd (Allow now' k r))) k"
proof -
  have "bucket_at (GCOnce now r) now' k = bucket_at r now' k"
  proof (cases "map_of (rl_buckets r) k")
    case None
    then show ?thesis by (simp add: bucket_at_def GCOnce_lookup [OF ok])
  next
    case (Some b)
    show ?thesis
    proof (cases "evicts now r b")
      case False
      then show ?thesis using Some by (simp add: bucket_at_def GCOnce_lookup [OF ok])
    next
      case True
      then have "rl_idle_ttl r \<le> time_sub now' (tb_last b)"
        using time_sub_mono [OF le, of "tb_last b"] by (simp add: evicts_def)
      with refill_full [OF ok burst idle map_of_bucket_ok [OF ok Some]]
      have "refill (rl_rate r) (rl_burst r) now' b = \<lparr>tb_tokens = rl_burst r, tb_last = now'\<rparr>" .
      then show ?thesis using True Some by (simp add: bucket_at_def GCOnce_lookup [OF ok])
    qed
  qed
  then show ?thesis by (simp add: Allow_decision Allow_lookup)
qed

theorem gc_unobservable_witness:
  "fst (Allow (20 * minute) ''a'' (GCOnce (15 * minute) (snd (Allow 0 ''a'' (NewRateLimiter 10 20 (10 * minute)))))) =
   fst (Allow (20 * minute) ''a'' (snd (Allow 0 ''a'' (NewRateLimiter 10 20 (10 * minute)))))"
proof -
  let ?r = "snd (Allow 0 ''a'' (NewRateLimiter 10 20 (10 * minute)))"
  have cfg: "rl_burst ?r = 20" "rl_rate ?r = 10" "rl_idle_ttl ?r = 10 * minute"
    by (simp_all add: NewRateLimiter_def)
  have ok: "limiter_ok ?r"
    using f64_exact_int [of 20]
    by (intro limiter_ok_Allow limiter_ok_new) (simp_all add: NewRateLimiter_def)
  have s: "seconds (10 * minute) = 600" by code_simp
  show ?thesis
    using gc_unobservable [OF ok, of "15 * minute" "20 * minute" "''a''"] f64_exact_int [of 20] s
    by (simp add: cfg duration_defs max_int64_def)
qed

text \<open>
  The middleware refuses with 429 exactly the requests the limiter refuses for the client's
  address, and a refused request never reaches the wrapped handler: its state is untouched.
\<close>

theorem middleware_gates_handler:
  "MiddlewareWithTrust inner trustXFF now req (r, s) =
     (if fst (Allow now (clientIP req trustXFF) r)
      then (fst (inner req s), (snd (Allow now (clientIP req trustXFF) r), snd (inner req s)))
      else (http_error ''rate limit exceeded'' 429, (snd (Allow now (clientIP req trustXFF) r), s)))"
  by (simp add: MiddlewareWithTrust_def case_prod_beta StatusTooManyRequests_def)

text \<open>
  Without a trusted proxy the key is the TCP peer: two requests from one peer share a bucket
  whatever \<open>X-Forwarded-For\<close> they carry.
\<close>

theorem untrusted_key_ignores_headers:
  "clientIP (req\<lparr>req_header := h\<rparr>) False = clientIP req False"
  by (simp add: clientIP_def Let_def split: option.split)

end
