(* ===== verification/Usage_Meter.thy ===== *)
theory Usage_Meter
  imports Egress_Receiver
begin

text \<open>
  The meet-usage webhook receiver (\<^verbatim>\<open>internal/wrap/usage.go\<close>): it verifies room and participant
  events, accumulates participant-minutes per room and reports them when the room finishes. Minutes
  are \<^verbatim>\<open>float64\<close>. The reporter is a parameter acting on its own state. The lemmas show that what is
  reported is what the metrics count, that rooms and tenants do not influence each other, that
  redeliveries do not bill twice, and that the idempotency key identifies the room lifecycle.
\<close>

section \<open>State\<close>

record room_usage =
  ru_tenant :: string
  ru_short_room :: string
  ru_started_at :: time
  ru_live :: "(string, time) go_map"
  ru_accum_min :: rat
  ru_peak_live :: int
  ru_joins_total :: int

type_synonym usage_rooms = "(string, room_usage) go_map"

record usage_report =
  ur_account :: string
  ur_kind :: string
  ur_count :: int
  ur_key :: string

text \<open>The reporter's \<open>Report\<close>; \<open>None\<close> is the nil reporter.\<close>

type_synonym 'q reporter = "(usage_report \<Rightarrow> 'q \<Rightarrow> 'q) option"

record 'q usage_state =
  us_rooms :: usage_rooms
  us_metrics :: "metrics option"
  us_reports :: 'q

datatype usage_config_error = UsageNilTenant | UsageMissingKeySecret

definition NewUsageReceiver ::
  "tenant option \<Rightarrow> string \<Rightarrow> string \<Rightarrow> metrics option \<Rightarrow> 'q \<Rightarrow> usage_config_error + tenant \<times> 'q usage_state" where
  "NewUsageReceiver tenant apiKey apiSecret m q =
     (case tenant of
        None \<Rightarrow> Inl UsageNilTenant
      | Some T \<Rightarrow>
          if apiKey = [] \<or> apiSecret = [] then Inl UsageMissingKeySecret
          else Inr (T, \<lparr>us_rooms = [], us_metrics = m, us_reports = q\<rparr>))"

definition UsageKindMeetMinutes :: string where
  "UsageKindMeetMinutes = ''meet_minutes''"

definition UsageWebhookPath :: string where
  "UsageWebhookPath = ''/v1/usage/webhook''"

section \<open>Minutes\<close>

text \<open>\<open>Duration.Minutes\<close> of a positive duration.\<close>

definition minutes :: "duration \<Rightarrow> rat" where
  "minutes d = f64 (f64 (of_int (d div minute)) + f64 (f64 (of_int (d mod minute)) / 60000000000))"

definition minutesBetween :: "time \<Rightarrow> time \<Rightarrow> rat" where
  "minutesBetween start end' =
     (let d = time_sub end' start in if d \<le> 0 then 0 else minutes d)"

definition roundMinutes :: "rat \<Rightarrow> int" where
  "roundMinutes m = (if m \<le> 0 then 0 else \<lfloor>f64 (m + 1/2)\<rfloor>)"

text \<open>\<open>int64\<close> of a \<^verbatim>\<open>float64\<close> truncates toward zero.\<close>

definition trunc :: "rat \<Rightarrow> int" where
  "trunc x = (if 0 \<le> x then \<lfloor>x\<rfloor> else \<lceil>x\<rceil>)"

definition roundFloat :: "rat \<Rightarrow> rat" where
  "roundFloat f = f64 (f64 (of_int (trunc (f64 (f64 (f * 100) + 1/2)))) / 100)"

definition unixOrZero :: "time \<Rightarrow> int" where
  "unixOrZero t = (if t = time_zero then 0 else time_unix t)"

definition idempotencyKeyFor :: "string \<Rightarrow> string \<Rightarrow> time \<Rightarrow> time \<Rightarrow> string" where
  "idempotencyKeyFor tenant shortRoom startedAt finishedAt =
     ''meet:'' @ tenant @ '':'' @ shortRoom @ '':'' @ show_int (unixOrZero startedAt) @ '':'' @
     show_int (time_unix finishedAt)"

section \<open>Events\<close>

definition newRoomUsage :: "string \<Rightarrow> string \<Rightarrow> room_usage" where
  "newRoomUsage tenant short =
     \<lparr>ru_tenant = tenant, ru_short_room = short, ru_started_at = time_zero, ru_live = [],
      ru_accum_min = 0, ru_peak_live = 0, ru_joins_total = 0\<rparr>"

definition roomFor :: "time \<Rightarrow> string \<Rightarrow> string \<Rightarrow> string \<Rightarrow> usage_rooms \<Rightarrow> room_usage" where
  "roomFor now fullRoom tenant short rooms =
     (case map_of rooms fullRoom of
        Some ru \<Rightarrow> ru
      | None \<Rightarrow> (newRoomUsage tenant short)\<lparr>ru_started_at := now\<rparr>)"

definition join_participant :: "time \<Rightarrow> string \<Rightarrow> room_usage \<Rightarrow> room_usage" where
  "join_participant now identity ru =
     (if identity = [] then ru
      else
        let ru = (case map_of (ru_live ru) identity of
                    Some _ \<Rightarrow> ru
                  | None \<Rightarrow> ru\<lparr>ru_live := put identity now (ru_live ru),
                               ru_joins_total := ru_joins_total ru + 1\<rparr>)
        in if ru_peak_live ru < int (length (ru_live ru))
           then ru\<lparr>ru_peak_live := int (length (ru_live ru))\<rparr> else ru)"

definition leave_participant :: "time \<Rightarrow> string \<Rightarrow> room_usage \<Rightarrow> room_usage" where
  "leave_participant now identity ru =
     (if identity = [] then ru
      else case map_of (ru_live ru) identity of
        None \<Rightarrow> ru
      | Some joined \<Rightarrow> ru\<lparr>ru_accum_min := f64 (ru_accum_min ru + minutesBetween joined now),
                          ru_live := remove_key identity (ru_live ru)\<rparr>)"

text \<open>
  The sum over the participants still live, in the order in which the map is iterated: \<open>iter\<close>
  permutes the entries.
\<close>

definition accrue_live ::
  "((string \<times> time) list \<Rightarrow> (string \<times> time) list) \<Rightarrow> time \<Rightarrow> room_usage \<Rightarrow> rat" where
  "accrue_live iter now ru =
     foldl (\<lambda>a (_, joined). f64 (a + minutesBetween joined now)) (ru_accum_min ru) (iter (ru_live ru))"

text \<open>
  \<open>apply\<close>, atomic under the receiver's mutex. The clock is read once before the lock (\<open>now\<close>) and
  again when \<open>roomFor\<close> creates a room (\<open>now'\<close>).
\<close>

definition apply_event ::
  "'q reporter \<Rightarrow> ((string \<times> time) list \<Rightarrow> (string \<times> time) list) \<Rightarrow> time \<Rightarrow> time \<Rightarrow>
     string \<Rightarrow> string \<Rightarrow> string \<Rightarrow> string \<Rightarrow> string \<Rightarrow> 'q usage_state \<Rightarrow> 'q usage_state" where
  "apply_event rep iter now now' event fullRoom tenant short identity u =
     (if event = ''room_started'' then
        let ru = (case map_of (us_rooms u) fullRoom of Some ru \<Rightarrow> ru | None \<Rightarrow> newRoomUsage tenant short)
        in u\<lparr>us_rooms := put fullRoom (ru\<lparr>ru_started_at := now\<rparr>) (us_rooms u),
             us_metrics := ObserveMeetRoom MeetRoomStarted (us_metrics u)\<rparr>
      else if event = ''participant_joined'' then
        u\<lparr>us_rooms := put fullRoom
          (join_participant now identity (roomFor now' fullRoom tenant short (us_rooms u))) (us_rooms u)\<rparr>
      else if event = ''participant_left'' then
        u\<lparr>us_rooms := put fullRoom
          (leave_participant now identity (roomFor now' fullRoom tenant short (us_rooms u))) (us_rooms u)\<rparr>
      else if event = ''room_finished'' then
        (case map_of (us_rooms u) fullRoom of
           None \<Rightarrow> u\<lparr>us_metrics := ObserveMeetRoom MeetRoomFinished (us_metrics u)\<rparr>
         | Some ru \<Rightarrow>
             let mins = roundMinutes (accrue_live iter now ru);
                 m = ObserveMeetMinutes (ru_tenant ru) mins
                       (ObserveMeetRoom MeetRoomFinished (us_metrics u));
                 q = (case rep of
                        None \<Rightarrow> us_reports u
                      | Some report \<Rightarrow>
                          if 0 < mins then
                            report \<lparr>ur_account = ru_tenant ru, ur_kind = UsageKindMeetMinutes, ur_count = mins,
                              ur_key = idempotencyKeyFor (ru_tenant ru) (ru_short_room ru) (ru_started_at ru) now\<rparr>
                              (us_reports u)
                          else us_reports u)
             in u\<lparr>us_rooms := remove_key fullRoom (us_rooms u), us_metrics := m, us_reports := q\<rparr>)
      else u)"

section \<open>The webhook handler and the admin read\<close>

record usage_body =
  ub_event :: string
  ub_room_name :: string
  ub_identity :: string

definition usage_room_fields :: "string \<Rightarrow> (json \<Rightarrow> usage_body \<Rightarrow> usage_body option) option" where
  "usage_room_fields k =
     (if k = ''name'' then Some (\<lambda>v e. map_option (\<lambda>s. e\<lparr>ub_room_name := s\<rparr>) (dec_string v (ub_room_name e)))
      else None)"

definition usage_participant_fields :: "string \<Rightarrow> (json \<Rightarrow> usage_body \<Rightarrow> usage_body option) option" where
  "usage_participant_fields k =
     (if k = ''identity'' then Some (\<lambda>v e. map_option (\<lambda>s. e\<lparr>ub_identity := s\<rparr>) (dec_string v (ub_identity e)))
      else None)"

definition usage_fields :: "string \<Rightarrow> (json \<Rightarrow> usage_body \<Rightarrow> usage_body option) option" where
  "usage_fields k =
     (if k = ''event'' then Some (\<lambda>v e. map_option (\<lambda>s. e\<lparr>ub_event := s\<rparr>) (dec_string v (ub_event e)))
      else if k = ''room'' then Some (dec_struct usage_room_fields)
      else if k = ''participant'' then Some (dec_struct usage_participant_fields)
      else None)"

definition decode_usage :: "string \<Rightarrow> usage_body option" where
  "decode_usage raw =
     (case json_parse raw of
        None \<Rightarrow> None
      | Some v \<Rightarrow> dec_struct usage_fields v \<lparr>ub_event = [], ub_room_name = [], ub_identity = []\<rparr>)"

definition usage_handle ::
  "tenant \<Rightarrow> (http_request \<Rightarrow> string option) \<Rightarrow> 'q reporter \<Rightarrow>
     ((string \<times> time) list \<Rightarrow> (string \<times> time) list) \<Rightarrow> time \<Rightarrow> time \<Rightarrow> http_request \<Rightarrow>
     'q usage_state \<Rightarrow> http_response \<times> 'q usage_state" where
  "usage_handle T receive rep iter now now' req u =
     (if req_method req \<noteq> ''POST''
      then (http_error ''method not allowed'' StatusMethodNotAllowed, u)
      else case receive_capped receive req of
        None \<Rightarrow> (http_error ''unauthorized'' StatusUnauthorized, u)
      | Some raw \<Rightarrow>
          (case decode_usage raw of
             None \<Rightarrow> (http_error ''bad event'' StatusBadRequest, u)
           | Some ev \<Rightarrow>
               if ub_room_name ev = [] then (no_content, u)
               else case SplitRoom T (ub_room_name ev) of
                 Inl _ \<Rightarrow> (http_error ''bad room'' StatusBadRequest, u)
               | Inr (tenant, short) \<Rightarrow>
                   (no_content, apply_event rep iter now now' (ub_event ev) (ub_room_name ev) tenant short
                      (ub_identity ev) u)))"

record room_usage_snapshot =
  rs_tenant :: string
  rs_room :: string
  rs_started_at :: int
  rs_participant_minutes :: rat
  rs_live_participants :: int
  rs_peak_participants :: int
  rs_total_joins :: int

definition Snapshot ::
  "((string \<times> time) list \<Rightarrow> (string \<times> time) list) \<Rightarrow> time \<Rightarrow> string \<Rightarrow> usage_rooms \<Rightarrow> room_usage_snapshot list" where
  "Snapshot iter now tenant rooms =
     map (\<lambda>(_, ru). \<lparr>rs_tenant = ru_tenant ru, rs_room = ru_short_room ru,
            rs_started_at = unixOrZero (ru_started_at ru),
            rs_participant_minutes = roundFloat (accrue_live iter now ru),
            rs_live_participants = int (length (ru_live ru)), rs_peak_participants = ru_peak_live ru,
            rs_total_joins = ru_joins_total ru\<rparr>)
       (filter (\<lambda>(_, ru). ru_tenant ru = tenant) rooms)"

section \<open>Runs of the receiver\<close>

text \<open>A delivery: the request, the two clock readings and the order in which the maps iterate.\<close>

record usage_delivery =
  ud_req :: http_request
  ud_now :: time
  ud_now_room :: time
  ud_iter :: "(string \<times> time) list \<Rightarrow> (string \<times> time) list"

definition usage_step ::
  "tenant \<Rightarrow> (http_request \<Rightarrow> string option) \<Rightarrow> 'q reporter \<Rightarrow> usage_delivery \<Rightarrow> 'q usage_state \<Rightarrow> 'q usage_state" where
  "usage_step T receive rep d u =
     snd (usage_handle T receive rep (ud_iter d) (ud_now d) (ud_now_room d) (ud_req d) u)"

definition usage_run ::
  "tenant \<Rightarrow> (http_request \<Rightarrow> string option) \<Rightarrow> 'q reporter \<Rightarrow> usage_delivery list \<Rightarrow> 'q usage_state \<Rightarrow> 'q usage_state" where
  "usage_run T receive rep ds u = fold (usage_step T receive rep) ds u"

text \<open>A reporter that keeps every report, and what it bills a tenant.\<close>

definition log_reporter :: "usage_report list reporter" where
  "log_reporter = Some (\<lambda>r q. q @ [r])"

definition billed :: "string \<Rightarrow> usage_report list \<Rightarrow> int" where
  "billed t q = sum_list (map ur_count (filter (\<lambda>r. ur_account r = t) q))"

definition usage_start :: "metrics option \<Rightarrow> usage_report list usage_state" where
  "usage_start m = \<lparr>us_rooms = [], us_metrics = m, us_reports = []\<rparr>"

lemma billed_Nil [simp]: "billed t [] = 0"
  by (simp add: billed_def)

lemma billed_snoc [simp]: "billed t (q @ [r]) = billed t q + (if ur_account r = t then ur_count r else 0)"
  by (simp add: billed_def)

declare update_update_same [simp]

lemma filter_put:
  assumes "\<not> P (k, v)" "\<And>w. map_of m k = Some w \<Longrightarrow> \<not> P (k, w)" "go_map m"
  shows "filter P (put k v m) = filter P m"
  using assms by (induction m) (auto split: if_splits)

lemma filter_remove_key:
  assumes "\<And>w. map_of m k = Some w \<Longrightarrow> \<not> P (k, w)" "go_map m"
  shows "filter P (remove_key k m) = filter P m"
proof -
  have "P x \<Longrightarrow> fst x \<noteq> k" if "x \<in> set m" for x
    using assms that by (cases x) (auto simp: map_of_eq_Some_iff)
  then have "k \<noteq> fst x \<and> P x \<longleftrightarrow> P x" if "x \<in> set m" for x
    using that by metis
  then show ?thesis unfolding AList.delete_eq split_beta filter_filter by (intro filter_cong) simp_all
qed

section \<open>The invariant of the tracked rooms\<close>

definition room_usage_ok :: "room_usage \<Rightarrow> bool" where
  "room_usage_ok ru \<longleftrightarrow> go_map (ru_live ru) \<and> int (length (ru_live ru)) \<le> ru_peak_live ru \<and>
     ru_peak_live ru \<le> ru_joins_total ru \<and> 0 \<le> ru_accum_min ru"

definition usage_rooms_ok :: "tenant \<Rightarrow> usage_rooms \<Rightarrow> bool" where
  "usage_rooms_ok T rooms \<longleftrightarrow> go_map rooms \<and>
     (\<forall>room ru. map_of rooms room = Some ru \<longrightarrow>
        SplitRoom T room = Inr (ru_tenant ru, ru_short_room ru) \<and> room_usage_ok ru)"

definition usage_inv :: "tenant \<Rightarrow> usage_report list usage_state \<Rightarrow> bool" where
  "usage_inv T u \<longleftrightarrow> usage_rooms_ok T (us_rooms u) \<and>
     list_all (\<lambda>r. validateTenant T (ur_account r) = None \<and> ur_kind r = UsageKindMeetMinutes \<and> 0 < ur_count r) (us_reports u)"

lemma usage_rooms_okD:
  "usage_rooms_ok T rooms \<Longrightarrow> map_of rooms room = Some ru \<Longrightarrow>
     SplitRoom T room = Inr (ru_tenant ru, ru_short_room ru) \<and> room_usage_ok ru"
  by (simp add: usage_rooms_ok_def)

lemma minutes_nonneg: "0 \<le> d \<Longrightarrow> 0 \<le> minutes d"
  unfolding minutes_def
  by (intro fl.rnd_nonneg add_nonneg_nonneg divide_nonneg_nonneg)
    (simp_all add: pos_imp_zdiv_nonneg_iff duration_defs)

lemma minutesBetween_nonneg: "0 \<le> minutesBetween a b"
  using minutes_nonneg [of "time_sub b a"] by (auto simp: minutesBetween_def Let_def time_sub_def min_int64_def max_int64_def)

lemma newRoomUsage_owner [simp]:
  "ru_tenant (newRoomUsage t r) = t" "ru_short_room (newRoomUsage t r) = r"
  by (simp_all add: newRoomUsage_def)

lemma newRoomUsage_ok [keeps]:
  "room_usage_ok (newRoomUsage t r)" "room_usage_ok ((newRoomUsage t r)\<lparr>ru_started_at := now\<rparr>)"
  by (simp_all add: newRoomUsage_def room_usage_ok_def)

lemma started_ok [keeps]: "room_usage_ok ru \<Longrightarrow> room_usage_ok (ru\<lparr>ru_started_at := now\<rparr>)"
  by (simp add: room_usage_ok_def)

lemma join_participant_ok [keeps]: "room_usage_ok ru \<Longrightarrow> room_usage_ok (join_participant now i ru)"
  by (auto simp: join_participant_def room_usage_ok_def Let_def length_put map_of_eq_None_iff split: option.split)

lemma length_remove_key: "length (remove_key k m) \<le> length m"
  by (simp add: AList.delete_eq)

lemma leave_participant_ok [keeps]: "room_usage_ok ru \<Longrightarrow> room_usage_ok (leave_participant now i ru)"
  using length_remove_key [of i "ru_live ru"]
  by (auto simp: leave_participant_def room_usage_ok_def minutesBetween_nonneg intro!: fl.rnd_nonneg add_nonneg_nonneg
      split: option.split)

lemma participant_owner [simp]:
  "ru_tenant (join_participant now i ru) = ru_tenant ru" "ru_short_room (join_participant now i ru) = ru_short_room ru"
  "ru_tenant (leave_participant now i ru) = ru_tenant ru" "ru_short_room (leave_participant now i ru) = ru_short_room ru"
  by (auto simp: join_participant_def leave_participant_def Let_def split: option.split)

lemma usage_rooms_ok_put [keeps]:
  "usage_rooms_ok T rooms \<Longrightarrow> SplitRoom T room = Inr (ru_tenant ru, ru_short_room ru) \<Longrightarrow> room_usage_ok ru \<Longrightarrow>
     usage_rooms_ok T (put room ru rooms)"
  by (auto simp: usage_rooms_ok_def)

lemma usage_rooms_ok_remove [keeps]: "usage_rooms_ok T rooms \<Longrightarrow> usage_rooms_ok T (remove_key room rooms)"
  by (auto simp: usage_rooms_ok_def)

lemma roomFor_owner:
  assumes "usage_rooms_ok T rooms" "SplitRoom T room = Inr (t, r)"
  shows "ru_tenant (roomFor now room t r rooms) = t \<and> ru_short_room (roomFor now room t r rooms) = r \<and>
    room_usage_ok (roomFor now room t r rooms)"
  using assms usage_rooms_okD [OF assms(1), of room]
  by (auto simp: roomFor_def newRoomUsage_ok split: option.split)

text \<open>What a finish does, from the entry it closes.\<close>

definition finish_minutes ::
  "((string \<times> time) list \<Rightarrow> (string \<times> time) list) \<Rightarrow> time \<Rightarrow> string \<Rightarrow> 'q usage_state \<Rightarrow> int" where
  "finish_minutes iter now room u =
     (case map_of (us_rooms u) room of None \<Rightarrow> 0 | Some ru \<Rightarrow> roundMinutes (accrue_live iter now ru))"

lemma apply_event_rooms [keeps]:
  assumes ok: "usage_rooms_ok T (us_rooms u)" and split: "SplitRoom T room = Inr (t, r)"
  shows "usage_rooms_ok T (us_rooms (apply_event rep iter now now' ev room t r i u))"
proof -
  note owner = roomFor_owner [OF ok split]
  have start: "usage_rooms_ok T (put room
      ((case map_of (us_rooms u) room of Some ru \<Rightarrow> ru | None \<Rightarrow> newRoomUsage t r)\<lparr>ru_started_at := now\<rparr>) (us_rooms u))"
    using usage_rooms_okD [OF ok, of room] split
    by (intro usage_rooms_ok_put ok) (auto simp: keeps split: option.split)
  show ?thesis
    using start ok
    by (auto simp: apply_event_def Let_def owner split keeps split: option.split intro!: usage_rooms_ok_put [OF ok])
qed

lemma tracked_tenant_valid:
  "usage_rooms_ok T rooms \<Longrightarrow> map_of rooms room = Some ru \<Longrightarrow>
     validateTenant T (ru_tenant ru) = None \<and> ru_tenant ru \<noteq> []"
  by (auto dest!: usage_rooms_okD SplitRoom_sound dest: valid_tenant_nonempty)

lemma apply_event_keeps [keeps]:
  assumes "usage_inv T u" "SplitRoom T room = Inr (t, r)"
  shows "usage_inv T (apply_event log_reporter iter now now' ev room t r i u)"
proof -
  have ok: "usage_rooms_ok T (us_rooms u)" using assms(1) by (simp add: usage_inv_def)
  show ?thesis
    using assms(1) apply_event_rooms [OF ok assms(2), of log_reporter iter now now' ev i] tracked_tenant_valid [OF ok]
    by (auto simp: usage_inv_def apply_event_def Let_def log_reporter_def split: option.split)
qed

lemma usage_handle_cases:
  obtains "snd (usage_handle T receive rep iter now now' req u) = u"
  | raw ev t r where "receive_capped receive req = Some raw" "decode_usage raw = Some ev"
      "SplitRoom T (ub_room_name ev) = Inr (t, r)" "ub_room_name ev \<noteq> []"
      "usage_handle T receive rep iter now now' req u =
         (no_content, apply_event rep iter now now' (ub_event ev) (ub_room_name ev) t r (ub_identity ev) u)"
proof (cases "snd (usage_handle T receive rep iter now now' req u) = u")
  case True
  then show thesis by (rule that(1))
next
  case False
  then show thesis
    by (auto simp: usage_handle_def split: if_splits option.splits sum.splits intro!: that(2))
qed

lemma usage_step_keeps [keeps]: "usage_inv T u \<Longrightarrow> usage_inv T (usage_step T receive log_reporter d u)"
  unfolding usage_step_def
  by (rule usage_handle_cases [of T receive log_reporter "ud_iter d" "ud_now d" "ud_now_room d" "ud_req d" u])
    (auto simp: apply_event_keeps)

lemma usage_run_induct:
  assumes "P u" "\<And>d u. P u \<Longrightarrow> P (usage_step T receive rep d u)"
  shows "P (usage_run T receive rep ds u)"
  unfolding usage_run_def using assms by (induction ds arbitrary: u) auto

lemma usage_inv_start [keeps]: "usage_inv T (usage_start m)"
  by (simp add: usage_inv_def usage_start_def usage_rooms_ok_def)

lemma usage_inv_run [keeps]: "usage_inv T (usage_run T receive log_reporter ds (usage_start m))"
  by (rule usage_run_induct) (simp_all add: keeps)

section \<open>Lemmas on the metrics and the reports\<close>

definition minutes_metric :: "metrics option \<Rightarrow> string \<Rightarrow> u64" where
  "minutes_metric mo t = (case mo of None \<Rightarrow> 0 | Some m \<Rightarrow> count_at (m_meetMinutes m) t)"

lemma minutes_metric_room [simp]: "minutes_metric (ObserveMeetRoom ev mo) = minutes_metric mo"
  by (auto simp: minutes_metric_def ObserveMeetRoom_def split: option.split)

lemma minutes_metric_minutes [simp]:
  "minutes_metric (ObserveMeetMinutes s n mo) t =
     (if mo \<noteq> None \<and> s = t \<and> s \<noteq> [] \<and> 0 < n then minutes_metric mo t + word_of_int n else minutes_metric mo t)"
  by (auto simp: minutes_metric_def ObserveMeetMinutes_def split: option.split)

lemma observe_None [simp]:
  "ObserveMeetRoom ev mo = None \<longleftrightarrow> mo = None" "ObserveMeetMinutes t n mo = None \<longleftrightarrow> mo = None"
  by (simp_all add: ObserveMeetRoom_def ObserveMeetMinutes_def)

definition billing_agrees :: "usage_report list usage_state \<Rightarrow> bool" where
  "billing_agrees u \<longleftrightarrow> us_metrics u \<noteq> None \<and>
     (\<forall>t. minutes_metric (us_metrics u) t = word_of_int (billed t (us_reports u)))"

lemma billing_agrees_event:
  assumes "usage_inv T u" "billing_agrees u"
  shows "billing_agrees (apply_event log_reporter iter now now' ev room t r i u)"
proof -
  have "ru_tenant ru \<noteq> []" if "map_of (us_rooms u) room = Some ru" for ru
    using assms(1) usage_rooms_okD [OF _ that, of T]
    by (auto simp: usage_inv_def dest!: SplitRoom_sound valid_tenant_nonempty)
  with assms(2) show ?thesis
    by (cases "map_of (us_rooms u) room")
      (simp_all add: apply_event_def billing_agrees_def Let_def log_reporter_def del: not_None_eq)
qed

lemma billing_agrees_step:
  "usage_inv T u \<and> billing_agrees u \<Longrightarrow>
     usage_inv T (usage_step T receive log_reporter d u) \<and> billing_agrees (usage_step T receive log_reporter d u)"
proof (elim conjE, intro conjI usage_step_keeps)
  assume u: "usage_inv T u" "billing_agrees u"
  show "billing_agrees (usage_step T receive log_reporter d u)"
    unfolding usage_step_def
    by (rule usage_handle_cases [of T receive log_reporter "ud_iter d" "ud_now d" "ud_now_room d" "ud_req d" u])
      (simp_all add: u billing_agrees_event [OF u])
qed

section \<open>Lemmas on rounding\<close>

lemma int_exact: "0 \<le> i \<Longrightarrow> i < 2 ^ 30 \<Longrightarrow> f64_exact (of_int i)"
  by (rule f64_exact_int) simp

lemma half_exact: "0 \<le> i \<Longrightarrow> i < 2 ^ 30 \<Longrightarrow> f64_exact (of_int i + 1/2)"
  unfolding f64_exact_def
  by (intro exI [of _ "2 * i + 1"] exI [of _ "-1"]) (simp add: field_simps power_int_minus)

lemma f64_int [simp]: "0 \<le> i \<Longrightarrow> i < 2 ^ 30 \<Longrightarrow> f64 (of_int i) = of_int i"
  by (intro f64_exact_fix int_exact)

lemma f64_half [simp]: "0 \<le> i \<Longrightarrow> i < 2 ^ 30 \<Longrightarrow> f64 (of_int i + 1/2) = of_int i + 1/2"
  by (intro f64_exact_fix half_exact)

lemma f64_between:
  assumes "f64_exact a" "f64_exact b" "a \<le> x" "x \<le> b" shows "a \<le> f64 x \<and> f64 x \<le> b"
  using assms fl.rnd_le_exact fl.exact_le_rnd by blast

lemma minutes_bounds:
  assumes "0 \<le> d" "d \<le> max_int64"
  defines "q \<equiv> d div minute" and "r \<equiv> d mod minute"
  shows "of_int q \<le> minutes d \<and> minutes d \<le> of_int q + 1 \<and> 0 \<le> q \<and> q < 2 ^ 28 \<and>
    (r = 0 \<longrightarrow> minutes d = of_int q) \<and> (30 * second \<le> r \<longrightarrow> of_int q + 1/2 \<le> minutes d)"
proof -
  have q: "0 \<le> q" "q < 2 ^ 28" using assms unfolding q_def by (simp_all add: duration_defs max_int64_def)
  have r: "0 \<le> r" "r < 60000000000" unfolding r_def by (simp_all add: duration_defs)
  have fr: "f64 (of_int r) = of_int r" using r by (intro f64_exact_fix f64_exact_int) simp
  let ?x = "f64 (of_int r / 60000000000)"
  have m: "minutes d = f64 (of_int q + ?x)"
    using q fr by (simp add: minutes_def flip: q_def r_def)
  have x: "0 \<le> ?x \<and> ?x \<le> 1"
    using f64_between [of 0 1 "of_int r / 60000000000"] f64_exact_int [of 0] f64_exact_int [of 1] r
    by simp
  have "of_int q \<le> minutes d \<and> minutes d \<le> of_int (q + 1)"
    unfolding m using q x by (intro f64_between int_exact) simp_all
  moreover have "minutes d = of_int q" if "r = 0" using that q m by simp
  moreover have "of_int q + 1/2 \<le> minutes d" if "30 * second \<le> r"
  proof -
    have "(1/2 :: rat) \<le> of_int r / 60000000000"
      using that r by (simp add: duration_defs field_simps)
    then have "1/2 \<le> ?x" using half_exact [of 0] by (intro fl.exact_le_rnd) simp_all
    then show ?thesis unfolding m using half_exact [of q] q by (intro fl.exact_le_rnd) simp_all
  qed
  ultimately show ?thesis using q by simp
qed

lemma roundMinutes_bounds:
  assumes "of_int q \<le> m" "m \<le> of_int q + 1" "0 \<le> q" "q < 2 ^ 28"
  shows "q \<le> roundMinutes m \<and> roundMinutes m \<le> q + 1 \<and>
    (m = of_int q \<longrightarrow> roundMinutes m = q) \<and> (of_int q + 1/2 \<le> m \<longrightarrow> roundMinutes m = q + 1)"
proof (cases "m \<le> 0")
  case True
  then have "m = 0" "q = 0" using assms by linarith+
  then show ?thesis by (simp add: roundMinutes_def)
next
  case False
  have "of_int q + 1/2 \<le> f64 (m + 1/2) \<and> f64 (m + 1/2) \<le> of_int (q + 1) + 1/2"
    using assms by (intro f64_between half_exact) simp_all
  then have "q \<le> \<lfloor>f64 (m + 1/2)\<rfloor>" "\<lfloor>f64 (m + 1/2)\<rfloor> \<le> q + 1" by (auto simp: le_floor_iff floor_le_iff)
  moreover have "\<lfloor>f64 (m + 1/2)\<rfloor> = q" if "m = of_int q"
    using that assms by (simp add: floor_eq_iff)
  moreover have "q + 1 \<le> \<lfloor>f64 (m + 1/2)\<rfloor>" if "of_int q + 1/2 \<le> m"
  proof -
    have "of_int (q + 1) \<le> f64 (m + 1/2)"
      using that assms int_exact [of "q + 1"] by (intro fl.exact_le_rnd) simp_all
    then show ?thesis by (simp add: le_floor_iff)
  qed
  ultimately show ?thesis using False assms by (auto simp: roundMinutes_def)
qed

section \<open>Lemmas on the idempotency key\<close>

lemma append_char_last:
  assumes "x @ c # xs = y @ c # ys" "c \<notin> set xs" "c \<notin> set ys"
  shows "x = y \<and> xs = ys"
proof -
  have "rev xs @ c # rev x = rev ys @ c # rev y" using arg_cong [OF assms(1), of rev] by simp
  then have "takeWhile (\<lambda>z. z \<noteq> c) (rev xs @ c # rev x) = takeWhile (\<lambda>z. z \<noteq> c) (rev ys @ c # rev y)" by simp
  then have "rev xs = rev ys" using assms(2,3) by simp
  then show ?thesis using assms(1) by simp
qed

lemma show_int_no_colon [simp]: "CHR '':'' \<notin> set (show_int i)"
  using show_int_chars [of "CHR '':''" i] by (auto simp: is_digit_def)

lemma tenant_no_colon: "validateTenant T t = None \<Longrightarrow> CHR '':'' \<notin> set t"
  by (auto simp: validateTenant_None_iff list_all_iff tenant_byte_def char_between_def less_eq_char_def)

lemma key_inject:
  assumes "CHR '':'' \<notin> set t" "CHR '':'' \<notin> set u"
  shows "idempotencyKeyFor t r a b = idempotencyKeyFor u s c d \<longleftrightarrow>
    t = u \<and> r = s \<and> unixOrZero a = unixOrZero c \<and> time_unix b = time_unix d" (is "?l \<longleftrightarrow> ?r")
proof
  assume ?l
  let ?k = "\<lambda>t r a b. (t @ CHR '':'' # r @ CHR '':'' # show_int (unixOrZero a)) @ CHR '':'' # show_int (time_unix b)"
  have "?k t r a b = ?k u s c d" using \<open>?l\<close> by (simp add: idempotencyKeyFor_def)
  from append_char_last [OF this] have b: "show_int (time_unix b) = show_int (time_unix d)"
    and "t @ CHR '':'' # r @ CHR '':'' # show_int (unixOrZero a) = u @ CHR '':'' # s @ CHR '':'' # show_int (unixOrZero c)"
    by simp_all
  then have "(t @ CHR '':'' # r) @ CHR '':'' # show_int (unixOrZero a) = (u @ CHR '':'' # s) @ CHR '':'' # show_int (unixOrZero c)"
    by simp
  from append_char_last [OF this] have a: "show_int (unixOrZero a) = show_int (unixOrZero c)"
    and tr: "t @ CHR '':'' # r = u @ CHR '':'' # s" by simp_all
  from tr have "t = u \<and> r = s"
    using assms tr takeWhile_neq_append [OF assms(1), of r] takeWhile_neq_append [OF assms(2), of s] by simp
  with a b show ?r by simp
qed (simp add: idempotencyKeyFor_def)

section \<open>One session\<close>

text \<open>A room that opens, is joined by one participant, left again and finishes.\<close>

definition session_events :: "string \<Rightarrow> time \<Rightarrow> time \<Rightarrow> string \<Rightarrow> string \<Rightarrow> string \<Rightarrow> usage_report list usage_state \<Rightarrow> usage_report list usage_state" where
  "session_events room t0 t1 t r i u =
     apply_event log_reporter (\<lambda>l. l) t1 t1 ''room_finished'' room t r []
       (apply_event log_reporter (\<lambda>l. l) t1 t1 ''participant_left'' room t r i
         (apply_event log_reporter (\<lambda>l. l) t0 t0 ''participant_joined'' room t r i
           (apply_event log_reporter (\<lambda>l. l) t0 t0 ''room_started'' room t r [] u)))"

lemma session_events_billed:
  assumes "map_of (us_rooms u) room = None" "i \<noteq> []"
  shows "billed t (us_reports (session_events room t0 t1 t r i u)) =
    billed t (us_reports u) + roundMinutes (minutesBetween t0 t1)"
proof -
  have "f64 (minutesBetween t0 t1) = minutesBetween t0 t1"
    by (simp add: minutesBetween_def Let_def minutes_def)
  moreover have "roundMinutes x = 0 \<or> 0 < roundMinutes x" for x
  proof (cases "x \<le> 0")
    case False
    then have "0 \<le> f64 (x + 1/2)" by (intro fl.rnd_nonneg) simp
    then have "0 \<le> \<lfloor>f64 (x + 1/2)\<rfloor>" by simp
    then show ?thesis using False by (simp only: roundMinutes_def if_False) linarith
  qed (simp add: roundMinutes_def)
  ultimately show ?thesis
    using assms by (auto simp: session_events_def apply_event_def Let_def roomFor_def newRoomUsage_def
        join_participant_def leave_participant_def accrue_live_def log_reporter_def)
qed

section \<open>Properties\<close>

text \<open>
  What is reported for billing is what the metrics count: after any sequence of webhook deliveries
  to a new receiver, authentic or not, in any order and with any redeliveries, the minutes reported for
  a tenant sum to that tenant's minutes counter (modulo the counter's 64 bits).
\<close>

theorem billed_minutes_match_metrics:
  "let u = usage_run T receive log_reporter ds (usage_start (Some NewMetrics))
   in minutes_metric (us_metrics u) t = word_of_int (billed t (us_reports u))"
proof -
  have "billing_agrees (usage_start (Some NewMetrics))"
    by (simp add: billing_agrees_def usage_start_def minutes_metric_def NewMetrics_def count_at_def)
  then have "usage_inv T u \<and> billing_agrees u"
    if "u = usage_run T receive log_reporter ds (usage_start (Some NewMetrics))" for u
    unfolding that
    by (intro usage_run_induct [where P = "\<lambda>u. usage_inv T u \<and> billing_agrees u"] billing_agrees_step)
      (simp_all add: keeps)
  then show ?thesis by (simp add: billing_agrees_def Let_def)
qed

text \<open>
  C38. Tenants cannot be billed or observed across the boundary: an event applied to a room owned by
  one tenant leaves the reports billed to every other tenant, its minutes counter, and what the admin
  surface shows it of its rooms exactly as they were.
\<close>

theorem usage_isolated_between_tenants:
  assumes "u = usage_run T receive log_reporter ds (usage_start m)"
    and "SplitRoom T room = Inr (t, r)" and "other \<noteq> t"
  shows "let v = apply_event log_reporter iter now now' ev room t r i u
    in Snapshot iter' later other (us_rooms v) = Snapshot iter' later other (us_rooms u) \<and>
       billed other (us_reports v) = billed other (us_reports u) \<and>
       minutes_metric (us_metrics v) other = minutes_metric (us_metrics u) other"
proof -
  have ok: "usage_rooms_ok T (us_rooms u)" and gm: "go_map (us_rooms u)"
    using usage_inv_run [of T receive ds m] assms(1) by (auto simp: usage_inv_def usage_rooms_ok_def)
  have own: "ru_tenant ru = t" if "map_of (us_rooms u) room = Some ru" for ru
    using usage_rooms_okD [OF ok that] assms(2) by simp
  note rf = roomFor_owner [OF ok assms(2)]
  have put: "filter (\<lambda>(_, ru). ru_tenant ru = other) (put room ru (us_rooms u)) =
      filter (\<lambda>(_, ru). ru_tenant ru = other) (us_rooms u)" if "ru_tenant ru = t" for ru
    using that own assms(3) gm by (intro filter_put) auto
  have del: "filter (\<lambda>(_, ru). ru_tenant ru = other) (remove_key room (us_rooms u)) =
      filter (\<lambda>(_, ru). ru_tenant ru = other) (us_rooms u)"
    using own assms(3) gm by (intro filter_remove_key) auto
  show ?thesis
    using assms(3) own by (cases "map_of (us_rooms u) room")
      (simp_all add: apply_event_def Snapshot_def Let_def log_reporter_def put del rf)
qed

theorem usage_isolated_between_tenants_witness:
  "us_reports (apply_event log_reporter (\<lambda>l. l) 9 9 ''room_finished'' ''acme:a'' ''acme'' ''a'' [] (usage_start None)) = [] \<and>
   billed ''bcorp'' (us_reports (apply_event log_reporter (\<lambda>l. l) 9 9 ''room_finished'' ''acme:a'' ''acme'' ''a'' [] (usage_start None))) = 0"
proof -
  have u: "usage_start None = usage_run \<lparr>tenant_sep = CHR '':''\<rparr> (\<lambda>_. None) log_reporter [] (usage_start None)"
    by (simp add: usage_run_def)
  have "SplitRoom \<lparr>tenant_sep = CHR '':''\<rparr> ''acme:a'' = Inr (''acme'', ''a'')" by code_simp
  from usage_isolated_between_tenants [OF u this, of "''bcorp''" "\<lambda>l. l" 9 9 "''room_finished''" "[]" "\<lambda>l. l" 9]
  show ?thesis by (simp add: Let_def) (simp add: usage_start_def apply_event_def)
qed

text \<open>
  A redelivered webhook does not bill twice: applying a join, a leave or a finish a second time, at
  any later clock reading, changes neither the tracked rooms nor the reports.
\<close>

theorem redelivery_bills_nothing:
  "(let once = apply_event rep iter n1 n2 ''participant_joined'' room t r i u
    in apply_event rep iter' n3 n4 ''participant_joined'' room t r i once = once) \<and>
   (let once = apply_event rep iter n1 n2 ''participant_left'' room t r i u
    in apply_event rep iter' n3 n4 ''participant_left'' room t r i once = once) \<and>
   (let once = apply_event rep iter n1 n2 ''room_finished'' room t r i u;
        twice = apply_event rep iter' n3 n4 ''room_finished'' room t r i once
    in us_rooms twice = us_rooms once \<and> us_reports twice = us_reports once)"
proof -
  have join: "join_participant n3 i (join_participant n1 i ru) = join_participant n1 i ru" for ru
    by (auto simp: join_participant_def Let_def split: option.split)
  have leave: "leave_participant n3 i (leave_participant n1 i ru) = leave_participant n1 i ru" for ru
    by (auto simp: leave_participant_def split: option.split)
  have for_put: "roomFor n4 room t r (put room ru rooms) = ru" for ru rooms
    by (simp add: roomFor_def)
  show ?thesis
    by (cases "map_of (us_rooms u) room")
      (simp_all add: apply_event_def Let_def for_put join leave)
qed

text \<open>
  The idempotency key identifies the room lifecycle: for well-formed tenants two keys are equal
  exactly when tenant, room and the start and finish seconds are equal, whatever colons and digits the
  room name holds; a retry of the same finish repeats the key and no other lifecycle can produce it.
\<close>

theorem idempotency_key_identifies_lifecycle:
  assumes "validateTenant T t = None" "validateTenant T u = None"
  shows "idempotencyKeyFor t r a b = idempotencyKeyFor u s c d \<longleftrightarrow>
    t = u \<and> r = s \<and> unixOrZero a = unixOrZero c \<and> time_unix b = time_unix d"
  using assms by (intro key_inject) (auto dest: tenant_no_colon)

theorem idempotency_key_identifies_lifecycle_witness:
  "idempotencyKeyFor ''acme'' ''a:1'' (unix_time 5) (unix_time 9) \<noteq> idempotencyKeyFor ''acme'' ''a'' (unix_time 1) (unix_time 9)"
proof -
  have "validateTenant \<lparr>tenant_sep = CHR '':''\<rparr> ''acme'' = None" by code_simp
  from idempotency_key_identifies_lifecycle [OF this this] show ?thesis by simp
qed

text \<open>
  C37. What one session bills: a participant present for \<open>d\<close> nanoseconds is billed its whole minutes or
  one more: exactly the whole minutes when nothing is left over, one more when at least thirty seconds
  are left over. The rounding of the floating-point steps never costs or gains a further minute.
\<close>

theorem session_bill_bounds:
  assumes "map_of (us_rooms u) room = None" "i \<noteq> []" "0 < d" "d \<le> max_int64"
  shows "let n = billed t (us_reports (session_events room t0 (t0 + d) t r i u)) - billed t (us_reports u);
             q = d div minute; rest = d mod minute
    in q \<le> n \<and> n \<le> q + 1 \<and> (if rest = 0 then n = q else if 30 * second \<le> rest then n = q + 1 else True)"
proof -
  let ?n = "roundMinutes (minutes d)"
  have n: "billed t (us_reports (session_events room t0 (t0 + d) t r i u)) - billed t (us_reports u) = ?n"
    using assms by (simp add: session_events_billed minutesBetween_def time_sub_exact Let_def)
  have "0 \<le> d" using assms(3) by simp
  note b = minutes_bounds [OF this assms(4)]
  show ?thesis
    using b roundMinutes_bounds [of "d div minute" "minutes d"] unfolding n Let_def by auto
qed

theorem session_bill_bounds_witness:
  "billed ''acme'' (us_reports (session_events ''acme:a'' 0 (90 * second) ''acme'' ''a'' ''p'' (usage_start None))) = 2"
  using session_bill_bounds [of "usage_start None" "''acme:a''" "''p''" "90 * second" "''acme''" 0 "''a''"]
  by (simp add: usage_start_def duration_defs max_int64_def Let_def)

text \<open>
  A join that arrives after the room has finished starts tracking the room anew: whatever was
  tracked before, after the finish and a late (re)delivered join the room is live again with that
  participant in it, so it keeps accruing minutes until a room of the same name finishes.
\<close>

theorem late_join_revives_finished_room:
  assumes "i \<noteq> []"
  shows "let finished = apply_event rep iter n0 n0 ''room_finished'' room t r [] u;
             late = apply_event rep iter' n1 n1 ''participant_joined'' room t r i finished
    in map_of (us_rooms finished) room = None \<and>
       map_of (us_rooms late) room =
         Some \<lparr>ru_tenant = t, ru_short_room = r, ru_started_at = n1, ru_live = [(i, n1)],
           ru_accum_min = 0, ru_peak_live = 1, ru_joins_total = 1\<rparr>"
  using assms by (cases "map_of (us_rooms u) room")
    (simp_all add: apply_event_def Let_def roomFor_def newRoomUsage_def join_participant_def)

theorem late_join_revives_finished_room_witness:
  "us_rooms (apply_event None (\<lambda>l. l) 7 7 ''participant_joined'' ''acme:a'' ''acme'' ''a'' ''p''
     (apply_event None (\<lambda>l. l) 5 5 ''room_finished'' ''acme:a'' ''acme'' ''a'' [] (usage_start None))) \<noteq> []"
  using late_join_revives_finished_room [of "''p''" None "\<lambda>l. l" 5 "''acme:a''" "''acme''" "''a''" "usage_start None" "\<lambda>l. l" 7]
  by (auto simp: Let_def)

end
