(* ===== verification/Token_Validator.thy ===== *)
theory Token_Validator
  imports Metrics Go_Std
begin

text \<open>
  The token validator (\<^verbatim>\<open>internal/wrap/auth.go\<close>): parse, api key, signature, remaining lifetime,
  grants, room, tenant binding, in the order of the source, with the deferred outcome metric. The
  JWT library (\<^verbatim>\<open>livekit/protocol/auth\<close>) is the record \<open>token_lib\<close> of its three entry points, a
  parameter of the model. The lemmas give the exact acceptance condition and show that an accepted
  token is bound to the one tenant that owns its room.
\<close>

section \<open>The token library and its values\<close>

record video_grant =
  vg_room :: string
  vg_room_record :: bool

record claim_grants =
  cg_identity :: string
  cg_name :: string
  cg_video :: "video_grant option"

text \<open>\<open>Expiry\<close> is the instant \<open>claims.Expiry.Time()\<close>; a nil claims pointer or expiry is \<open>None\<close>.\<close>

record jwt_claims =
  claim_expiry :: "time option"

record 'tok token_lib =
  lib_parse :: "string \<Rightarrow> string + 'tok"
  lib_api_key :: "'tok \<Rightarrow> string"
  lib_verify :: "time \<Rightarrow> 'tok \<Rightarrow> string \<Rightarrow> string + jwt_claims option \<times> claim_grants option"

section \<open>The validator\<close>

datatype token_error =
    ErrTokenMalformed string
  | ErrTokenWrongAPIKey
  | ErrTokenSignatureBad string
  | ErrTokenMissingGrants
  | ErrTokenMissingRoom
  | ErrTokenWrongTenant
  | ErrTokenMissingTenant
  | ErrTokenRoomMalformed tenant_error
  | ErrTokenTTLTooLong

fun TokenOutcomeFromErr :: "token_error option \<Rightarrow> token_outcome" where
  "TokenOutcomeFromErr None = TokenOutcomeOK"
| "TokenOutcomeFromErr (Some (ErrTokenMalformed _)) = TokenOutcomeMalformed"
| "TokenOutcomeFromErr (Some ErrTokenWrongAPIKey) = TokenOutcomeWrongAPIKey"
| "TokenOutcomeFromErr (Some (ErrTokenSignatureBad _)) = TokenOutcomeSignatureBad"
| "TokenOutcomeFromErr (Some ErrTokenMissingGrants) = TokenOutcomeMissingGrants"
| "TokenOutcomeFromErr (Some ErrTokenMissingRoom) = TokenOutcomeMissingRoom"
| "TokenOutcomeFromErr (Some ErrTokenWrongTenant) = TokenOutcomeWrongTenant"
| "TokenOutcomeFromErr (Some ErrTokenMissingTenant) = TokenOutcomeMissingTenant"
| "TokenOutcomeFromErr (Some (ErrTokenRoomMalformed _)) = TokenOutcomeRoomMalformed"
| "TokenOutcomeFromErr (Some ErrTokenTTLTooLong) = TokenOutcomeOther"

definition ObserveTokenValidation :: "token_error option \<Rightarrow> metrics_op" where
  "ObserveTokenValidation err = ObserveTokenOutcome (TokenOutcomeFromErr err)"

record validator =
  val_api_key :: string
  val_api_secret :: string
  val_tenant :: tenant
  val_max_ttl :: duration

record validated_token =
  vt_identity :: string
  vt_tenant :: string
  vt_room :: string
  vt_full_room :: string
  vt_grants :: claim_grants

definition MaxTokenTTLEnv :: string where
  "MaxTokenTTLEnv = ''MEET_MAX_TOKEN_TTL''"

definition DefaultMaxTokenTTL :: duration where
  "DefaultMaxTokenTTL = 6 * hour"

datatype validator_config_error = EmptyAPIKey | EmptyAPISecret | NilTenant

definition max_token_ttl :: "(string \<Rightarrow> string) \<Rightarrow> duration" where
  "max_token_ttl env =
     (let raw = trim_space (env MaxTokenTTLEnv)
      in if raw \<noteq> [] then
           (case ParseDuration raw of
              Some d \<Rightarrow> if 0 < d then d else DefaultMaxTokenTTL
            | None \<Rightarrow> DefaultMaxTokenTTL)
         else DefaultMaxTokenTTL)"

definition NewValidator ::
  "(string \<Rightarrow> string) \<Rightarrow> string \<Rightarrow> string \<Rightarrow> tenant option \<Rightarrow> validator_config_error + validator" where
  "NewValidator env apiKey apiSecret tenant =
     (if apiKey = [] then Inl EmptyAPIKey
      else if apiSecret = [] then Inl EmptyAPISecret
      else case tenant of
        None \<Rightarrow> Inl NilTenant
      | Some T \<Rightarrow> Inr \<lparr>val_api_key = apiKey, val_api_secret = apiSecret, val_tenant = T,
                       val_max_ttl = max_token_ttl env\<rparr>)"

definition extractTenantAudience :: "claim_grants option \<Rightarrow> string" where
  "extractTenantAudience g = (case g of None \<Rightarrow> [] | Some g \<Rightarrow> cg_name g)"

definition ttl_too_long :: "validator \<Rightarrow> time \<Rightarrow> jwt_claims option \<Rightarrow> bool" where
  "ttl_too_long v now claims \<longleftrightarrow>
     0 < val_max_ttl v \<and>
     (case claims of
        None \<Rightarrow> False
      | Some c \<Rightarrow> (case claim_expiry c of
            None \<Rightarrow> False
          | Some expiry \<Rightarrow> val_max_ttl v < time_sub expiry now))"

text \<open>
  The body of \<open>Validate\<close>. The clock is read twice: by \<open>Verify\<close> (\<open>now\<close>) and by the lifetime clamp
  (\<open>now'\<close>).
\<close>

definition validate_token ::
  "'tok token_lib \<Rightarrow> validator \<Rightarrow> time \<Rightarrow> time \<Rightarrow> string \<Rightarrow> token_error + validated_token" where
  "validate_token L v now now' raw =
     (case lib_parse L raw of
        Inl e \<Rightarrow> Inl (ErrTokenMalformed e)
      | Inr parsed \<Rightarrow>
          if lib_api_key L parsed \<noteq> val_api_key v then Inl ErrTokenWrongAPIKey
          else case lib_verify L now parsed (val_api_secret v) of
            Inl e \<Rightarrow> Inl (ErrTokenSignatureBad e)
          | Inr (claims, grants) \<Rightarrow>
              if ttl_too_long v now' claims then Inl ErrTokenTTLTooLong
              else case grants of
                None \<Rightarrow> Inl ErrTokenMissingGrants
              | Some g \<Rightarrow> (case cg_video g of
                    None \<Rightarrow> Inl ErrTokenMissingGrants
                  | Some video \<Rightarrow>
                      if vg_room video = [] then Inl ErrTokenMissingRoom
                      else case SplitRoom (val_tenant v) (vg_room video) of
                        Inl e \<Rightarrow> Inl (ErrTokenRoomMalformed e)
                      | Inr (tenantFromRoom, rest) \<Rightarrow>
                          let tenantFromAud = extractTenantAudience grants
                          in if tenantFromAud = [] then Inl ErrTokenMissingTenant
                             else if tenantFromAud \<noteq> tenantFromRoom then Inl ErrTokenWrongTenant
                             else Inr \<lparr>vt_identity = cg_identity g, vt_tenant = tenantFromRoom,
                                       vt_room = rest, vt_full_room = vg_room video,
                                       vt_grants = g\<rparr>))"

definition error_of :: "'e + 'a \<Rightarrow> 'e option" where
  "error_of r = (case r of Inl e \<Rightarrow> Some e | Inr _ \<Rightarrow> None)"

definition Validate ::
  "'tok token_lib \<Rightarrow> validator \<Rightarrow> time \<Rightarrow> time \<Rightarrow> string \<Rightarrow> metrics option \<Rightarrow>
     (token_error + validated_token) \<times> metrics option" where
  "Validate L v now now' raw m =
     (let r = validate_token L v now now' raw in (r, ObserveTokenValidation (error_of r) m))"

section \<open>Acceptance\<close>

lemma error_of_simps [simp]: "error_of (Inl e) = Some e" "error_of (Inr a) = None"
  by (simp_all add: error_of_def)

lemma validate_accepts_iff:
  "validate_token L v now now' raw = Inr vt \<longleftrightarrow>
     (\<exists>tok claims g video.
        lib_parse L raw = Inr tok \<and> lib_api_key L tok = val_api_key v \<and>
        lib_verify L now tok (val_api_secret v) = Inr (claims, Some g) \<and>
        \<not> ttl_too_long v now' claims \<and> cg_video g = Some video \<and>
        SplitRoom (val_tenant v) (vg_room video) = Inr (cg_name g, vt_room vt) \<and>
        vt = \<lparr>vt_identity = cg_identity g, vt_tenant = cg_name g, vt_room = vt_room vt,
              vt_full_room = vg_room video, vt_grants = g\<rparr>)"
  (is "?lhs \<longleftrightarrow> ?rhs")
proof
  assume ?lhs
  then show ?rhs
    by (auto simp: validate_token_def extractTenantAudience_def Let_def
        split: if_splits sum.splits option.splits prod.splits)
next
  assume ?rhs
  then obtain tok claims g video where *:
    "lib_parse L raw = Inr tok" "lib_api_key L tok = val_api_key v"
    "lib_verify L now tok (val_api_secret v) = Inr (claims, Some g)"
    "\<not> ttl_too_long v now' claims" "cg_video g = Some video"
    and split: "SplitRoom (val_tenant v) (vg_room video) = Inr (cg_name g, vt_room vt)"
    and vt: "vt = \<lparr>vt_identity = cg_identity g, vt_tenant = cg_name g, vt_room = vt_room vt,
              vt_full_room = vg_room video, vt_grants = g\<rparr>"
    by blast
  have "vg_room video \<noteq> []" and "cg_name g \<noteq> []"
    using split valid_tenant_nonempty by (auto simp: split_room_iff)
  with * split show ?lhs
    by (subst vt) (simp add: validate_token_def extractTenantAudience_def)
qed

lemma validate_accepts_room:
  assumes "validate_token L v now now' raw = Inr vt"
  shows "EnforceRoom (val_tenant v) (vt_tenant vt) (vt_full_room vt) = None"
    and "vt_full_room vt = vt_tenant vt @ Separator (val_tenant v) @ vt_room vt"
    and "vt_tenant vt = cg_name (vt_grants vt)" and "vt_tenant vt \<noteq> []" and "vt_room vt \<noteq> []"
    and "\<exists>video. cg_video (vt_grants vt) = Some video \<and> vg_room video = vt_full_room vt"
proof -
  obtain g video where split: "SplitRoom (val_tenant v) (vg_room video) = Inr (cg_name g, vt_room vt)"
    and vid: "cg_video g = Some video"
    and vt: "vt = \<lparr>vt_identity = cg_identity g, vt_tenant = cg_name g, vt_room = vt_room vt,
              vt_full_room = vg_room video, vt_grants = g\<rparr>"
    using assms unfolding validate_accepts_iff by blast
  have f: "vt_tenant vt = cg_name g" "vt_full_room vt = vg_room video" "vt_grants vt = g"
    by (subst vt, simp)+
  show "EnforceRoom (val_tenant v) (vt_tenant vt) (vt_full_room vt) = None"
    using split f by (auto simp: EnforceRoom_None_split)
  show "vt_full_room vt = vt_tenant vt @ Separator (val_tenant v) @ vt_room vt"
    and "vt_tenant vt = cg_name (vt_grants vt)" and "vt_tenant vt \<noteq> []" and "vt_room vt \<noteq> []"
    and "\<exists>video. cg_video (vt_grants vt) = Some video \<and> vg_room video = vt_full_room vt"
    using split f vid valid_tenant_nonempty by (auto simp: split_room_iff)
qed

lemma keeps_validate [keeps]:
  "metrics_opt_ok m \<Longrightarrow> metrics_opt_ok (snd (Validate L v now now' raw m))"
  by (simp add: Validate_def Let_def ObserveTokenValidation_def keeps_counters)

lemma max_token_ttl_pos: "0 < max_token_ttl env"
  by (simp add: max_token_ttl_def Let_def DefaultMaxTokenTTL_def duration_defs split: option.split)

lemma NewValidator_ttl:
  "NewValidator env k s t = Inr v \<Longrightarrow> 0 < val_max_ttl v \<and> val_max_ttl v = max_token_ttl env"
  by (auto simp: NewValidator_def max_token_ttl_pos split: if_splits option.splits)

section \<open>Properties\<close>

text \<open>
  C3. Acceptance is exact: \<open>Validate\<close> returns a token precisely when the token parses, was minted
  with the known key, verifies, does not outlive the ceiling, carries a video grant whose room
  splits into a tenant and a room, and its tenant audience equals that tenant; the result is that
  tenant, that room and those grants. Every other token is an error.
\<close>

theorem validate_accepts_exactly:
  "fst (Validate L v now now' raw m) = Inr vt \<longleftrightarrow>
     (\<exists>tok claims g video.
        lib_parse L raw = Inr tok \<and> lib_api_key L tok = val_api_key v \<and>
        lib_verify L now tok (val_api_secret v) = Inr (claims, Some g) \<and>
        \<not> ttl_too_long v now' claims \<and> cg_video g = Some video \<and>
        SplitRoom (val_tenant v) (vg_room video) = Inr (cg_name g, vt_room vt) \<and>
        vt = \<lparr>vt_identity = cg_identity g, vt_tenant = cg_name g, vt_room = vt_room vt,
              vt_full_room = vg_room video, vt_grants = g\<rparr>)"
  by (simp add: Validate_def Let_def validate_accepts_iff)

text \<open>
  A concrete token library for the witnesses: the raw token is the room, its tenant audience is
  \<open>acme\<close>, it was minted with key \<open>k\<close> and expires at the given instant.
\<close>

definition sample_lib :: "time \<Rightarrow> string token_lib" where
  "sample_lib expiry = \<lparr>lib_parse = Inr, lib_api_key = (\<lambda>_. ''k''),
     lib_verify = (\<lambda>now raw _. Inr (Some \<lparr>claim_expiry = Some expiry\<rparr>,
       Some \<lparr>cg_identity = ''u'', cg_name = ''acme'',
             cg_video = Some \<lparr>vg_room = raw, vg_room_record = True\<rparr>\<rparr>))\<rparr>"

definition sample_validator :: validator where
  "sample_validator = \<lparr>val_api_key = ''k'', val_api_secret = ''s'',
     val_tenant = \<lparr>tenant_sep = CHR '':''\<rparr>, val_max_ttl = DefaultMaxTokenTTL\<rparr>"

definition sample_token :: "string \<Rightarrow> validated_token" where
  "sample_token rest = \<lparr>vt_identity = ''u'', vt_tenant = ''acme'', vt_room = rest,
     vt_full_room = ''acme:'' @ rest, vt_grants = \<lparr>cg_identity = ''u'', cg_name = ''acme'',
       cg_video = Some \<lparr>vg_room = ''acme:'' @ rest, vg_room_record = True\<rparr>\<rparr>\<rparr>"

lemma sample_token_accepted:
  "fst (Validate (sample_lib 0) sample_validator 0 0 ''acme:standup'' None) = Inr (sample_token ''standup'')"
  by code_simp

text \<open>
  The tenant binding: an accepted token names, in its audience, the one tenant that owns the
  room it grants, so no other tenant passes the room gate for that room.
\<close>

theorem accepted_token_bound_to_tenant:
  assumes "fst (Validate L v now now' raw m) = Inr vt"
  shows "vt_tenant vt = cg_name (vt_grants vt) \<and>
    vt_full_room vt = vt_tenant vt @ Separator (val_tenant v) @ vt_room vt \<and>
    (EnforceRoom (val_tenant v) u (vt_full_room vt) = None \<longleftrightarrow> u = vt_tenant vt)"
proof -
  have ok: "validate_token L v now now' raw = Inr vt"
    using assms by (simp add: Validate_def Let_def)
  note r = validate_accepts_room [OF ok]
  show ?thesis using r(1,2,3) by (auto simp: EnforceRoom_None_split)
qed

theorem accepted_token_bound_to_tenant_witness:
  "EnforceRoom \<lparr>tenant_sep = CHR '':''\<rparr> ''evil'' ''acme:standup'' \<noteq> None"
  using accepted_token_bound_to_tenant [OF sample_token_accepted, of "''evil''"]
  by (simp add: sample_token_def sample_validator_def)

text \<open>
  The lifetime ceiling: a validator built by \<open>NewValidator\<close>, whatever the environment holds,
  only accepts a token with an expiry if that expiry is at most the ceiling ahead of its clock.
\<close>

theorem accepted_token_lifetime_bounded:
  assumes "NewValidator env key secret T = Inr v"
    and "fst (Validate L v now now' raw m) = Inr vt"
    and "lib_parse L raw = Inr tok"
    and "lib_verify L now tok (val_api_secret v) = Inr (Some c, g)" and "claim_expiry c = Some expiry"
  shows "0 < max_token_ttl env \<and> time_sub expiry now' \<le> max_token_ttl env"
proof -
  have "validate_token L v now now' raw = Inr vt"
    using assms(2) by (simp add: Validate_def Let_def)
  then have "\<not> ttl_too_long v now' (Some c)"
    using assms(3,4) unfolding validate_accepts_iff by auto
  then show ?thesis
    using assms(5) NewValidator_ttl [OF assms(1)] by (simp add: ttl_too_long_def)
qed

theorem accepted_token_lifetime_bounded_witness:
  "0 < max_token_ttl (\<lambda>_. '' 90m '') \<and> time_sub (60 * minute) 0 \<le> max_token_ttl (\<lambda>_. '' 90m '')"
proof -
  let ?v = "sample_validator\<lparr>val_max_ttl := 90 * minute\<rparr>"
  have ttl: "max_token_ttl (\<lambda>_. '' 90m '') = 90 * minute" by code_simp
  have v: "NewValidator (\<lambda>_. '' 90m '') ''k'' ''s'' (Some \<lparr>tenant_sep = CHR '':''\<rparr>) = Inr ?v"
    by (simp add: NewValidator_def ttl sample_validator_def)
  have "fst (Validate (sample_lib (60 * minute)) ?v 0 0 ''acme:standup'' None) = Inr (sample_token ''standup'')"
    by code_simp
  from accepted_token_lifetime_bounded [OF v this, of "''acme:standup''" "\<lparr>claim_expiry = Some (60 * minute)\<rparr>"]
  show ?thesis by (simp add: sample_lib_def)
qed

text \<open>
  Every validation is counted once, under the label of its outcome: the counter of that
  outcome grows by one (modulo \<open>2^64\<close>), every other outcome's counter and the rest of the registry
  stay as they were, and success is the only outcome counted as \<open>ok\<close>.
\<close>

theorem validate_counts_outcome:
  "(case Validate L v now now' raw (Some m) of (r, m') \<Rightarrow>
      m' = Some (m\<lparr>m_tokenValidation :=
        bump (token_outcome_label (TokenOutcomeFromErr (error_of r))) (m_tokenValidation m)\<rparr>) \<and>
      (token_outcome_label (TokenOutcomeFromErr (error_of r)) = ''ok'' \<longleftrightarrow> (\<exists>vt. r = Inr vt)))"
proof -
  have "TokenOutcomeFromErr (Some e) \<noteq> TokenOutcomeOK" for e by (cases e) simp_all
  moreover have "token_outcome_label oc = ''ok'' \<longleftrightarrow> oc = TokenOutcomeOK" for oc by (cases oc) simp_all
  ultimately show ?thesis
    by (cases "validate_token L v now now' raw")
      (simp_all add: Validate_def ObserveTokenValidation_def ObserveTokenOutcome_def)
qed

end
