(* ===== verification/Admin_Server.thy ===== *)
theory Admin_Server
  imports Api_Key Room_Service Rate_Limiter Usage_Meter Token_Validator
begin

text \<open>
  The admin surface (\<^verbatim>\<open>internal/wrap/admin.go\<close>, the instrumentation at the end of
  \<^verbatim>\<open>internal/wrap/metrics.go\<close>, \<^verbatim>\<open>internal/wrap/georoute.go\<close>, \<^verbatim>\<open>internal/wrap/healthz.go\<close>): the two
  authentication schemes, the routes, and the handlers that list and delete rooms and show usage. The
  room service is a record of operations, the control plane's HTTP client a parameter. The lemmas show
  who gets past the gate, which rooms a request can list or delete, and what is counted.
\<close>

section \<open>Construction\<close>

record geo_router = geo_region :: string

datatype geo_error = EmptyRegion

definition NewGeoRouter :: "string \<Rightarrow> geo_error + geo_router" where
  "NewGeoRouter region = (if region = [] then Inl EmptyRegion else Inr \<lparr>geo_region = region\<rparr>)"

definition Region :: "geo_router \<Rightarrow> string" where
  "Region g = geo_region g"

definition unknown_version :: string where
  "unknown_version = ''0.0.0-unknown''"

definition NewHealthzHandler :: "string \<Rightarrow> http_request \<Rightarrow> http_response" where
  "NewHealthzHandler version r =
     writeJSON StatusOK (JObj [(''status'', JStr ''ok''),
       (''version'', JStr (if version = [] then unknown_version else version))])"

definition AdminTokenEnv :: string where "AdminTokenEnv = ''MEET_ADMIN_TOKEN''"
definition AdminAddrEnv :: string where "AdminAddrEnv = ''MEET_ADMIN_ADDR''"
definition SubprotocolVersion :: string where "SubprotocolVersion = ''VULOS-MEET/1''"

text \<open>
  The room service as the handlers see it: listing, deleting, and, when the service supports it, the
  participants of every room.
\<close>

record 'r room_service =
  rs_list :: "'r \<Rightarrow> (room_service_error + string list) \<times> 'r"
  rs_delete :: "string \<Rightarrow> 'r \<Rightarrow> room_service_error option \<times> 'r"
  rs_participants :: "('r \<Rightarrow> (room_service_error + room_participants list) \<times> 'r) option"

record 'r admin_server =
  as_tenant :: tenant
  as_room_ops :: "'r room_service"
  as_geo :: geo_router
  as_admin_token :: string
  as_version :: string

datatype admin_error = AdminNilTenant | AdminNilRooms | AdminNilGeo | AdminEmptyToken

definition NewAdminServer ::
  "tenant option \<Rightarrow> 'r room_service option \<Rightarrow> geo_router option \<Rightarrow> string \<Rightarrow> string \<Rightarrow> admin_error + 'r admin_server" where
  "NewAdminServer tenant rooms geo adminToken version =
     (case tenant of None \<Rightarrow> Inl AdminNilTenant
      | Some T \<Rightarrow> (case rooms of None \<Rightarrow> Inl AdminNilRooms
      | Some rs \<Rightarrow> (case geo of None \<Rightarrow> Inl AdminNilGeo
      | Some g \<Rightarrow>
          if adminToken = [] then Inl AdminEmptyToken
          else Inr \<lparr>as_tenant = T, as_room_ops = rs, as_geo = g, as_admin_token = adminToken,
                 as_version = (if version = [] then unknown_version else version)\<rparr>)))"

text \<open>
  What the handlers share: the rooms, the metrics, the introspector. The usage source is what
  \<open>Snapshot\<close> returns at the time of the request.
\<close>

record ('r, 'c) admin_state =
  ad_rooms :: 'r
  ad_metrics :: "metrics option"
  ad_intro :: "'c introspector option"

definition admin_SetMetrics :: "metrics option \<Rightarrow> ('r, 'c) admin_state \<Rightarrow> ('r, 'c) admin_state" where
  "admin_SetMetrics m st = st\<lparr>ad_metrics := m\<rparr>"

definition SetIntrospector :: "'c introspector option \<Rightarrow> ('r, 'c) admin_state \<Rightarrow> ('r, 'c) admin_state" where
  "SetIntrospector i st = st\<lparr>ad_intro := i\<rparr>"

text \<open>The limiter sits around the handlers: the state of the server is the limiter with what they share.\<close>

definition admin_SetRateLimiter ::
  "rate_limiter option \<Rightarrow> rate_limiter option \<times> ('r, 'c) admin_state \<Rightarrow> rate_limiter option \<times> ('r, 'c) admin_state" where
  "admin_SetRateLimiter l st = (l, snd st)"

type_synonym usage_source = "(string \<Rightarrow> room_usage_snapshot list) option"

section \<open>Authentication\<close>

definition padTo :: "string \<Rightarrow> nat \<Rightarrow> string" where
  "padTo b n = (if n \<le> length b then take n b else b @ replicate (n - length b) (CHR 0x00))"

definition constantTimeEqualString :: "string \<Rightarrow> string \<Rightarrow> bool" where
  "constantTimeEqualString a b =
     (if (word_of_int (int (length a)) :: 32 word) \<noteq> word_of_int (int (length b))
      then (let _ = ConstantTimeCompare a (padTo b (length a)) in False)
      else ConstantTimeCompare a b = 1)"

definition adminBearerRaw :: "http_request \<Rightarrow> string" where
  "adminBearerRaw r =
     (let h = header_get r ''Authorization''
      in if \<not> has_prefix h ''Bearer '' then [] else trim_space (drop (length ''Bearer '') h))"

definition checkAdminToken :: "'r admin_server \<Rightarrow> http_request \<Rightarrow> bool" where
  "checkAdminToken s r = constantTimeEqualString (adminBearerRaw r) (as_admin_token s)"

text \<open>\<open>None\<close> lets the request pass, otherwise the response that was written.\<close>

definition checkAuth ::
  "'c key_client \<Rightarrow> 'r admin_server \<Rightarrow> time \<Rightarrow> time \<Rightarrow> http_request \<Rightarrow> 'c introspector option \<Rightarrow>
     http_response option \<times> 'c introspector option" where
  "checkAuth client s now now' r intro =
     (let raw = adminBearerRaw r;
          static = (if \<not> constantTimeEqualString raw (as_admin_token s)
                    then Some (http_error ''unauthorized'' StatusUnauthorized) else None)
      in case intro of
           None \<Rightarrow> (static, None)
         | Some c \<Rightarrow>
             if \<not> has_prefix raw VkPrefix then (static, intro)
             else case Introspect client now now' raw c of
               (Inl _, c') \<Rightarrow> (Some (http_error ''API key validation unavailable'' StatusServiceUnavailable), Some c')
             | (Inr res, c') \<Rightarrow>
                 (if \<not> kr_valid res then Some (http_error ''unauthorized'' StatusUnauthorized)
                  else if \<not> HasProduct ProductMeet res
                  then Some (http_error ''API key not authorized for the meet product'' StatusForbidden)
                  else None, Some c'))"

section \<open>Handlers\<close>

type_synonym ('r, 'c) admin_handler = "http_request \<Rightarrow> ('r, 'c) admin_state \<Rightarrow> http_response \<times> ('r, 'c) admin_state"

definition handleHealth :: "('r, 'c) admin_handler" where
  "handleHealth r st = (writeJSON StatusOK (JObj [(''status'', JStr ''ok'')]), st)"

definition handleInfo :: "'r admin_server \<Rightarrow> ('r, 'c) admin_handler" where
  "handleInfo s r st =
     (writeJSON StatusOK (JObj [(''status'', JStr ''ok''), (''version'', JStr (as_version s)),
        (''region'', JStr (Region (as_geo s))), (''protocol'', JStr SubprotocolVersion),
        (''separator'', JStr (Separator (as_tenant s)))]), st)"

definition refresh_gauges :: "tenant \<Rightarrow> string \<Rightarrow> room_participants list \<Rightarrow> metrics_op" where
  "refresh_gauges T tenant rps m =
     foldl (\<lambda>m rp.
         let pre = tenant @ Separator T
         in if \<not> has_prefix (rp_name rp) pre then m
            else SetParticipantsInRoom tenant (trim_prefix (rp_name rp) pre) (rp_num_participants rp) m)
       (ResetParticipantsForTenant tenant m) rps"

definition refreshParticipantGauges ::
  "'r admin_server \<Rightarrow> string \<Rightarrow> ('r, 'c) admin_state \<Rightarrow> ('r, 'c) admin_state" where
  "refreshParticipantGauges s tenant st =
     (if ad_metrics st = None then st
      else case rs_participants (as_room_ops s) of
        None \<Rightarrow> st
      | Some lister \<Rightarrow>
          (case lister (ad_rooms st) of
             (Inl _, rooms) \<Rightarrow> st\<lparr>ad_rooms := rooms\<rparr>
           | (Inr rps, rooms) \<Rightarrow>
               st\<lparr>ad_rooms := rooms, ad_metrics := refresh_gauges (as_tenant s) tenant rps (ad_metrics st)\<rparr>))"

definition list_response :: "string \<Rightarrow> string list \<Rightarrow> json" where
  "list_response tenant short = JObj [(''tenant'', JStr tenant), (''rooms'', JArr (map JStr short))]"

definition handleListRooms :: "'r admin_server \<Rightarrow> string \<Rightarrow> ('r, 'c) admin_handler" where
  "handleListRooms s tenant r st =
     (case rs_list (as_room_ops s) (ad_rooms st) of
        (Inl _, rooms) \<Rightarrow> (http_error ''list failed'' StatusBadGateway, st\<lparr>ad_rooms := rooms\<rparr>)
      | (Inr all, rooms) \<Rightarrow>
          let mine = FilterRooms (as_tenant s) tenant all;
              short = map (\<lambda>r. trim_prefix r (tenant @ Separator (as_tenant s))) mine;
              m = SetTotalRooms (int (length all)) (SetActiveRooms tenant (int (length short)) (ad_metrics st))
          in (writeJSON StatusOK (list_response tenant short),
              refreshParticipantGauges s tenant (st\<lparr>ad_rooms := rooms, ad_metrics := m\<rparr>)))"

text \<open>
  A \<^verbatim>\<open>float64\<close> as \<^verbatim>\<open>encoding/json\<close> prints it between \<open>1e-6\<close> and \<open>1e21\<close>: the fewest decimal digits that
  read back as the same number.
\<close>

definition json_float :: "rat \<Rightarrow> string" where
  "json_float x =
     (case find (\<lambda>d. f64 (of_int (round_half_even (x * 10 powi d)) / 10 powi d) = x) [-21..20] of
        None \<Rightarrow> []
      | Some d \<Rightarrow>
          let n = round_half_even (x * 10 powi d)
          in if d \<le> 0 then show_int (n * 10 ^ nat (- d))
             else let ip = \<bar>n\<bar> div 10 ^ nat d; fp = show_int (\<bar>n\<bar> mod 10 ^ nat d)
                  in (if n < 0 then ''-'' else []) @ show_int ip @ ''.'' @ replicate (nat d - length fp) (CHR ''0'') @ fp)"

definition snapshot_json :: "room_usage_snapshot \<Rightarrow> json" where
  "snapshot_json rs =
     JObj [(''tenant'', JStr (rs_tenant rs)), (''room'', JStr (rs_room rs)),
       (''started_at'', JNum (show_int (rs_started_at rs))),
       (''participant_minutes'', JNum (json_float (rs_participant_minutes rs))),
       (''live_participants'', JNum (show_int (rs_live_participants rs))),
       (''peak_participants'', JNum (show_int (rs_peak_participants rs))),
       (''total_joins'', JNum (show_int (rs_total_joins rs)))]"

definition handleUsage :: "usage_source \<Rightarrow> string \<Rightarrow> ('r, 'c) admin_handler" where
  "handleUsage usage tenant r st =
     (case usage of
        None \<Rightarrow> (http_error ''usage stats not available'' StatusNotFound, st)
      | Some snap \<Rightarrow>
          (writeJSON StatusOK (JObj [(''tenant'', JStr tenant), (''rooms'', JArr (map snapshot_json (snap tenant)))]), st))"

definition handleDeleteRoom :: "'r admin_server \<Rightarrow> string \<Rightarrow> string \<Rightarrow> ('r, 'c) admin_handler" where
  "handleDeleteRoom s rest tenant r st =
     (case QualifyRoom (as_tenant s) tenant rest of
        Inl _ \<Rightarrow> (http_error ''bad room'' StatusBadRequest, st)
      | Inr full \<Rightarrow>
          if EnforceRoom (as_tenant s) tenant full \<noteq> None then (http_error ''forbidden'' StatusForbidden, st)
          else case rs_delete (as_room_ops s) full (ad_rooms st) of
            (Some _, rooms) \<Rightarrow> (http_error ''delete failed'' StatusBadGateway, st\<lparr>ad_rooms := rooms\<rparr>)
          | (None, rooms) \<Rightarrow> (no_content, st\<lparr>ad_rooms := rooms\<rparr>))"

section \<open>Routing\<close>

definition guarded ::
  "'c key_client \<Rightarrow> 'r admin_server \<Rightarrow> time \<Rightarrow> time \<Rightarrow> ('r, 'c) admin_handler \<Rightarrow> ('r, 'c) admin_handler" where
  "guarded client s now now' inner r st =
     (case checkAuth client s now now' r (ad_intro st) of
        (Some rsp, intro) \<Rightarrow> (rsp, st\<lparr>ad_intro := intro\<rparr>)
      | (None, intro) \<Rightarrow> inner r (st\<lparr>ad_intro := intro\<rparr>))"

definition guardedTenant ::
  "'c key_client \<Rightarrow> 'r admin_server \<Rightarrow> time \<Rightarrow> time \<Rightarrow> string \<Rightarrow> (string \<Rightarrow> ('r, 'c) admin_handler) \<Rightarrow> ('r, 'c) admin_handler" where
  "guardedTenant client s now now' tenant inner =
     guarded client s now now' (\<lambda>r st.
       if validateTenant (as_tenant s) tenant \<noteq> None then (http_error ''bad tenant'' StatusBadRequest, st)
       else inner tenant r st)"

text \<open>
  The routes, in the order of their registration: health, info, the rooms of a tenant, one room, usage.
\<close>

definition admin_patterns :: "mux_pattern list" where
  "admin_patterns =
    [\<lparr>pat_method = Some ''GET'', pat_segments = [Lit ''admin'', Lit ''health''], pat_subtree = False\<rparr>,
     \<lparr>pat_method = Some ''GET'', pat_segments = [Lit ''admin'', Lit ''info''], pat_subtree = False\<rparr>,
     \<lparr>pat_method = Some ''GET'', pat_segments = [Lit ''admin'', Lit ''tenants'', Wild, Lit ''rooms''], pat_subtree = False\<rparr>,
     \<lparr>pat_method = Some ''DELETE'', pat_segments = [Lit ''admin'', Lit ''tenants'', Wild, Lit ''rooms'', Wild], pat_subtree = False\<rparr>,
     \<lparr>pat_method = Some ''GET'', pat_segments = [Lit ''admin'', Lit ''tenants'', Wild, Lit ''usage''], pat_subtree = False\<rparr>]"

definition admin_mux ::
  "'c key_client \<Rightarrow> 'r admin_server \<Rightarrow> usage_source \<Rightarrow> time \<Rightarrow> time \<Rightarrow> ('r, 'c) admin_handler" where
  "admin_mux client s usage now now' r st =
     (case mux_find admin_patterns (req_method r) (req_path r) of
        MuxHandler i ws \<Rightarrow>
          if i = 0 then handleHealth r st
          else if i = 1 then guarded client s now now' (handleInfo s) r st
          else if i = 2 then guardedTenant client s now now' (ws ! 0) (handleListRooms s) r st
          else if i = 3 then guardedTenant client s now now' (ws ! 0) (handleDeleteRoom s (ws ! 1)) r st
          else guardedTenant client s now now' (ws ! 0) (handleUsage usage) r st
      | other \<Rightarrow> (mux_fallback other, st))"

definition instrumentAdmin :: "('r, 'c) admin_handler \<Rightarrow> ('r, 'c) admin_handler" where
  "instrumentAdmin h r st =
     (let (rsp, st') = h r st in (rsp, st'\<lparr>ad_metrics := ObserveAdmin (rsp_status rsp) (ad_metrics st')\<rparr>))"

definition admin_handler ::
  "'c key_client \<Rightarrow> 'r admin_server \<Rightarrow> usage_source \<Rightarrow> bool \<Rightarrow> time \<Rightarrow> time \<Rightarrow> time \<Rightarrow> http_request \<Rightarrow>
     rate_limiter option \<times> ('r, 'c) admin_state \<Rightarrow> http_response \<times> rate_limiter option \<times> ('r, 'c) admin_state" where
  "admin_handler client s usage trustXFF t0 now now' r st =
     (let h = instrumentAdmin (admin_mux client s usage now now')
      in case st of
           (None, s0) \<Rightarrow> (let (rsp, s1) = h r s0 in (rsp, None, s1))
         | (Some l, s0) \<Rightarrow>
             (let (rsp, l', s1) = MiddlewareWithTrust h trustXFF t0 r (l, s0) in (rsp, Some l', s1)))"

section \<open>Facts about the gate\<close>

lemma constantTimeEqualString_iff [simp]: "constantTimeEqualString a b \<longleftrightarrow> a = b"
  by (auto simp: constantTimeEqualString_def)

lemma checkAdminToken_iff [simp]: "checkAdminToken s r \<longleftrightarrow> adminBearerRaw r = as_admin_token s"
  by (simp add: checkAdminToken_def)

text \<open>Which requests are authentic: a bearer that starts as an API key is judged by the control plane only.\<close>

definition authentic ::
  "'c key_client \<Rightarrow> 'r admin_server \<Rightarrow> time \<Rightarrow> time \<Rightarrow> http_request \<Rightarrow> 'c introspector option \<Rightarrow> bool" where
  "authentic client s now now' r intro \<longleftrightarrow>
     (case intro of
        Some c \<Rightarrow>
          if has_prefix (adminBearerRaw r) VkPrefix
          then (case fst (Introspect client now now' (adminBearerRaw r) c) of
                  Inr res \<Rightarrow> kr_valid res \<and> HasProduct ProductMeet res | Inl _ \<Rightarrow> False)
          else adminBearerRaw r = as_admin_token s
      | None \<Rightarrow> adminBearerRaw r = as_admin_token s)"

lemma checkAuth_None_iff: "fst (checkAuth client s now now' r intro) = None \<longleftrightarrow> authentic client s now now' r intro"
  by (auto simp: checkAuth_def authentic_def Let_def split: option.split sum.splits prod.split)

lemma checkAuth_Some_status:
  "fst (checkAuth client s now now' r intro) = Some rsp \<Longrightarrow> rsp_status rsp \<in> {401, 403, 503}"
  by (auto simp: checkAuth_def Let_def status_defs split: option.splits sum.splits prod.splits if_splits)

lemma guarded_cases:
  "guarded client s now now' inner r st =
     (let (d, intro) = checkAuth client s now now' r (ad_intro st)
      in case d of Some rsp \<Rightarrow> (rsp, st\<lparr>ad_intro := intro\<rparr>) | None \<Rightarrow> inner r (st\<lparr>ad_intro := intro\<rparr>))"
  by (simp add: guarded_def Let_def split: prod.split option.split)

lemma guarded_denied:
  assumes "\<not> authentic client s now now' r (ad_intro st)"
  obtains rsp where "fst (checkAuth client s now now' r (ad_intro st)) = Some rsp"
    "rsp_status rsp \<in> {401, 403, 503}"
    "guarded client s now now' inner r st = (rsp, st\<lparr>ad_intro := snd (checkAuth client s now now' r (ad_intro st))\<rparr>)"
proof -
  obtain rsp where c: "fst (checkAuth client s now now' r (ad_intro st)) = Some rsp"
    using assms checkAuth_None_iff by fastforce
  show ?thesis
    by (rule that [OF c checkAuth_Some_status [OF c]]) (simp add: guarded_cases Let_def case_prod_beta c)
qed

lemma guarded_passed:
  "authentic client s now now' r (ad_intro st) \<Longrightarrow>
     guarded client s now now' inner r st =
       inner r (st\<lparr>ad_intro := snd (checkAuth client s now now' r (ad_intro st))\<rparr>)"
  by (simp add: guarded_cases Let_def case_prod_beta checkAuth_None_iff [THEN iffD2])

lemmas admin_handler_defs = handleListRooms_def handleDeleteRoom_def handleUsage_def handleInfo_def
  handleHealth_def guardedTenant_def


text \<open>The handlers read neither the request nor the introspector, so only what is behind the gate counts.\<close>

definition routed ::
  "'r admin_server \<Rightarrow> usage_source \<Rightarrow> nat \<Rightarrow> string list \<Rightarrow> ('r, 'c) admin_handler" where
  "routed s usage i ws r st =
     (if i = 1 then handleInfo s r st
      else if validateTenant (as_tenant s) (ws ! 0) \<noteq> None then (http_error ''bad tenant'' StatusBadRequest, st)
      else if i = 2 then handleListRooms s (ws ! 0) r st
      else if i = 3 then handleDeleteRoom s (ws ! 1) (ws ! 0) r st
      else handleUsage usage (ws ! 0) r st)"

lemma admin_mux_routed:
  "admin_mux client s usage now now' r st =
     (case mux_find admin_patterns (req_method r) (req_path r) of
        MuxHandler i ws \<Rightarrow>
          if i = 0 then handleHealth r st else guarded client s now now' (routed s usage i ws) r st
      | other \<Rightarrow> (mux_fallback other, st))"
  by (auto simp: admin_mux_def guardedTenant_def guarded_cases routed_def Let_def
      split: mux_result.split prod.split option.split)

lemma refreshParticipantGauges_intro:
  "refreshParticipantGauges s t (st\<lparr>ad_intro := c\<rparr>) = (refreshParticipantGauges s t st)\<lparr>ad_intro := c\<rparr>"
  by (auto simp: refreshParticipantGauges_def split: option.split sum.split prod.split)

lemma routed_indep:
  "routed s usage i ws r (st\<lparr>ad_intro := c\<rparr>) =
     (fst (routed s usage i ws q st), (snd (routed s usage i ws q st))\<lparr>ad_intro := c\<rparr>)"
proof -
  have swap: "st\<lparr>ad_intro := c, ad_rooms := a, ad_metrics := b\<rparr> = (st\<lparr>ad_rooms := a, ad_metrics := b\<rparr>)\<lparr>ad_intro := c\<rparr>"
    for a b by simp
  show ?thesis
    unfolding routed_def admin_handler_defs Let_def
    by (simp add: case_prod_beta swap refreshParticipantGauges_intro split: sum.split option.split)
qed

section \<open>Properties\<close>

text \<open>Behind the gate nothing is looked at without authentication; the answer is fixed by the route.\<close>

lemma admin_mux_denied:
  assumes "\<not> authentic client s now now' r intro"
  shows "\<exists>rsp intro'.
    (case mux_find admin_patterns (req_method r) (req_path r) of
       MuxHandler i ws \<Rightarrow>
         if i = 0 then rsp = writeJSON 200 (JObj [(''status'', JStr ''ok'')]) else rsp_status rsp \<in> {401, 403, 503}
     | other \<Rightarrow> rsp = mux_fallback other) \<and>
    (\<forall>rooms m usage. admin_mux client s usage now now' r \<lparr>ad_rooms = rooms, ad_metrics = m, ad_intro = intro\<rparr> =
       (rsp, \<lparr>ad_rooms = rooms, ad_metrics = m, ad_intro = intro'\<rparr>))"
proof -
  let ?st = "\<lambda>rooms m. \<lparr>ad_rooms = rooms, ad_metrics = m, ad_intro = intro\<rparr>"
  obtain d where d: "fst (checkAuth client s now now' r intro) = Some d" "rsp_status d \<in> {401, 403, 503}"
    using guarded_denied [of client s now now' r "?st undefined None"] assms by auto
  have g: "guarded client s now now' inner r (?st rooms m) =
      (d, \<lparr>ad_rooms = rooms, ad_metrics = m, ad_intro = snd (checkAuth client s now now' r intro)\<rparr>)"
    for inner rooms m by (simp add: guarded_cases Let_def case_prod_beta d(1))
  show ?thesis
  proof (cases "mux_find admin_patterns (req_method r) (req_path r)")
    case (MuxHandler i ws)
    then show ?thesis
    proof (cases "i = 0")
      case True
      then show ?thesis by (auto simp: admin_mux_routed MuxHandler handleHealth_def StatusOK_def)
    next
      case False
      then show ?thesis
        by (intro exI [of _ d] exI [of _ "snd (checkAuth client s now now' r intro)"])
          (use d(2) in \<open>simp add: admin_mux_routed MuxHandler g\<close>)
    qed
  qed (auto simp: admin_mux_routed)
qed

text \<open>The request is turned away by the limiter in front of the surface, when one is attached.\<close>

definition turned_away :: "bool \<Rightarrow> time \<Rightarrow> http_request \<Rightarrow> rate_limiter option \<Rightarrow> bool" where
  "turned_away trustXFF t0 r rl \<longleftrightarrow> (case rl of None \<Rightarrow> False | Some l \<Rightarrow> \<not> fst (Allow t0 (clientIP r trustXFF) l))"

lemma admin_handler_limited:
  "admin_handler client s usage trustXFF t0 now now' r (rl, st) =
     (let rl' = map_option (\<lambda>l. snd (Allow t0 (clientIP r trustXFF) l)) rl
      in if turned_away trustXFF t0 r rl then (http_error ''rate limit exceeded'' StatusTooManyRequests, rl', st)
         else let (rsp, st') = admin_mux client s usage now now' r st
              in (rsp, rl', st'\<lparr>ad_metrics := ObserveAdmin (rsp_status rsp) (ad_metrics st')\<rparr>))"
  by (cases rl) (simp_all add: admin_handler_def turned_away_def MiddlewareWithTrust_def instrumentAdmin_def
      Let_def case_prod_beta)

text \<open>
  C6. A request that is not authentic reaches nothing: through the whole admin surface, the limiter and
  the instrumentation included, it leaves the rooms as they are and moves no counter but the one of
  answers by status, which goes up by its own answer (not at all when the limiter turns it away). Its
  answer depends only on the route: the limiter's, a refusal on every guarded route, the bare liveness
  answer on the health route, the mux's own otherwise; the rooms, the usage and the counters are not
  looked at for it.
\<close>

theorem admin_unauthenticated_no_effect:
  assumes "\<not> authentic client s now now' r intro"
  shows "\<exists>rsp intro'.
    (if turned_away trustXFF t0 r rl then rsp = http_error ''rate limit exceeded'' 429 \<and> intro' = intro
     else case mux_find admin_patterns (req_method r) (req_path r) of
       MuxHandler i ws \<Rightarrow>
         if i = 0 then rsp = writeJSON 200 (JObj [(''status'', JStr ''ok'')]) else rsp_status rsp \<in> {401, 403, 503}
     | other \<Rightarrow> rsp = mux_fallback other) \<and>
    (\<forall>rooms m usage.
       admin_handler client s usage trustXFF t0 now now' r
         (rl, \<lparr>ad_rooms = rooms, ad_metrics = m, ad_intro = intro\<rparr>) =
       (rsp, map_option (\<lambda>l. snd (Allow t0 (clientIP r trustXFF) l)) rl,
        \<lparr>ad_rooms = rooms,
         ad_metrics = (if turned_away trustXFF t0 r rl then m else ObserveAdmin (rsp_status rsp) m),
         ad_intro = intro'\<rparr>))"
proof (cases "turned_away trustXFF t0 r rl")
  case True
  then show ?thesis by (simp add: admin_handler_limited StatusTooManyRequests_def)
next
  case False
  obtain rsp intro' where d: "case mux_find admin_patterns (req_method r) (req_path r) of
       MuxHandler i ws \<Rightarrow>
         if i = 0 then rsp = writeJSON 200 (JObj [(''status'', JStr ''ok'')]) else rsp_status rsp \<in> {401, 403, 503}
     | other \<Rightarrow> rsp = mux_fallback other"
    "\<And>rooms m usage. admin_mux client s usage now now' r \<lparr>ad_rooms = rooms, ad_metrics = m, ad_intro = intro\<rparr> =
       (rsp, \<lparr>ad_rooms = rooms, ad_metrics = m, ad_intro = intro'\<rparr>)"
    using admin_mux_denied [OF assms] by blast
  from d(1) show ?thesis
    by (intro exI [of _ rsp] exI [of _ intro']) (simp add: False admin_handler_limited d(2))
qed

text \<open>
  The authority of the surface is uniform: two authentic requests for the same route get the same
  answer and have the same effect. An API key's account and scopes, which the control plane resolves,
  play no part: a key that is valid for the product acts on every tenant, as the static token does.
\<close>

theorem admin_authority_uniform:
  assumes "authentic client s now now' r c" "authentic client s now now' q d"
    and "req_method r = req_method q" "req_path r = req_path q"
  shows "\<exists>c' d'. let (rsp, st') = admin_mux client s usage now now' r (st\<lparr>ad_intro := c\<rparr>)
    in admin_mux client s usage now now' q (st\<lparr>ad_intro := d\<rparr>) = (rsp, st'\<lparr>ad_intro := d'\<rparr>)"
proof (cases "mux_find admin_patterns (req_method r) (req_path r)")
  case (MuxHandler i ws)
  show ?thesis
  proof (cases "i = 0")
    case True
    have "admin_mux client s usage now now' r (st\<lparr>ad_intro := c\<rparr>) =
        (writeJSON StatusOK (JObj [(''status'', JStr ''ok'')]), st\<lparr>ad_intro := c\<rparr>)"
      "admin_mux client s usage now now' q (st\<lparr>ad_intro := d\<rparr>) =
        (writeJSON StatusOK (JObj [(''status'', JStr ''ok'')]), st\<lparr>ad_intro := d\<rparr>)"
      using True MuxHandler assms(3,4) by (simp_all add: admin_mux_routed handleHealth_def)
    then show ?thesis by auto
  next
    case False
    let ?c = "snd (checkAuth client s now now' r c)" and ?d = "snd (checkAuth client s now now' q d)"
    have "admin_mux client s usage now now' r (st\<lparr>ad_intro := c\<rparr>) = routed s usage i ws r (st\<lparr>ad_intro := ?c\<rparr>)"
      "admin_mux client s usage now now' q (st\<lparr>ad_intro := d\<rparr>) = routed s usage i ws q (st\<lparr>ad_intro := ?d\<rparr>)"
      using False MuxHandler assms by (simp_all add: admin_mux_routed guarded_passed)
    then show ?thesis
      by (auto simp: routed_indep [where q = r])
  qed
next
  case (MuxRedirect u)
  then show ?thesis using assms(3,4) by (auto simp: admin_mux_routed)
next
  case (MuxMethodNotAllowed u)
  then show ?thesis using assms(3,4) by (auto simp: admin_mux_routed)
next
  case MuxNotFound
  then show ?thesis using assms(3,4) by (auto simp: admin_mux_routed)
qed


text \<open>
  A box with one room and one API key, whose control plane accepts the key for an account that is not
  the tenant.
\<close>

definition memory_room_service :: "memory_rooms room_service" where
  "memory_room_service =
     \<lparr>rs_list = (\<lambda>m. (Inr (mem_ListRoomIDs m), m)),
      rs_delete = (\<lambda>room m. (None, mem_DeleteRoom room m)),
      rs_participants = Some (\<lambda>m. (Inr (mem_ListRoomParticipants m), m))\<rparr>"

definition sample_admin :: "memory_rooms admin_server" where
  "sample_admin = \<lparr>as_tenant = \<lparr>tenant_sep = CHR '':''\<rparr>, as_room_ops = memory_room_service,
     as_geo = \<lparr>geo_region = ''za''\<rparr>, as_admin_token = ''adm'', as_version = ''1''\<rparr>"

definition sample_admin_request :: "string \<Rightarrow> string \<Rightarrow> string \<Rightarrow> http_request" where
  "sample_admin_request m p tok = \<lparr>req_method = m, req_path = p, req_query = [],
     req_header = [(''Authorization'', [''Bearer '' @ tok])], req_remote_addr = ''1.2.3.4:5'', req_body = []\<rparr>"

theorem admin_unauthenticated_no_effect_witness:
  "\<exists>rsp intro'. \<forall>rooms m. admin_handler (undefined :: unit key_client) sample_admin None False 0 0 0
     (sample_admin_request ''DELETE'' ''/admin/tenants/acme/rooms/standup'' ''guess'')
     (None, \<lparr>ad_rooms = rooms, ad_metrics = m, ad_intro = None\<rparr>) =
     (rsp, None, \<lparr>ad_rooms = rooms, ad_metrics = ObserveAdmin (rsp_status rsp) m, ad_intro = intro'\<rparr>)"
proof -
  have "adminBearerRaw (sample_admin_request ''DELETE'' ''/admin/tenants/acme/rooms/standup'' ''guess'') = ''guess''"
    by code_simp
  then have "\<not> authentic undefined sample_admin 0 0
      (sample_admin_request ''DELETE'' ''/admin/tenants/acme/rooms/standup'' ''guess'') (None :: unit introspector option)"
    by (simp add: authentic_def sample_admin_def)
  from admin_unauthenticated_no_effect [OF this, of False 0 None] show ?thesis
    by (auto simp: turned_away_def)
qed

definition sample_admin_client :: "unit key_client" where
  "sample_admin_client req u =
     (Some \<lparr>rsp_status = 200, rsp_header = [],
        rsp_body = ''{\"valid\":true,\"account\":\"bob\",\"products\":[\"meet\"]}''\<rparr>, u)"

lemma authentic_new_key:
  assumes "has_prefix (adminBearerRaw r) VkPrefix"
    and "url_Parse (kc_base_url cfg @ ''/api/keys/introspect'') \<noteq> None"
    and "client (introspect_request cfg (adminBearerRaw r)) net = (Some rsp, net')" "rsp_status rsp = 200"
    and "decode_result (rsp_body rsp) = Some res" "kr_valid res" "HasProduct ProductMeet res"
  shows "authentic client s now now' r (Some (NewIntrospectorWithClient cfg net))"
  using assms
  by (simp add: authentic_def Introspect_def fromCache_def NewIntrospectorWithClient_def Let_def
      introspect_request_def StatusOK_def)

theorem admin_authority_uniform_witness:
  "\<exists>c' d'. let (rsp, st') = admin_mux sample_admin_client sample_admin None 0 0
      (sample_admin_request ''GET'' ''/admin/tenants/acme/rooms'' ''adm'')
      \<lparr>ad_rooms = [(''acme:standup'', 1)], ad_metrics = None,
       ad_intro = Some (NewIntrospectorWithClient sample_key_config ())\<rparr>
    in admin_mux sample_admin_client sample_admin None 0 0
      (sample_admin_request ''GET'' ''/admin/tenants/acme/rooms'' ''vk_bob'')
      \<lparr>ad_rooms = [(''acme:standup'', 1)], ad_metrics = None,
       ad_intro = d'\<rparr> = (rsp, st'\<lparr>ad_intro := c'\<rparr>)"
proof -
  let ?c = "Some (NewIntrospectorWithClient sample_key_config ())"
  have "\<not> has_prefix ''adm'' VkPrefix" "adminBearerRaw (sample_admin_request ''GET'' ''/admin/tenants/acme/rooms'' ''adm'') = ''adm''"
    by code_simp+
  then have "authentic sample_admin_client sample_admin 0 0
      (sample_admin_request ''GET'' ''/admin/tenants/acme/rooms'' ''adm'') ?c"
    by (simp add: authentic_def sample_admin_def)
  moreover have "authentic sample_admin_client sample_admin 0 0
      (sample_admin_request ''GET'' ''/admin/tenants/acme/rooms'' ''vk_bob'') ?c"
  proof (rule authentic_new_key)
    show "sample_admin_client (introspect_request sample_key_config (adminBearerRaw
        (sample_admin_request ''GET'' ''/admin/tenants/acme/rooms'' ''vk_bob''))) () =
        (Some \<lparr>rsp_status = 200, rsp_header = [],
           rsp_body = ''{\"valid\":true,\"account\":\"bob\",\"products\":[\"meet\"]}''\<rparr>, ())"
      by (simp add: sample_admin_client_def)
    show "decode_result (rsp_body \<lparr>rsp_status = 200, rsp_header = [],
           rsp_body = ''{\"valid\":true,\"account\":\"bob\",\"products\":[\"meet\"]}''\<rparr>) =
        Some \<lparr>kr_valid = True, kr_account = ''bob'', kr_scopes = [], kr_products = [''meet'']\<rparr>"
      by code_simp
    show "has_prefix (adminBearerRaw
        (sample_admin_request ''GET'' ''/admin/tenants/acme/rooms'' ''vk_bob'')) VkPrefix" by code_simp
    show "url_Parse (kc_base_url sample_key_config @ ''/api/keys/introspect'') \<noteq> None" by code_simp
  qed (simp_all add: HasProduct_def ProductMeet_def)
  ultimately show ?thesis
    using admin_authority_uniform [of sample_admin_client sample_admin 0 0
        "sample_admin_request ''GET'' ''/admin/tenants/acme/rooms'' ''adm''" ?c
        "sample_admin_request ''GET'' ''/admin/tenants/acme/rooms'' ''vk_bob''" ?c None
        "\<lparr>ad_rooms = [(''acme:standup'', 1)], ad_metrics = None, ad_intro = ?c\<rparr>"]
    by (fastforce simp: sample_admin_request_def)
qed


text \<open>A room service that also keeps the ids it was asked to delete, the newest first.\<close>

definition log_deletes :: "'r room_service \<Rightarrow> ('r \<times> string list) room_service" where
  "log_deletes rs =
     \<lparr>rs_list = (\<lambda>(s, l). let (a, s') = rs_list rs s in (a, (s', l))),
      rs_delete = (\<lambda>room (s, l). let (a, s') = rs_delete rs room s in (a, (s', room # l))),
      rs_participants = map_option (\<lambda>f (s, l). let (a, s') = f s in (a, (s', l))) (rs_participants rs)\<rparr>"

lemma log_list [simp]: "snd (snd (rs_list (log_deletes rs) s)) = snd s"
  by (cases s) (simp add: log_deletes_def case_prod_beta)

lemma log_delete [simp]: "snd (snd (rs_delete (log_deletes rs) room s)) = room # snd s"
  by (cases s) (simp add: log_deletes_def case_prod_beta)

lemma log_participants:
  "rs_participants (log_deletes rs) = Some f \<Longrightarrow> snd (snd (f s)) = snd s"
  by (cases s) (auto simp: log_deletes_def case_prod_beta)

lemma refresh_log:
  "as_room_ops s = log_deletes rs \<Longrightarrow> snd (ad_rooms (refreshParticipantGauges s t st)) = snd (ad_rooms st)"
  using log_participants [of rs _ "ad_rooms st"]
  by (auto simp: refreshParticipantGauges_def case_prod_beta split: option.split sum.split)

lemma list_log:
  "as_room_ops s = log_deletes rs \<Longrightarrow> snd (ad_rooms (snd (handleListRooms s t r st))) = snd (ad_rooms st)"
  by (simp add: handleListRooms_def case_prod_beta Let_def refresh_log split: sum.split)

lemma QualifyRoom_enforced:
  "QualifyRoom T t rest = Inr full \<Longrightarrow> EnforceRoom T t full = None \<and> full = t @ Separator T @ rest"
  by (auto simp: QualifyRoom_Inr_iff EnforceRoom_None_split intro: SplitRoom_join)

lemma delete_log:
  assumes "as_room_ops s = log_deletes rs"
  shows "snd (ad_rooms (snd (handleDeleteRoom s rest t r st))) =
    (case QualifyRoom (as_tenant s) t rest of Inl _ \<Rightarrow> [] | Inr full \<Rightarrow> [full]) @ snd (ad_rooms st)"
  using log_delete [of rs _ "ad_rooms st"] assms
  by (auto simp: handleDeleteRoom_def case_prod_beta Let_def QualifyRoom_enforced split: option.split sum.split)

text \<open>What one handler adds to the log.\<close>

lemma routed_log:
  assumes "as_room_ops s = log_deletes rs"
  shows "snd (ad_rooms (snd (routed s usage i ws r st))) =
    (if i = 3 then (case QualifyRoom (as_tenant s) (ws ! 0) (ws ! 1) of Inl _ \<Rightarrow> [] | Inr full \<Rightarrow> [full]) else [])
      @ snd (ad_rooms st)"
  using assms
  by (auto simp: routed_def list_log delete_log handleInfo_def handleUsage_def QualifyRoom_def split: option.split)

lemma match_segments_LitD: "match_segments (Lit a # ps) ss = Some x \<Longrightarrow> \<exists>ss'. match_segments ps ss' = Some x"
  by (cases ss) (auto split: if_splits)

lemma match_segments_WildD:
  "match_segments (Wild # ps) ss = Some (ws, r) \<Longrightarrow> \<exists>w ws' ss'. ws = w # ws' \<and> match_segments ps ss' = Some (ws', r)"
  by (cases ss) auto

lemma match_segments_two_wild:
  "match_segments [Lit a, Lit b, Wild, Lit c, Wild] ss = Some (ws, r) \<Longrightarrow> \<exists>t x. ws = [t, x]"
  by (fastforce dest!: match_segments_LitD match_segments_WildD)

lemma delete_route:
  assumes "mux_find admin_patterns m p = MuxHandler 3 ws"
  shows "m = ''DELETE'' \<and> (\<exists>t x. ws = [t, x])"
  using mux_find_sound [OF assms]
  by (auto simp: admin_patterns_def match_path_def case_prod_beta split: option.splits if_splits
      dest!: match_segments_two_wild)

text \<open>
  C7. A deletion is authorised and stays inside the tenant: one request through the admin surface asks
  the room service for at most one deletion, only for an authentic \<open>DELETE\<close> of the route's room, and
  the room id is the path tenant's own, which the gate admits for it and for no other tenant.
\<close>

theorem admin_deletes_only_own:
  "let T = as_tenant s; (rsp, st') = admin_mux client (s\<lparr>as_room_ops := log_deletes rs\<rparr>) usage now now' r st;
       old = snd (ad_rooms st); new = snd (ad_rooms st')
   in new = old \<or>
      (\<exists>t rest. new = (t @ Separator T @ rest) # old \<and> req_method r = ''DELETE'' \<and>
         mux_find admin_patterns (req_method r) (req_path r) = MuxHandler 3 [t, rest] \<and>
         authentic client (s\<lparr>as_room_ops := log_deletes rs\<rparr>) now now' r (ad_intro st) \<and>
         EnforceRoom T t (t @ Separator T @ rest) = None)"
proof -
  let ?s = "s\<lparr>as_room_ops := log_deletes rs\<rparr>"
  show ?thesis
  proof (cases "mux_find admin_patterns (req_method r) (req_path r)")
    case (MuxHandler i ws)
    show ?thesis
    proof (cases "i \<noteq> 0 \<and> authentic client ?s now now' r (ad_intro st)")
      case True
      then have "admin_mux client ?s usage now now' r st =
          routed ?s usage i ws r (st\<lparr>ad_intro := snd (checkAuth client ?s now now' r (ad_intro st))\<rparr>)"
        using MuxHandler by (simp add: admin_mux_routed guarded_passed)
      then show ?thesis
        using MuxHandler True delete_route [of "req_method r" "req_path r" ws]
        by (auto simp: Let_def case_prod_beta routed_log dest!: QualifyRoom_enforced split: sum.split)
    next
      case False
      then have "i = 0 \<or> \<not> authentic client ?s now now' r (ad_intro st)" by blast
      then have "ad_rooms (snd (admin_mux client ?s usage now now' r st)) = ad_rooms st"
      proof
        assume "\<not> authentic client ?s now now' r (ad_intro st)"
        then show ?thesis
          by (rule guarded_denied [where inner = "routed ?s usage i ws"])
            (simp add: admin_mux_routed MuxHandler handleHealth_def)
      qed (simp add: admin_mux_routed MuxHandler handleHealth_def)
      then show ?thesis by (simp add: Let_def case_prod_beta)
    qed
  qed (simp_all add: admin_mux_routed Let_def)
qed


text \<open>
  The round trip of the two room handlers on the in-memory service: what a list shows can be deleted by
  the name it is shown under.
\<close>

definition listed :: "'r admin_server \<Rightarrow> string \<Rightarrow> memory_rooms \<Rightarrow> string list" where
  "listed s t m = map (\<lambda>r. trim_prefix r (t @ Separator (as_tenant s))) (FilterRooms (as_tenant s) t (mem_ListRoomIDs m))"

lemma list_shows_listed:
  "as_room_ops s = memory_room_service \<Longrightarrow>
     fst (handleListRooms s t r st) = writeJSON StatusOK (list_response t (listed s t (ad_rooms st)))"
  by (simp add: handleListRooms_def memory_room_service_def listed_def Let_def)

lemma set_listed:
  "x \<in> set (listed s t m) \<longleftrightarrow>
     validateTenant (as_tenant s) t = None \<and> x \<noteq> [] \<and> t @ Separator (as_tenant s) @ x \<in> set (mem_ListRoomIDs m)"
proof
  assume "x \<in> set (listed s t m)"
  then obtain r where r: "r \<in> set (mem_ListRoomIDs m)" "EnforceRoom (as_tenant s) t r = None"
    "x = trim_prefix r (t @ Separator (as_tenant s))"
    by (auto simp: listed_def FilterRooms_eq)
  then obtain y where "validateTenant (as_tenant s) t = None" "y \<noteq> []" "r = (t @ Separator (as_tenant s)) @ y"
    by (auto simp: EnforceRoom_None_split split_room_iff)
  with r show "validateTenant (as_tenant s) t = None \<and> x \<noteq> [] \<and> t @ Separator (as_tenant s) @ x \<in> set (mem_ListRoomIDs m)"
    by (metis append.assoc trim_prefix_append)
next
  assume a: "validateTenant (as_tenant s) t = None \<and> x \<noteq> [] \<and> t @ Separator (as_tenant s) @ x \<in> set (mem_ListRoomIDs m)"
  then have "EnforceRoom (as_tenant s) t (t @ Separator (as_tenant s) @ x) = None"
    by (auto simp: EnforceRoom_None_split intro: SplitRoom_join)
  with a have "(t @ Separator (as_tenant s)) @ x \<in> set (FilterRooms (as_tenant s) t (mem_ListRoomIDs m))"
    by (simp add: FilterRooms_eq)
  then have "trim_prefix ((t @ Separator (as_tenant s)) @ x) (t @ Separator (as_tenant s)) \<in> set (listed s t m)"
    unfolding listed_def set_map by (rule imageI)
  then show "x \<in> set (listed s t m)" by (simp only: trim_prefix_append)
qed

text \<open>
  List then delete: a listed room whose short name does not contain the separator is deleted by that
  name and is then the only one gone from the list; one whose name contains it is refused with 400 and
  stays, so it can be listed but never deleted here.
\<close>

theorem listed_room_deletable:
  assumes "as_room_ops s = memory_room_service" "x \<in> set (listed s t (ad_rooms st))"
  shows "let (rsp, st') = handleDeleteRoom s x t r st in
    if tenant_sep (as_tenant s) \<notin> set x
    then rsp_status rsp = 204 \<and> set (listed s t (ad_rooms st')) = set (listed s t (ad_rooms st)) - {x}
    else rsp_status rsp = 400 \<and> st' = st"
proof (cases "tenant_sep (as_tenant s) \<in> set x")
  case True
  then have "\<exists>e. QualifyRoom (as_tenant s) t x = Inl e"
    by (cases "QualifyRoom (as_tenant s) t x") (auto simp: QualifyRoom_Inr_iff)
  with True show ?thesis by (auto simp: handleDeleteRoom_def StatusBadRequest_def)
next
  case False
  let ?full = "t @ Separator (as_tenant s) @ x"
  have v: "validateTenant (as_tenant s) t = None" "x \<noteq> []" using assms(2) by (simp_all add: set_listed)
  then have q: "QualifyRoom (as_tenant s) t x = Inr ?full" using False by (simp add: QualifyRoom_Inr_iff)
  have "handleDeleteRoom s x t r st = (no_content, st\<lparr>ad_rooms := mem_DeleteRoom ?full (ad_rooms st)\<rparr>)"
    using q QualifyRoom_enforced [OF q] assms(1) by (simp add: handleDeleteRoom_def memory_room_service_def)
  moreover have "set (listed s t (mem_DeleteRoom ?full m)) = set (listed s t m) - {x}" for m
    by (auto simp: set_listed mem_DeleteRoom_def mem_ListRoomIDs_def)
  ultimately show ?thesis using False by (simp add: no_content_def StatusNoContent_def)
qed

theorem listed_room_deletable_witness:
  "let (rsp, st') = handleDeleteRoom sample_admin ''a:b'' ''acme'' (sample_admin_request [] [] [])
     \<lparr>ad_rooms = [(''acme:a:b'', 1)], ad_metrics = None, ad_intro = (None :: unit introspector option)\<rparr>
   in rsp_status rsp = 400 \<and> ad_rooms st' = [(''acme:a:b'', 1)]"
proof -
  have "''a:b'' \<in> set (listed sample_admin ''acme'' [(''acme:a:b'', 1)])" by code_simp
  then show ?thesis
    using listed_room_deletable [of sample_admin "''a:b''" "''acme''"
        "\<lparr>ad_rooms = [(''acme:a:b'', 1)], ad_metrics = None, ad_intro = (None :: unit introspector option)\<rparr>"
        "sample_admin_request [] [] []"]
    by (simp add: case_prod_beta Let_def sample_admin_def)
qed

lemma admin_counter_refresh:
  "map_option m_adminRequests (refresh_gauges T t rps m) = map_option m_adminRequests m"
proof -
  have step: "map_option m_adminRequests (SetParticipantsInRoom t x n m) = map_option m_adminRequests m" for t x n m
    by (cases m) (simp_all add: SetParticipantsInRoom_def)
  have reset: "map_option m_adminRequests (ResetParticipantsForTenant t m) = map_option m_adminRequests m" for m
    by (cases m) (simp_all add: ResetParticipantsForTenant_def)
  have fold: "map_option m_adminRequests (foldl f m0 rps) = map_option m_adminRequests m0"
    if "\<And>m rp. map_option m_adminRequests (f m rp) = map_option m_adminRequests m" for f m0
    using that by (induction rps arbitrary: m0) simp_all
  show ?thesis
    unfolding refresh_gauges_def Let_def
    by (subst fold) (simp_all add: step reset)
qed

lemma routed_counter:
  "map_option m_adminRequests (ad_metrics (snd (routed s usage i ws r st))) = map_option m_adminRequests (ad_metrics st)"
proof -
  have gauges: "map_option m_adminRequests (SetTotalRooms a (SetActiveRooms t b m)) = map_option m_adminRequests m" for a t b m
    by (cases m) (simp_all add: SetTotalRooms_def SetActiveRooms_def)
  have refresh: "map_option m_adminRequests (ad_metrics (refreshParticipantGauges s t st)) = map_option m_adminRequests (ad_metrics st)" for t st
    by (auto simp: refreshParticipantGauges_def case_prod_beta admin_counter_refresh split: option.split sum.split)
  then show ?thesis
    unfolding routed_def admin_handler_defs Let_def
    by (simp add: case_prod_beta gauges refresh split: sum.split option.split)
qed

lemma admin_mux_counter:
  "map_option m_adminRequests (ad_metrics (snd (admin_mux client s usage now now' r st))) =
     map_option m_adminRequests (ad_metrics st)"
  by (simp add: admin_mux_routed guarded_cases Let_def case_prod_beta handleHealth_def routed_counter
      split: mux_result.split option.split)

text \<open>
  Every request that the rate limiter admits is counted exactly once, under the status it was
  answered with; one it refuses with 429 is not counted at all.
\<close>

theorem admin_requests_counted_once:
  "let (rsp, l', st') = admin_handler client s usage xff t0 now now' r (rl, st);
       admitted = (case rl of None \<Rightarrow> True | Some l \<Rightarrow> fst (Allow t0 (clientIP r xff) l))
   in map_option m_adminRequests (ad_metrics st') =
        map_option (if admitted then bump (rsp_status rsp) \<circ> m_adminRequests else m_adminRequests) (ad_metrics st) \<and>
      (admitted \<or> rsp_status rsp = 429)"
proof -
  have obs: "map_option m_adminRequests (ObserveAdmin st m) = map_option (bump st) (map_option m_adminRequests m)" for st m
    by (cases m) (simp_all add: ObserveAdmin_def)
  show ?thesis
    by (cases rl)
      (simp_all add: admin_handler_def Let_def case_prod_beta instrumentAdmin_def MiddlewareWithTrust_def
        obs admin_mux_counter StatusTooManyRequests_def option.map_comp)
qed

end
