(* ===== verification/Retention_Driver.thy ===== *)
theory Retention_Driver
  imports Egress_Receiver "HOL-Library.Multiset"
begin

text \<open>
  The retention cleanup driver (\<^verbatim>\<open>RetentionDriver\<close> in \<^verbatim>\<open>internal/wrap/retention.go\<close>) and the blob
  deleters (\<^verbatim>\<open>NoopBlobDeleter\<close>, \<^verbatim>\<open>CloudBlobDeleter\<close> in \<^verbatim>\<open>internal/wrap/recording_cloud.go\<close>). One pass
  is a function over any recording store; its effect is proved once from the store's contract and
  obtained for the in-memory store by interpretation. The interleaving of passes with webhook updates
  is a step relation with a reachability invariant.
\<close>

section \<open>Blob deleters\<close>

text \<open>A deleter acts on its own state; \<open>True\<close> is nil (the blob is gone).\<close>

type_synonym 'd blob_deleter = "recording \<Rightarrow> 'd \<Rightarrow> bool \<times> 'd"

definition noop_delete :: "'d blob_deleter" where
  "noop_delete r d = (True, d)"

record cloud_deleter =
  cd_base_url :: string
  cd_auth_tok :: string

datatype cloud_deleter_error = CloudDeleterNoBaseURL | CloudDeleterNoToken

definition NewCloudBlobDeleter :: "string \<Rightarrow> string \<Rightarrow> cloud_deleter_error + cloud_deleter" where
  "NewCloudBlobDeleter baseURL authTok =
     (if baseURL = [] then Inl CloudDeleterNoBaseURL
      else if authTok = [] then Inl CloudDeleterNoToken
      else Inr \<lparr>cd_base_url = baseURL, cd_auth_tok = authTok\<rparr>)"

definition CloudDeleteSchema :: string where
  "CloudDeleteSchema = ''vulos-meet/recording-delete/v1''"

definition cloud_delete_request :: "cloud_deleter \<Rightarrow> recording \<Rightarrow> out_request" where
  "cloud_delete_request d r =
     \<lparr>or_method = ''DELETE'', or_url = cd_base_url d @ ''/v1/recordings/'' @ rec_egress_id r,
      or_header = [(''Content-Type'', ''application/json''), (''X-Vulos-Schema'', CloudDeleteSchema),
        (''X-Vulos-Tenant'', rec_tenant r), (''Authorization'', ''Bearer '' @ cd_auth_tok d)],
      or_body = json_encode (JObj [(''schema'', JStr CloudDeleteSchema), (''tenant'', JStr (rec_tenant r)),
        (''room'', JStr (rec_room r)), (''egress_id'', JStr (rec_egress_id r))])\<rparr>"

definition cloud_delete_accepts :: "int \<Rightarrow> bool" where
  "cloud_delete_accepts status \<longleftrightarrow> status \<in> {200, 202, 204, 404}"

text \<open>\<open>url_ok\<close> is whether \<open>http.NewRequest\<close> accepts the URL.\<close>

definition cloud_delete :: "cloud_deleter \<Rightarrow> 'c http_client \<Rightarrow> (string \<Rightarrow> bool) \<Rightarrow> 'c blob_deleter" where
  "cloud_delete d client url_ok r c =
     (if rec_egress_id r = [] then (False, c)
      else
        let req = cloud_delete_request d r
        in if \<not> url_ok (or_url req) then (False, c)
           else case client req c of
             (Inl _, c') \<Rightarrow> (False, c')
           | (Inr status, c') \<Rightarrow> (cloud_delete_accepts status, c'))"

section \<open>One pass\<close>

type_synonym 's state_setter =
  "string \<Rightarrow> recording_state \<Rightarrow> int \<Rightarrow> 's \<Rightarrow> store_error option \<times> 's"

definition zero_sweep :: sweep_result where
  "zero_sweep = \<lparr>sw_examined = 0, sw_expired = 0, sw_deleted = 0, sw_delete_errs = 0,
     sw_bytes_freed = 0, sw_duration_freed = 0\<rparr>"

definition count_deleted :: "recording \<Rightarrow> sweep_result \<Rightarrow> sweep_result" where
  "count_deleted r res =
     res\<lparr>sw_deleted := sw_deleted res + 1, sw_bytes_freed := sw_bytes_freed res + rec_size_bytes r,
         sw_duration_freed := wrap64 (sw_duration_freed res +
           wrap64 (wrap64 (uint (rec_duration_ms r)) * millisecond))\<rparr>"

text \<open>The loop over the marked ids, in the order in which the map is iterated.\<close>

fun sweep_loop ::
  "'s state_setter \<Rightarrow> 'd blob_deleter \<Rightarrow> (string \<Rightarrow> recording) \<Rightarrow> int \<Rightarrow> string list \<Rightarrow>
     sweep_result \<Rightarrow> 's \<Rightarrow> 'd \<Rightarrow> store_error option \<times> sweep_result \<times> 's \<times> 'd" where
  "sweep_loop set_state del byID ts [] res s d = (None, res, s, d)"
| "sweep_loop set_state del byID ts (i # ids) res s d =
     (let r = byID i;
          (marked, s) = (if rec_state r \<noteq> RecordingStateExpired
                         then set_state i RecordingStateExpired ts s else (None, s))
      in case marked of
           Some e \<Rightarrow>
             if e = ErrRecordingNotFound then sweep_loop set_state del byID ts ids res s d
             else (Some e, res, s, d)
         | None \<Rightarrow>
             let res = (if rec_state r \<noteq> RecordingStateExpired
                        then res\<lparr>sw_expired := sw_expired res + 1\<rparr> else res);
                 (ok, d) = del (r\<lparr>rec_state := RecordingStateExpired\<rparr>) d
             in if \<not> ok
                then sweep_loop set_state del byID ts ids
                  (res\<lparr>sw_delete_errs := sw_delete_errs res + 1\<rparr>) s d
                else (case set_state i RecordingStateDeleted ts s of
                    (Some e, s) \<Rightarrow>
                      if e = ErrRecordingNotFound then sweep_loop set_state del byID ts ids res s d
                      else (Some e, res, s, d)
                  | (None, s) \<Rightarrow> sweep_loop set_state del byID ts ids (count_deleted r res) s d))"

text \<open>
  \<open>Run\<close>. The marked ids are listed in the order of the snapshot and then permuted by \<open>order\<close>, the
  iteration order of the Go map.
\<close>

definition marked_ids :: "retention_policy \<Rightarrow> recording list \<Rightarrow> time \<Rightarrow> string list" where
  "marked_ids p recs now =
     filter (\<lambda>i. i \<in> expiredEgressIDs p recs now) (map rec_egress_id recs)"

definition recording_by_id :: "recording list \<Rightarrow> string \<Rightarrow> recording" where
  "recording_by_id recs i =
     (case map_of (rev (map (\<lambda>r. (rec_egress_id r, r)) recs)) i of Some r \<Rightarrow> r | None \<Rightarrow> zero_recording)"

definition RetentionRun ::
  "retention_policy \<Rightarrow> ('s \<Rightarrow> store_error + recording list) \<Rightarrow> 's state_setter \<Rightarrow> 'd blob_deleter \<Rightarrow>
     (string list \<Rightarrow> string list) \<Rightarrow> time \<Rightarrow> 's \<Rightarrow> 'd \<Rightarrow> metrics option \<Rightarrow>
     store_error option \<times> sweep_result \<times> 's \<times> 'd \<times> metrics option" where
  "RetentionRun p list_recs set_state del order now s d m =
     (if \<not> policy_enabled p then (None, zero_sweep, s, d, m)
      else case list_recs s of
        Inl e \<Rightarrow> (Some e, zero_sweep, s, d, m)
      | Inr recs \<Rightarrow>
          let res = zero_sweep\<lparr>sw_examined := int (length recs)\<rparr>
          in case sweep_loop set_state del (recording_by_id recs) (time_unix now)
                 (order (marked_ids p recs now)) res s d of
               (Some e, res, s, d) \<Rightarrow> (Some e, res, s, d, m)
             | (None, res, s, d) \<Rightarrow> (None, res, s, d, ObserveRetentionSweep res m))"

datatype driver_error = RetentionNilStore

text \<open>\<open>NewRetentionDriver\<close>: a nil deleter becomes the no-op one. \<open>RunLoop\<close> runs on every tick.\<close>

definition driver_deleter :: "'d blob_deleter option \<Rightarrow> 'd blob_deleter" where
  "driver_deleter del = (case del of None \<Rightarrow> noop_delete | Some f \<Rightarrow> f)"

record ('s, 'd) retention_driver =
  dr_list :: "'s \<Rightarrow> store_error + recording list"
  dr_set_state :: "'s state_setter"
  dr_policy :: retention_policy
  dr_deleter :: "'d blob_deleter"

text \<open>A store is given by its listing and its state setter; \<open>None\<close> is the nil store.\<close>

definition NewRetentionDriver ::
  "(('s \<Rightarrow> store_error + recording list) \<times> 's state_setter) option \<Rightarrow> retention_policy \<Rightarrow> 'd blob_deleter option \<Rightarrow>
     driver_error + ('s, 'd) retention_driver" where
  "NewRetentionDriver store p del =
     (case store of
        None \<Rightarrow> Inl RetentionNilStore
      | Some (list_recs, set_state) \<Rightarrow>
          Inr \<lparr>dr_list = list_recs, dr_set_state = set_state, dr_policy = p, dr_deleter = driver_deleter del\<rparr>)"

definition RunLoop ::
  "retention_policy \<Rightarrow> duration \<Rightarrow> ('s \<Rightarrow> store_error + recording list) \<Rightarrow> 's state_setter \<Rightarrow>
     'd blob_deleter \<Rightarrow> (string list \<Rightarrow> string list) \<Rightarrow> time list \<Rightarrow> 's \<times> 'd \<times> metrics option \<Rightarrow>
     's \<times> 'd \<times> metrics option" where
  "RunLoop p interval list_recs set_state del order ticks st =
     (if interval \<le> 0 \<or> \<not> policy_enabled p then st
      else fold (\<lambda>now (s, d, m). case RetentionRun p list_recs set_state del order now s d m of
             (_, _, s', d', m') \<Rightarrow> (s', d', m')) ticks st)"

section \<open>The effect of a pass\<close>

text \<open>A deleter that decides by the recording and keeps what it was asked to delete.\<close>

definition log_deleter :: "(recording \<Rightarrow> bool) \<Rightarrow> recording list blob_deleter" where
  "log_deleter ok r calls = (ok r, calls @ [r])"

definition as_expired :: "recording \<Rightarrow> recording" where
  "as_expired r = r\<lparr>rec_state := RecordingStateExpired\<rparr>"

definition swept :: "(recording \<Rightarrow> bool) \<Rightarrow> int \<Rightarrow> recording \<Rightarrow> recording" where
  "swept ok ts r =
     (let r1 = (if rec_state r \<noteq> RecordingStateExpired then set_state_of r RecordingStateExpired ts else r)
      in if ok (as_expired r) then set_state_of r1 RecordingStateDeleted ts else r1)"

definition sweep_counts :: "(recording \<Rightarrow> bool) \<Rightarrow> recording \<Rightarrow> sweep_result \<Rightarrow> sweep_result" where
  "sweep_counts ok r res =
     (let res = (if rec_state r \<noteq> RecordingStateExpired then res\<lparr>sw_expired := sw_expired res + 1\<rparr> else res)
      in if ok (as_expired r) then count_deleted r res else res\<lparr>sw_delete_errs := sw_delete_errs res + 1\<rparr>)"

lemma swept_id [simp]: "rec_egress_id (swept ok ts r) = rec_egress_id r"
  by (simp add: swept_def Let_def)

lemma swept_state:
  "rec_state (swept ok ts r) = (if ok (as_expired r) then RecordingStateDeleted else RecordingStateExpired)"
  by (simp add: swept_def Let_def)

context recording_store
begin

text \<open>One pass over known, distinct ids: each is attempted once and ends deleted or expired.\<close>

lemma sweep_loop_effect:
  assumes "invar s" "distinct ids" "\<forall>i \<in> set ids. abs s i = Some (byID i)"
  shows "\<exists>s'. sweep_loop set_state (log_deleter ok) byID ts ids res s calls =
      (None, fold (\<lambda>i. sweep_counts ok (byID i)) ids res, s', calls @ map (\<lambda>i. as_expired (byID i)) ids) \<and>
    invar s' \<and> abs s' = (\<lambda>k. if k \<in> set ids then Some (swept ok ts (byID k)) else abs s k)"
  using assms
proof (induction ids arbitrary: s res calls)
  case (Cons i ids)
  define r where "r = byID i"
  have i: "abs s i = Some r" and i': "i \<notin> set ids" using Cons.prems by (auto simp: r_def)
  define fresh where "fresh \<longleftrightarrow> rec_state r \<noteq> RecordingStateExpired"
  define s1 where "s1 = (if fresh then snd (set_state i RecordingStateExpired ts s) else s)"
  define r1 where "r1 = (if fresh then set_state_of r RecordingStateExpired ts else r)"
  define s2 where "s2 = (if ok (as_expired r) then snd (set_state i RecordingStateDeleted ts s1) else s1)"
  have inv1: "invar s1" and abs1: "abs s1 = (abs s)(i \<mapsto> r1)"
    and mark: "(if fresh then set_state i RecordingStateExpired ts s else (None, s)) = (None, s1)"
    using set_state_known [OF Cons.prems(1) i] set_state_invar [OF Cons.prems(1)] Cons.prems(1) i
    by (auto simp: s1_def r1_def fun_upd_idem_iff prod_eq_iff)
  have i1: "abs s1 i = Some r1" by (simp add: abs1)
  have confirm: "set_state i RecordingStateDeleted ts s1 = (None, s2)" if "ok (as_expired r)"
    using that set_state_known [OF inv1 i1] by (simp add: s2_def prod_eq_iff)
  have inv2: "invar s2" using set_state_invar [OF inv1] inv1 by (simp add: s2_def)
  have abs2: "abs s2 = (abs s)(i \<mapsto> swept ok ts r)"
    using set_state_known [OF inv1 i1] abs1
    by (simp add: swept_def s2_def r1_def fresh_def Let_def)
  have known: "\<forall>j \<in> set ids. abs s2 j = Some (byID j)"
    using Cons.prems(3) i' by (auto simp: abs2)
  obtain s' where s': "sweep_loop set_state (log_deleter ok) byID ts ids (sweep_counts ok r res) s2
        (calls @ [as_expired r]) =
      (None, fold (\<lambda>i. sweep_counts ok (byID i)) ids (sweep_counts ok r res), s',
        (calls @ [as_expired r]) @ map (\<lambda>i. as_expired (byID i)) ids)"
    "invar s'" "abs s' = (\<lambda>k. if k \<in> set ids then Some (swept ok ts (byID k)) else abs s2 k)"
    using Cons.IH [OF inv2 _ known, of "sweep_counts ok r res" "calls @ [as_expired r]"] Cons.prems(2)
    by auto
  have "sweep_loop set_state (log_deleter ok) byID ts (i # ids) res s calls =
      sweep_loop set_state (log_deleter ok) byID ts ids (sweep_counts ok r res) s2 (calls @ [as_expired r])"
  proof (cases "ok (as_expired r)")
    case True
    then show ?thesis
      using mark confirm [OF True]
      by (simp add: log_deleter_def sweep_counts_def as_expired_def Let_def fresh_def flip: r_def)
  next
    case False
    then have "s2 = s1" by (simp add: s2_def)
    then show ?thesis
      using mark False
      by (simp add: log_deleter_def sweep_counts_def as_expired_def Let_def fresh_def flip: r_def)
  qed
  with s' show ?case by (auto simp: abs2 fun_eq_iff simp flip: r_def)
qed simp

end

section \<open>Passes over the in-memory ledger\<close>

definition ledger_list :: "mem_store \<Rightarrow> recording list" where
  "ledger_list s = sort_key rec_egress_id (map snd s)"

lemma List_recordings_eq: "List_recordings s = Inr (ledger_list s)"
  by (simp add: List_recordings_def ledger_list_def)

lemma ledger_list_distinct: "store_ok s \<Longrightarrow> distinct (map rec_egress_id (ledger_list s))"
  using mem.list_sound List_recordings_eq by blast

lemma in_ledger_list: "store_ok s \<Longrightarrow> r \<in> set (ledger_list s) \<longleftrightarrow> map_of s (rec_egress_id r) = Some r"
  using mem.list_sound [OF _ List_recordings_eq, of s] by blast

lemma recording_by_id_list:
  assumes "store_ok s" "i \<in> set (map rec_egress_id (ledger_list s))"
  shows "map_of s i = Some (recording_by_id (ledger_list s) i)"
proof -
  obtain r where r: "r \<in> set (ledger_list s)" "rec_egress_id r = i" using assms(2) by auto
  have "map fst (rev (map (\<lambda>r. (rec_egress_id r, r)) (ledger_list s))) = rev (map rec_egress_id (ledger_list s))"
    by (simp add: rev_map comp_def)
  then have "distinct (map fst (rev (map (\<lambda>r. (rec_egress_id r, r)) (ledger_list s))))"
    using ledger_list_distinct [OF assms(1)] by simp
  then have "map_of (rev (map (\<lambda>r. (rec_egress_id r, r)) (ledger_list s))) i = Some r"
    using r by (auto intro!: map_of_is_SomeI)
  then show ?thesis using r in_ledger_list [OF assms(1)] by (simp add: recording_by_id_def)
qed

lemma marked_ids_set:
  assumes "store_ok s"
  shows "set (marked_ids p (ledger_list s) now) = expiredEgressIDs p (ledger_list s) now"
    and "distinct (marked_ids p (ledger_list s) now)"
  using expired_subset_eligible [OF ledger_list_distinct [OF assms], of _ p now]
    ledger_list_distinct [OF assms]
  by (auto simp: marked_ids_def)

lemma count_deleted_counts:
  "sw_deleted (count_deleted r res) = sw_deleted res + 1"
  "sw_delete_errs (count_deleted r res) = sw_delete_errs res"
  "sw_expired (count_deleted r res) = sw_expired res"
  "sw_examined (count_deleted r res) = sw_examined res"
  by (simp_all add: count_deleted_def)

lemma fold_sweep_counts:
  "sw_deleted (fold (\<lambda>i. sweep_counts ok (f i)) ids res) =
     sw_deleted res + int (length (filter (\<lambda>i. ok (as_expired (f i))) ids)) \<and>
   sw_delete_errs (fold (\<lambda>i. sweep_counts ok (f i)) ids res) =
     sw_delete_errs res + int (length (filter (\<lambda>i. \<not> ok (as_expired (f i))) ids))"
  by (induction ids arbitrary: res) (auto simp: sweep_counts_def Let_def count_deleted_counts)

lemma run_mem_effect:
  assumes ok: "store_ok s" and en: "policy_enabled p" and perm: "\<And>xs. mset (order' xs) = mset xs"
  shows "\<exists>res s' calls m'.
    RetentionRun p List_recordings SetState (log_deleter ok') order' now s [] m = (None, res, s', calls, m') \<and>
    store_ok s' \<and>
    map_of s' = (\<lambda>k. if k \<in> expiredEgressIDs p (ledger_list s) now
      then map_option (swept ok' (time_unix now)) (map_of s k) else map_of s k) \<and>
    mset (map rec_egress_id calls) = mset (marked_ids p (ledger_list s) now) \<and>
    sw_deleted res + sw_delete_errs res = int (card (expiredEgressIDs p (ledger_list s) now)) \<and>
    (\<forall>r \<in> set calls. rec_state r = RecordingStateExpired \<and>
      (\<exists>r0. map_of s (rec_egress_id r) = Some r0 \<and> r = as_expired r0))"
proof -
  let ?recs = "ledger_list s"
  let ?ids = "order' (marked_ids p ?recs now)"
  let ?by = "recording_by_id ?recs"
  have ids: "set ?ids = expiredEgressIDs p ?recs now" "distinct ?ids"
    using marked_ids_set [OF ok, of p now] perm mset_eq_setD mset_eq_imp_distinct_iff by metis+
  have sub: "set ?ids \<subseteq> set (map rec_egress_id ?recs)"
    using perm [of "marked_ids p ?recs now", THEN mset_eq_setD] by (auto simp: marked_ids_def)
  have known: "\<forall>i \<in> set ?ids. map_of s i = Some (?by i)"
    using recording_by_id_list [OF ok] sub by blast
  let ?res = "zero_sweep\<lparr>sw_examined := int (length ?recs)\<rparr>"
  obtain s' where s': "sweep_loop SetState (log_deleter ok') ?by (time_unix now) ?ids ?res s [] =
      (None, fold (\<lambda>i. sweep_counts ok' (?by i)) ?ids ?res, s', [] @ map (\<lambda>i. as_expired (?by i)) ?ids)"
    "store_ok s'" "map_of s' = (\<lambda>k. if k \<in> set ?ids then Some (swept ok' (time_unix now) (?by k)) else map_of s k)"
    using mem.sweep_loop_effect [OF ok ids(2) known] by blast
  let ?calls = "map (\<lambda>i. as_expired (?by i)) ?ids"
  have id: "rec_egress_id (?by i) = i" if "i \<in> set ?ids" for i
    using known that store_okD [OF ok] by blast
  have m: "map rec_egress_id ?calls = ?ids"
    using id by (simp add: as_expired_def map_idI)
  have "sw_deleted (fold (\<lambda>i. sweep_counts ok' (?by i)) ?ids ?res) +
      sw_delete_errs (fold (\<lambda>i. sweep_counts ok' (?by i)) ?ids ?res) = int (length ?ids)"
    using fold_sweep_counts [of ok' ?by ?ids ?res] sum_length_filter_compl [of "\<lambda>i. ok' (as_expired (?by i))" ?ids]
    by (simp add: zero_sweep_def)
  also have "\<dots> = int (card (expiredEgressIDs p ?recs now))"
    using ids distinct_card by fastforce
  finally have cnt: "sw_deleted (fold (\<lambda>i. sweep_counts ok' (?by i)) ?ids ?res) +
      sw_delete_errs (fold (\<lambda>i. sweep_counts ok' (?by i)) ?ids ?res) = int (card (expiredEgressIDs p ?recs now))" .
  have calls: "\<forall>r \<in> set ?calls. rec_state r = RecordingStateExpired \<and>
      (\<exists>r0. map_of s (rec_egress_id r) = Some r0 \<and> r = as_expired r0)"
    using known id by (auto simp: as_expired_def)
  have run: "RetentionRun p List_recordings SetState (log_deleter ok') order' now s [] m =
      (None, fold (\<lambda>i. sweep_counts ok' (?by i)) ?ids ?res, s', ?calls,
       ObserveRetentionSweep (fold (\<lambda>i. sweep_counts ok' (?by i)) ?ids ?res) m)"
    using s'(1) en by (simp add: RetentionRun_def List_recordings_eq)
  have maps: "map_of s' = (\<lambda>k. if k \<in> expiredEgressIDs p ?recs now
      then map_option (swept ok' (time_unix now)) (map_of s k) else map_of s k)"
    using s'(3) known by (auto simp: fun_eq_iff ids(1))
  have msets: "mset (map rec_egress_id ?calls) = mset (marked_ids p ?recs now)"
    by (simp only: m perm)
  show ?thesis using run s'(2) maps msets cnt calls by blast
qed

section \<open>Interleaving with the webhook receiver\<close>

text \<open>
  The receiver and the driver share the ledger; each store operation is atomic under the mutex, and
  between the operations of a pass any number of webhook updates may happen. The driver is a program
  counter: idle, with the rest of its snapshot to process, or with a delete in flight.
\<close>

datatype driver_pc = Idle | Sweeping "recording list" | Deleting recording "recording list"

definition webhook_state :: "recording_state \<Rightarrow> bool" where
  "webhook_state st \<longleftrightarrow> st \<in> {RecordingStateRecording, RecordingStateAvailable, RecordingStateFailed}"

inductive ledger_step ::
  "retention_policy \<Rightarrow> mem_store \<times> driver_pc \<Rightarrow> mem_store \<times> driver_pc \<Rightarrow> bool" for p where
  webhook: "webhook_state (rec_state r) \<Longrightarrow> ledger_step p (s, pc) (snd (Upsert r s), pc)"
| start: "distinct todo \<Longrightarrow>
     set todo = {r \<in> set (ledger_list s). rec_egress_id r \<in> expiredEgressIDs p (ledger_list s) now} \<Longrightarrow>
     ledger_step p (s, Idle) (s, Sweeping todo)"
| mark: "s' = (if rec_state r \<noteq> RecordingStateExpired
               then snd (SetState (rec_egress_id r) RecordingStateExpired ts s) else s) \<Longrightarrow>
     ledger_step p (s, Sweeping (r # todo)) (s', Deleting r todo)"
| delete_failed: "ledger_step p (s, Deleting r todo) (s, Sweeping todo)"
| delete_confirmed:
    "ledger_step p (s, Deleting r todo)
       (snd (SetState (rec_egress_id r) RecordingStateDeleted ts s), Sweeping todo)"
| finish: "ledger_step p (s, Sweeping []) (s, Idle)"

inductive_cases ledger_step_elim: "ledger_step p (s, pc) (s', pc')"

definition rank_at :: "mem_store \<Rightarrow> string \<Rightarrow> nat option" where
  "rank_at s k = map_option (\<lambda>r. stateRank (rec_state r)) (map_of s k)"

text \<open>What the driver knows of the recordings it still has to process.\<close>

definition todo_ok :: "mem_store \<Rightarrow> recording list \<Rightarrow> bool" where
  "todo_ok s todo \<longleftrightarrow> distinct (map rec_egress_id todo) \<and>
     (\<forall>r \<in> set todo. rec_egress_id r \<noteq> [] \<and>
       (\<exists>cur. map_of s (rec_egress_id r) = Some cur \<and>
         stateRank (rec_state cur) \<in> {1, 2} \<and>
         (rec_state r = RecordingStateExpired \<longrightarrow> rec_state cur = RecordingStateExpired)))"

fun ledger_inv :: "mem_store \<times> driver_pc \<Rightarrow> bool" where
  "ledger_inv (s, Idle) \<longleftrightarrow> store_ok s"
| "ledger_inv (s, Sweeping todo) \<longleftrightarrow> store_ok s \<and> todo_ok s todo"
| "ledger_inv (s, Deleting r todo) \<longleftrightarrow> store_ok s \<and> todo_ok s todo \<and>
     rec_egress_id r \<notin> set (map rec_egress_id todo) \<and>
     (\<exists>cur. map_of s (rec_egress_id r) = Some cur \<and> rec_state cur = RecordingStateExpired)"

lemma SetState_lookup:
  "map_of (snd (SetState k st ts s)) j =
     (if j = k then map_option (\<lambda>cur. set_state_of cur st ts) (map_of s k) else map_of s j)"
  by (auto simp: SetState_def split: option.split)

lemma merge_webhook_expired:
  "webhook_state (rec_state r) \<Longrightarrow> rec_state cur = RecordingStateExpired \<Longrightarrow>
     rec_state (merge_recording cur r) = RecordingStateExpired"
  by (auto simp: webhook_state_def merge_recording_def stateRegresses_def)

lemma merge_webhook_rank:
  "webhook_state (rec_state r) \<Longrightarrow> stateRank (rec_state cur) \<in> {1, 2} \<Longrightarrow>
     stateRank (rec_state (merge_recording cur r)) \<in> {1, 2}"
  by (auto simp: webhook_state_def merge_rank)

lemma todo_ok_webhook:
  assumes "todo_ok s todo" "webhook_state (rec_state r)"
  shows "todo_ok (snd (Upsert r s)) todo"
  using assms merge_webhook_expired [OF assms(2)] merge_webhook_rank [OF assms(2)]
  unfolding todo_ok_def by (fastforce simp: Upsert_lookup)

lemma todo_ok_other:
  "todo_ok s todo \<Longrightarrow> k \<notin> set (map rec_egress_id todo) \<Longrightarrow> todo_ok (snd (SetState k st ts s)) todo"
  unfolding todo_ok_def by (fastforce simp: SetState_lookup)

lemma todo_ok_tl: "todo_ok s (r # todo) \<Longrightarrow> todo_ok s todo \<and> rec_egress_id r \<notin> set (map rec_egress_id todo)"
  by (simp add: todo_ok_def)

lemma todo_ok_start:
  assumes ok: "store_ok s" and d: "distinct todo"
    and t: "set todo = {r \<in> set (ledger_list s). rec_egress_id r \<in> expiredEgressIDs p (ledger_list s) now}"
  shows "todo_ok s todo"
proof -
  have "inj_on rec_egress_id (set (ledger_list s))"
    using ledger_list_distinct [OF ok] by (simp add: distinct_map)
  then have inj: "inj_on rec_egress_id (set todo)" using t by (auto intro: inj_on_subset)
  have "stateRank (rec_state r) \<in> {1, 2}" if r: "r \<in> set todo" for r
  proof -
    obtain q where q: "q \<in> set (ledger_list s)" "rec_egress_id q = rec_egress_id r" "retention_eligible q"
      using r t expired_subset_eligible [OF ledger_list_distinct [OF ok]] by blast
    have "q = r" using q r t in_ledger_list [OF ok] by (metis (no_types, lifting) mem_Collect_eq option.inject)
    with q show ?thesis by (cases "rec_state r") (auto simp: retention_eligible_def)
  qed
  moreover have "map_of s (rec_egress_id r) = Some r \<and> rec_egress_id r \<noteq> []" if "r \<in> set todo" for r
    using that t in_ledger_list [OF ok] store_okD [OF ok] by blast
  ultimately show ?thesis using inj d by (auto simp: todo_ok_def distinct_map)
qed

lemma ledger_inv_step:
  assumes "ledger_step p x y" "ledger_inv x" shows "ledger_inv y"
  using assms
proof (induction rule: ledger_step.induct)
  case (webhook r s pc)
  then show ?case
    by (cases pc) (auto simp: store_ok_Upsert todo_ok_webhook Upsert_lookup merge_webhook_expired)
next
  case (start todo s now)
  then show ?case using todo_ok_start by auto
next
  case (mark s' r ts s todo)
  then have ok: "store_ok s" "todo_ok s (r # todo)" by auto
  then obtain cur where cur: "map_of s (rec_egress_id r) = Some cur"
    "rec_state r = RecordingStateExpired \<longrightarrow> rec_state cur = RecordingStateExpired"
    by (auto simp: todo_ok_def)
  then show ?case
    using mark(1) ok todo_ok_tl [OF ok(2)] by (auto simp: store_ok_SetState todo_ok_other SetState_lookup)
next
  case (delete_confirmed s r todo ts)
  then show ?case by (auto simp: store_ok_SetState todo_ok_other)
qed auto

lemma ledger_step_rank:
  assumes "ledger_step p x y" "ledger_inv x" "rank_at (fst x) k = Some n"
  shows "\<exists>n'. rank_at (fst y) k = Some n' \<and> n \<le> n'"
  using assms
proof (induction rule: ledger_step.induct)
  case (webhook r s pc)
  then show ?case by (auto simp: rank_at_def Upsert_lookup merge_rank)
next
  case (mark s' r ts s todo)
  then show ?case by (auto simp: rank_at_def SetState_lookup todo_ok_def split: if_splits)
next
  case (delete_confirmed s r todo ts)
  then show ?case by (auto simp: rank_at_def SetState_lookup) 
qed auto

text \<open>A step that makes a recording deleted is the confirmation of the delete in flight for it.\<close>

lemma ledger_step_deletes:
  assumes "ledger_step p x y" "ledger_inv x" "rank_at (fst x) k \<noteq> Some 3" "rank_at (fst y) k = Some 3"
  shows "\<exists>r todo. snd x = Deleting r todo \<and> rec_egress_id r = k \<and> rank_at (fst x) k = Some 2"
  using assms
proof (induction rule: ledger_step.induct)
  case (webhook r s pc)
  then show ?case
    by (auto simp: rank_at_def Upsert_lookup merge_rank webhook_state_def max_def split: if_splits option.splits)
next
  case (mark s' r ts s todo)
  then show ?case by (auto simp: rank_at_def SetState_lookup split: if_splits)
next
  case (delete_confirmed s r todo ts)
  then show ?case by (auto simp: rank_at_def SetState_lookup split: if_splits)
qed auto

text \<open>A pass of the code is a path of steps.\<close>

lemma sweep_loop_steps:
  assumes "ledger_inv (s, Sweeping todo)" "\<forall>r \<in> set todo. byID (rec_egress_id r) = r"
  shows "\<exists>res' s' d'. sweep_loop SetState del byID ts (map rec_egress_id todo) res s d = (None, res', s', d') \<and>
    (ledger_step p)\<^sup>*\<^sup>* (s, Sweeping todo) (s', Sweeping [])"
  using assms
proof (induction todo arbitrary: s res d)
  case (Cons r todo)
  let ?i = "rec_egress_id r"
  have bi: "byID ?i = r" and byt: "\<forall>q \<in> set todo. byID (rec_egress_id q) = q" using Cons.prems by auto
  define s1 where "s1 = (if rec_state r \<noteq> RecordingStateExpired then snd (SetState ?i RecordingStateExpired ts s) else s)"
  have step1: "ledger_step p (s, Sweeping (r # todo)) (s1, Deleting r todo)"
    unfolding s1_def by (rule ledger_step.mark) simp
  have inv1: "ledger_inv (s1, Deleting r todo)" by (rule ledger_inv_step [OF step1 Cons.prems(1)])
  obtain cur where "map_of s ?i = Some cur" using Cons.prems(1) by (auto simp: todo_ok_def)
  then have m1: "(if rec_state r \<noteq> RecordingStateExpired then SetState ?i RecordingStateExpired ts s else (None, s)) = (None, s1)"
    by (simp add: s1_def SetState_def)
  obtain ok d1 where del: "del (r\<lparr>rec_state := RecordingStateExpired\<rparr>) d = (ok, d1)" by fastforce
  define s2 where "s2 = (if ok then snd (SetState ?i RecordingStateDeleted ts s1) else s1)"
  have step2: "ledger_step p (s1, Deleting r todo) (s2, Sweeping todo)"
    by (cases ok) (simp_all add: s2_def ledger_step.delete_confirmed ledger_step.delete_failed)
  have inv2: "ledger_inv (s2, Sweeping todo)" by (rule ledger_inv_step [OF step2 inv1])
  obtain cur1 where "map_of s1 ?i = Some cur1" using inv1 by auto
  then have m2: "SetState ?i RecordingStateDeleted ts s1 = (None, s2)" if ok
    using that by (simp add: s2_def SetState_def)
  have path: "(ledger_step p)\<^sup>*\<^sup>* (s, Sweeping (r # todo)) (s2, Sweeping todo)"
    using step1 step2 by (meson converse_rtranclp_into_rtranclp r_into_rtranclp)
  note IH = Cons.IH [OF inv2 byt]
  have "\<exists>res2. sweep_loop SetState del byID ts (map rec_egress_id (r # todo)) res s d =
      sweep_loop SetState del byID ts (map rec_egress_id todo) res2 s2 d1"
  proof (cases ok)
    case True
    then show ?thesis using m1 m2 del by (auto simp: bi Let_def)
  next
    case False
    then have "s2 = s1" by (simp add: s2_def)
    with False show ?thesis using m1 del by (auto simp: bi Let_def)
  qed
  then obtain res2 where "sweep_loop SetState del byID ts (map rec_egress_id (r # todo)) res s d =
      sweep_loop SetState del byID ts (map rec_egress_id todo) res2 s2 d1" by blast
  moreover obtain res' s' d' where "sweep_loop SetState del byID ts (map rec_egress_id todo) res2 s2 d1 = (None, res', s', d')"
      "(ledger_step p)\<^sup>*\<^sup>* (s2, Sweeping todo) (s', Sweeping [])"
    using IH [of res2 d1] by blast
  ultimately show ?case using path by (metis rtranclp_trans)
qed simp

lemma run_is_steps:
  assumes ok: "store_ok s" and en: "policy_enabled p" and perm: "\<And>xs. mset (order' xs) = mset xs"
    and run: "RetentionRun p List_recordings SetState del order' now s d m = (err, res, s', d', m')"
  shows "err = None \<and> (ledger_step p)\<^sup>*\<^sup>* (s, Idle) (s', Idle)"
proof -
  let ?recs = "ledger_list s"
  let ?ids = "order' (marked_ids p ?recs now)"
  let ?by = "recording_by_id ?recs"
  let ?todo = "map ?by ?ids"
  have ids: "set ?ids = expiredEgressIDs p ?recs now" "distinct ?ids"
    using marked_ids_set [OF ok, of p now] perm mset_eq_setD mset_eq_imp_distinct_iff by metis+
  have "set ?ids \<subseteq> set (map rec_egress_id ?recs)"
    using perm [of "marked_ids p ?recs now", THEN mset_eq_setD] by (auto simp: marked_ids_def)
  then have known: "\<forall>i \<in> set ?ids. map_of s i = Some (?by i)"
    using recording_by_id_list [OF ok] by blast
  have id: "rec_egress_id (?by i) = i" if "i \<in> set ?ids" for i
    using known that store_okD [OF ok] by blast
  have map_id: "map rec_egress_id ?todo = ?ids" using id by (simp add: map_idI)
  then have dt: "distinct ?todo" using ids(2) by (metis distinct_map)
  have "set ?todo = {r \<in> set ?recs. rec_egress_id r \<in> expiredEgressIDs p ?recs now}"
  proof (intro set_eqI iffI)
    fix r assume "r \<in> set ?todo"
    then obtain i where i: "i \<in> set ?ids" "r = ?by i" by auto
    then show "r \<in> {r \<in> set ?recs. rec_egress_id r \<in> expiredEgressIDs p ?recs now}"
      using known id [OF i(1)] ids(1) by (simp add: in_ledger_list [OF ok])
  next
    fix r assume "r \<in> {r \<in> set ?recs. rec_egress_id r \<in> expiredEgressIDs p ?recs now}"
    then have r: "map_of s (rec_egress_id r) = Some r" "rec_egress_id r \<in> set ?ids"
      using ids(1) by (simp_all add: in_ledger_list [OF ok])
    then have "r = ?by (rec_egress_id r)" using known by simp
    then show "r \<in> set ?todo" using r(2) by (metis image_eqI set_map)
  qed
  then have start: "ledger_step p (s, Idle) (s, Sweeping ?todo)"
    using dt by (intro ledger_step.start) auto
  have inv: "ledger_inv (s, Sweeping ?todo)" by (rule ledger_inv_step [OF start]) (simp add: ok)
  have bi: "\<forall>r \<in> set ?todo. ?by (rec_egress_id r) = r" using id by auto
  obtain res1 s1 d1 where loop: "sweep_loop SetState del ?by (time_unix now) (map rec_egress_id ?todo)
        (zero_sweep\<lparr>sw_examined := int (length ?recs)\<rparr>) s d = (None, res1, s1, d1)"
    and path: "(ledger_step p)\<^sup>*\<^sup>* (s, Sweeping ?todo) (s1, Sweeping [])"
    using sweep_loop_steps [OF inv bi, where del = del and ts = "time_unix now" and d = d and p = p and
        res = "zero_sweep\<lparr>sw_examined := int (length ?recs)\<rparr>"] by blast
  have "err = None \<and> s' = s1"
    using run loop en unfolding map_id by (simp add: RetentionRun_def List_recordings_eq)
  moreover have "(ledger_step p)\<^sup>*\<^sup>* (s, Idle) (s1, Idle)"
    using start path ledger_step.finish [of p s1]
    by (meson converse_rtranclp_into_rtranclp rtranclp.rtrancl_into_rtrancl)
  ultimately show ?thesis by simp
qed

lemma ledger_reachable:
  assumes "(ledger_step p)\<^sup>*\<^sup>* x y" "ledger_inv x"
  shows "ledger_inv y \<and> (\<forall>k n. rank_at (fst x) k = Some n \<longrightarrow> (\<exists>n'. rank_at (fst y) k = Some n' \<and> n \<le> n'))"
  using assms
proof (induction rule: rtranclp_induct)
  case (step y z)
  then have inv: "ledger_inv y" by blast
  have "\<exists>n'. rank_at (fst z) k = Some n' \<and> n \<le> n'" if k: "rank_at (fst x) k = Some n" for k n
  proof -
    obtain n1 where n1: "rank_at (fst y) k = Some n1" "n \<le> n1" using step k by blast
    obtain n2 where "rank_at (fst z) k = Some n2" "n1 \<le> n2"
      using ledger_step_rank [OF step(2) inv n1(1)] by blast
    with n1(2) show ?thesis by auto
  qed
  then show ?case using ledger_inv_step [OF step(2) inv] by blast
qed auto

section \<open>Nothing is left behind by a successful pass\<close>

lemma expired_mono:
  assumes ok: "store_ok s" "store_ok s'" and nul: "tenants_without_nul (ledger_list s)"
    and sub: "\<And>k r. map_of s' k = Some r \<Longrightarrow> retention_eligible r \<Longrightarrow> map_of s k = Some r"
    and nul': "tenants_without_nul (ledger_list s')"
  shows "expiredEgressIDs p (ledger_list s') now \<subseteq> expiredEgressIDs p (ledger_list s) now"
proof
  fix i assume "i \<in> expiredEgressIDs p (ledger_list s') now"
  then obtain r where r: "r \<in> set (ledger_list s')" "rec_egress_id r = i" "past_retention p (ledger_list s') now r"
    using expired_iff [OF ledger_list_distinct [OF ok(2)] nul'] by blast
  have el: "retention_eligible r" using r(3) by (simp add: past_retention_def)
  have keep: "q \<in> set (ledger_list s)" if "q \<in> set (ledger_list s')" "retention_eligible q" for q
    using sub that in_ledger_list [OF ok(1)] in_ledger_list [OF ok(2)] by blast
  have le: "newer_in (filter (\<lambda>q. retention_eligible q \<and> P q) (ledger_list s')) r \<le>
      newer_in (filter (\<lambda>q. retention_eligible q \<and> P q) (ledger_list s)) r" for P
  proof -
    have len: "newer_in (filter Q xs) r = card {q \<in> set xs. Q q \<and> newness_of r < newness_of q}"
      if "distinct (map rec_egress_id xs)" for Q xs
    proof -
      have "distinct xs" using that by (simp add: distinct_map)
      then have "length (filter (\<lambda>q. Q q \<and> newness_of r < newness_of q) xs) =
          card (set (filter (\<lambda>q. Q q \<and> newness_of r < newness_of q) xs))"
        by (metis distinct_card distinct_filter)
      then show ?thesis by (simp add: conj_commute)
    qed
    show ?thesis
      unfolding len [OF ledger_list_distinct [OF ok(1)]] len [OF ledger_list_distinct [OF ok(2)]]
      using keep by (intro card_mono) auto
  qed
  have "past_retention p (ledger_list s) now r"
    using r(3) le [of "\<lambda>q. rec_tenant q = rec_tenant r \<and> rec_room q = rec_room r"]
      le [of "\<lambda>q. rec_tenant q = rec_tenant r"]
    unfolding past_retention_def by auto
  then show "i \<in> expiredEgressIDs p (ledger_list s) now"
    using expired_iff [OF ledger_list_distinct [OF ok(1)] nul] keep [OF r(1) el] r(2) by blast
qed

section \<open>Properties\<close>

text \<open>
  C21. One pass, whatever order the marked set is iterated in: it returns no error, hands each
  recording past retention to the deleter exactly once and marked expired, and leaves precisely those
  recordings deleted (delete confirmed) or expired (delete failed), every other one as it was; the
  deleted and failed counts add up to the number marked.
\<close>

theorem retention_pass_effect:
  assumes "store_ok s" "policy_enabled p" "\<And>xs. mset (order' xs) = mset xs"
  shows "\<exists>res s' calls m'.
    RetentionRun p List_recordings SetState (log_deleter ok) order' now s [] m = (None, res, s', calls, m') \<and>
    store_ok s' \<and>
    map_of s' = (\<lambda>k. if k \<in> expiredEgressIDs p (ledger_list s) now
      then map_option (swept ok (time_unix now)) (map_of s k) else map_of s k) \<and>
    mset (map rec_egress_id calls) = mset (marked_ids p (ledger_list s) now) \<and>
    sw_deleted res + sw_delete_errs res = int (card (expiredEgressIDs p (ledger_list s) now)) \<and>
    (\<forall>r \<in> set calls. rec_state r = RecordingStateExpired \<and>
      (\<exists>r0. map_of s (rec_egress_id r) = Some r0 \<and> r = as_expired r0))"
  using assms by (rule run_mem_effect)

definition sample_ledger :: mem_store where
  "sample_ledger = map (\<lambda>r. (rec_egress_id r, r)) sample_recordings"

lemma sample_ledger_ok: "store_ok sample_ledger"
  by (simp add: sample_ledger_def sample_recordings_def store_ok_def)

definition sample_policy :: retention_policy where
  "sample_policy = \<lparr>pol_ttl = 0, pol_max_per_room = 1, pol_max_per_tenant = 2\<rparr>"

lemma sample_policy_enabled: "policy_enabled sample_policy"
  by (simp add: sample_policy_def policy_enabled_def)

theorem retention_pass_effect_witness:
  "\<exists>res s' calls m'.
    RetentionRun sample_policy List_recordings SetState (log_deleter (\<lambda>_. True)) rev 0 sample_ledger [] None =
      (None, res, s', calls, m') \<and> store_ok s'"
  using retention_pass_effect [OF sample_ledger_ok sample_policy_enabled, of rev "\<lambda>_. True" 0 None]
  by fastforce

text \<open>
  A pass whose deletes all succeed leaves nothing past retention: at the same instant a second
  pass marks nothing.
\<close>

theorem retention_pass_clears:
  assumes "store_ok s" "tenants_without_nul (ledger_list s)" "policy_enabled p"
    and "\<And>xs. mset (order' xs) = mset xs"
    and "RetentionRun p List_recordings SetState (log_deleter (\<lambda>_. True)) order' now s [] m = (err, res, s', calls, m')"
  shows "expiredEgressIDs p (ledger_list s') now = {}"
proof -
  have ok': "store_ok s'" and maps: "map_of s' = (\<lambda>k. if k \<in> expiredEgressIDs p (ledger_list s) now
      then map_option (swept (\<lambda>_. True) (time_unix now)) (map_of s k) else map_of s k)"
    using run_mem_effect [OF assms(1,3,4), of "\<lambda>_. True" now m] assms(5) by auto
  have dead: "\<not> retention_eligible (swept (\<lambda>_. True) (time_unix now) r)" for r
    by (simp add: retention_eligible_def swept_state)
  have ten: "rec_tenant (swept (\<lambda>_. True) (time_unix now) r) = rec_tenant r" for r
    by (simp add: swept_def Let_def set_state_of_def)
  have keep: "map_of s k = Some r \<and> k \<notin> expiredEgressIDs p (ledger_list s) now"
    if "map_of s' k = Some r" "retention_eligible r" for k r
    using that dead by (auto simp: maps split: if_splits)
  have "CHR 0x00 \<notin> set (rec_tenant r)" if "r \<in> set (ledger_list s')" for r
  proof -
    have r: "map_of s' (rec_egress_id r) = Some r" using that by (simp only: in_ledger_list [OF ok'])
    have "\<exists>r0. map_of s (rec_egress_id r) = Some r0 \<and> rec_tenant r = rec_tenant r0"
    proof (cases "rec_egress_id r \<in> expiredEgressIDs p (ledger_list s) now")
      case True
      with r obtain r0 where "map_of s (rec_egress_id r) = Some r0"
        "r = swept (\<lambda>_. True) (time_unix now) r0"
        unfolding maps by auto
      then show ?thesis using ten by metis
    next
      case False
      with r show ?thesis unfolding maps by simp
    qed
    then obtain r0 where "map_of s (rec_egress_id r) = Some r0" "rec_tenant r = rec_tenant r0" by blast
    moreover have "r0 \<in> set (ledger_list s)"
      using calculation(1) store_okD [OF assms(1)] in_ledger_list [OF assms(1)] by metis
    ultimately show ?thesis using assms(2) by (auto simp: tenants_without_nul_def)
  qed
  then have nul': "tenants_without_nul (ledger_list s')" by (simp add: tenants_without_nul_def)
  have sub: "expiredEgressIDs p (ledger_list s') now \<subseteq> expiredEgressIDs p (ledger_list s) now"
    using keep by (intro expired_mono [OF assms(1) ok' assms(2) _ nul']) blast
  moreover have "i \<notin> expiredEgressIDs p (ledger_list s) now"
    if i: "i \<in> expiredEgressIDs p (ledger_list s') now" for i
  proof -
    obtain r where "r \<in> set (ledger_list s')" "rec_egress_id r = i" "retention_eligible r"
      using expired_subset_eligible [OF ledger_list_distinct [OF ok'] i] by blast
    then show ?thesis using keep in_ledger_list [OF ok'] by blast
  qed
  ultimately show ?thesis by blast
qed

theorem retention_pass_clears_witness:
  "expiredEgressIDs sample_policy (ledger_list (fst (snd (snd (RetentionRun sample_policy List_recordings SetState
     (log_deleter (\<lambda>_. True)) (\<lambda>xs. xs) 0 sample_ledger [] None))))) 0 = {}"
proof -
  have "tenants_without_nul (ledger_list sample_ledger)"
    using sample_recordings_ok by (simp add: tenants_without_nul_def ledger_list_def sample_ledger_def)
  then show ?thesis
    using retention_pass_clears [OF sample_ledger_ok _ sample_policy_enabled, of "\<lambda>xs. xs" 0 None]
    by (cases "RetentionRun sample_policy List_recordings SetState (log_deleter (\<lambda>_. True)) (\<lambda>xs. xs) 0
        sample_ledger [] None") simp
qed

text \<open>
  A failed delete is not always retried: with both caps set, the room cap's successful deletes can
  bring the tenant back under its cap, so the recording whose delete failed is no longer past
  retention. It stays expired with its blob in place, and the next pass, in which every delete would
  succeed, does not ask for its deletion.
\<close>

theorem failed_delete_can_be_forgotten:
  "(let run1 = RetentionRun sample_policy List_recordings SetState
        (log_deleter (\<lambda>r. rec_egress_id r \<noteq> ''b1'')) (\<lambda>xs. xs) 0 sample_ledger [] None;
      s1 = fst (snd (snd run1));
      run2 = RetentionRun sample_policy List_recordings SetState (log_deleter (\<lambda>_. True)) (\<lambda>xs. xs) 0 s1 [] None;
      s2 = fst (snd (snd run2))
    in sw_delete_errs (fst (snd run1)) = 1 \<and>
       map_option rec_state (map_of s1 ''b1'') = Some RecordingStateExpired \<and>
       fst (snd (snd (snd run2))) = [] \<and>
       map_option rec_state (map_of s2 ''b1'') = Some RecordingStateExpired)"
  by code_simp

text \<open>
  C22. The lifecycle only moves forward: however webhook updates interleave with the store operations
  of the passes, no recording ever leaves the ledger or loses rank, and a recording becomes deleted
  only by the confirmed delete of a recording that is expired at that moment; a recording in progress
  is never deleted.
\<close>

theorem lifecycle_never_regresses:
  assumes "store_ok s0" "(ledger_step p)\<^sup>*\<^sup>* (s0, Idle) (s, pc)"
  shows "store_ok s \<and>
    (\<forall>k n. rank_at s0 k = Some n \<longrightarrow> (\<exists>n'. rank_at s k = Some n' \<and> n \<le> n')) \<and>
    (\<forall>s' pc' k. ledger_step p (s, pc) (s', pc') \<and> rank_at s k \<noteq> Some 3 \<and> rank_at s' k = Some 3 \<longrightarrow>
      (\<exists>r todo. pc = Deleting r todo \<and> rec_egress_id r = k \<and> rank_at s k = Some 2))"
proof -
  have inv: "ledger_inv (s, pc)"
    and up: "\<forall>k n. rank_at s0 k = Some n \<longrightarrow> (\<exists>n'. rank_at s k = Some n' \<and> n \<le> n')"
    using ledger_reachable [OF assms(2)] assms(1) by auto
  have "store_ok s" using inv by (cases pc) auto
  then show ?thesis using up ledger_step_deletes [OF _ inv] by auto
qed

text \<open>
  The code's pass is such a path: every run of \<open>RetentionRun\<close> over the in-memory ledger, with any
  deleter, succeeds and is a sequence of these steps from idle to idle.
\<close>

theorem retention_run_refines_steps:
  assumes "store_ok s" "policy_enabled p" "\<And>xs. mset (order' xs) = mset xs"
    and "RetentionRun p List_recordings SetState del order' now s d m = (err, res, s', d', m')"
  shows "err = None \<and> (ledger_step p)\<^sup>*\<^sup>* (s, Idle) (s', Idle)"
  using assms by (rule run_is_steps)

theorem retention_run_refines_steps_witness:
  "(ledger_step sample_policy)\<^sup>*\<^sup>* (sample_ledger, Idle)
     (fst (snd (snd (RetentionRun sample_policy List_recordings SetState noop_delete (\<lambda>xs. xs) 0
        sample_ledger () None))), Idle)"
  using retention_run_refines_steps [OF sample_ledger_ok sample_policy_enabled, of "\<lambda>xs. xs" noop_delete 0 "()" None]
  by (cases "RetentionRun sample_policy List_recordings SetState noop_delete (\<lambda>xs. xs) 0 sample_ledger () None") simp

theorem lifecycle_never_regresses_witness:
  "\<exists>n'. rank_at (fst (snd (snd (RetentionRun sample_policy List_recordings SetState noop_delete (\<lambda>xs. xs) 0
        sample_ledger () None)))) ''b1'' = Some n' \<and> 1 \<le> n'"
proof -
  have "(ledger_step sample_policy)\<^sup>*\<^sup>* (sample_ledger, Idle)
     (fst (snd (snd (RetentionRun sample_policy List_recordings SetState noop_delete (\<lambda>xs. xs) 0
        sample_ledger () None))), Idle)"
    using run_is_steps [OF sample_ledger_ok sample_policy_enabled, of "\<lambda>xs. xs" noop_delete 0 "()" None]
    by (cases "RetentionRun sample_policy List_recordings SetState noop_delete (\<lambda>xs. xs) 0 sample_ledger () None") simp
  moreover have "rank_at sample_ledger ''b1'' = Some 1" by code_simp
  ultimately show ?thesis using lifecycle_never_regresses [OF sample_ledger_ok] by blast
qed

text \<open>
  The cloud deleter reports a blob gone exactly when the sink answers 200, 202, 204 or 404 to one
  authenticated DELETE for that egress and tenant; an empty egress id sends nothing.
\<close>

theorem cloud_delete_contract:
  assumes "NewCloudBlobDeleter base tok = Inr d"
  shows "cloud_delete d (log_client answers) (\<lambda>_. True) r [] =
    (if rec_egress_id r = [] then (False, [])
     else (answers 0 \<in> Inr ` {200, 202, 204, 404}, [cloud_delete_request d r])) \<and>
    map_of (or_header (cloud_delete_request d r)) ''Authorization'' = Some (''Bearer '' @ tok) \<and> tok \<noteq> [] \<and>
    map_of (or_header (cloud_delete_request d r)) ''X-Vulos-Tenant'' = Some (rec_tenant r)"
  using assms
  by (auto simp: NewCloudBlobDeleter_def cloud_delete_def log_client_def cloud_delete_request_def
      cloud_delete_accepts_def Let_def split: if_splits sum.split)

theorem cloud_delete_contract_witness:
  "fst (cloud_delete \<lparr>cd_base_url = ''https://cloud'', cd_auth_tok = ''t''\<rparr> (log_client (\<lambda>_. Inr 404)) (\<lambda>_. True)
     (zero_recording\<lparr>rec_egress_id := ''EG1''\<rparr>) [])"
proof -
  have "NewCloudBlobDeleter ''https://cloud'' ''t'' = Inr \<lparr>cd_base_url = ''https://cloud'', cd_auth_tok = ''t''\<rparr>"
    by (simp add: NewCloudBlobDeleter_def)
  from cloud_delete_contract [OF this, of "\<lambda>_. Inr 404" "zero_recording\<lparr>rec_egress_id := ''EG1''\<rparr>"]
  show ?thesis by simp
qed

end
