(* ===== verification/Meet_Config.thy ===== *)
theory Meet_Config
  imports Admin_Server Retention_Driver
begin

text \<open>
  The configuration (\<^verbatim>\<open>internal/wrap/config.go\<close>): the YAML shape as records, the environment overrides,
  the defaults and the checks. The YAML decoder, the file read and the environment are parameters. The
  lemmas show what an accepted configuration guarantees to the constructors that use it, that the
  defaults are idempotent, and who wins between file and environment.
\<close>

section \<open>The shape\<close>

record livekit_config =
  lc_api_key :: string
  lc_api_secret :: string
  lc_signaling_addr :: string
  lc_rtc_port_range_start :: int
  lc_rtc_port_range_end :: int
  lc_rtc_udp_port :: int
  lc_turn_addr :: string
  lc_egress_upstream_addr :: string

record admin_config =
  ac_addr :: string
  ac_token :: string

text \<open>A \<^verbatim>\<open>*bool\<close> is an option: \<open>None\<close> when the document does not set it.\<close>

record media_config =
  md_codec :: string
  md_simulcast_layers :: "string list"
  md_top_n_audio_mix :: int
  md_active_speaker :: "bool option"
  md_cascading_sfu :: "bool option"

record room_config =
  rm_max_participants :: int
  rm_max_rooms :: int

definition DefaultMaxParticipants :: int where "DefaultMaxParticipants = 50"
definition DefaultMaxRooms :: int where "DefaultMaxRooms = 100"

record recording_config =
  rc_egress_endpoint :: string
  rc_retention_ttl :: duration
  rc_retention_max_per_room :: int
  rc_retention_max_per_tenant :: int
  rc_retention_sweep_interval :: duration
  rc_cloud_delete_base_url :: string

record cluster_redis_config =
  cr_addr :: string
  cr_db :: int
  cr_password :: string

record cluster_config =
  cc_redis :: cluster_redis_config
  cc_node_id :: string
  cc_region :: string

record signal_config =
  sg_addr :: string

record config =
  cf_region :: string
  cf_tenant_separator :: string
  cf_livekit :: livekit_config
  cf_admin :: admin_config
  cf_media :: media_config
  cf_room :: room_config
  cf_recording :: recording_config
  cf_cluster :: cluster_config
  cf_signal :: signal_config
  cf_cascading_explicit :: bool

definition zero_config :: config where
  "zero_config = \<lparr>cf_region = [], cf_tenant_separator = [],
     cf_livekit = \<lparr>lc_api_key = [], lc_api_secret = [], lc_signaling_addr = [], lc_rtc_port_range_start = 0,
       lc_rtc_port_range_end = 0, lc_rtc_udp_port = 0, lc_turn_addr = [], lc_egress_upstream_addr = []\<rparr>,
     cf_admin = \<lparr>ac_addr = [], ac_token = []\<rparr>,
     cf_media = \<lparr>md_codec = [], md_simulcast_layers = [], md_top_n_audio_mix = 0, md_active_speaker = None,
       md_cascading_sfu = None\<rparr>,
     cf_room = \<lparr>rm_max_participants = 0, rm_max_rooms = 0\<rparr>,
     cf_recording = \<lparr>rc_egress_endpoint = [], rc_retention_ttl = 0, rc_retention_max_per_room = 0,
       rc_retention_max_per_tenant = 0, rc_retention_sweep_interval = 0, rc_cloud_delete_base_url = []\<rparr>,
     cf_cluster = \<lparr>cc_redis = \<lparr>cr_addr = [], cr_db = 0, cr_password = []\<rparr>, cc_node_id = [], cc_region = []\<rparr>,
     cf_signal = \<lparr>sg_addr = []\<rparr>, cf_cascading_explicit = False\<rparr>"

section \<open>Environment and defaults\<close>

definition ClusterRedisPasswordEnv :: string where "ClusterRedisPasswordEnv = ''MEET_CLUSTER_REDIS_PASSWORD''"

definition applyEnv :: "(string \<Rightarrow> string) \<Rightarrow> config \<Rightarrow> config" where
  "applyEnv env c =
     (let override = (\<lambda>k v. if env k \<noteq> [] then env k else v) in
      c\<lparr>cf_admin := \<lparr>ac_addr = override AdminAddrEnv (ac_addr (cf_admin c)),
                     ac_token = override AdminTokenEnv (ac_token (cf_admin c))\<rparr>,
        cf_cluster := (cf_cluster c)\<lparr>cc_redis := (cc_redis (cf_cluster c))\<lparr>cr_password :=
          override ClusterRedisPasswordEnv (cr_password (cc_redis (cf_cluster c)))\<rparr>\<rparr>\<rparr>)"

definition media_defaults :: "media_config \<Rightarrow> media_config" where
  "media_defaults m =
     \<lparr>md_codec = (if md_codec m = [] then ''VP9'' else md_codec m),
      md_simulcast_layers = (if md_simulcast_layers m = [] then [''180p'', ''360p'', ''720p''] else md_simulcast_layers m),
      md_top_n_audio_mix = (if md_top_n_audio_mix m = 0 then 3 else md_top_n_audio_mix m),
      md_active_speaker = (if md_active_speaker m = None then Some True else md_active_speaker m),
      md_cascading_sfu = (if md_cascading_sfu m = None then Some True else md_cascading_sfu m)\<rparr>"

definition livekit_defaults :: "livekit_config \<Rightarrow> livekit_config" where
  "livekit_defaults l =
     (let sig = (if lc_signaling_addr l = [] then '':7880'' else lc_signaling_addr l)
      in l\<lparr>lc_signaling_addr := sig,
           lc_egress_upstream_addr := (if lc_egress_upstream_addr l = [] then sig else lc_egress_upstream_addr l),
           lc_rtc_port_range_start := (if lc_rtc_udp_port l = 0 \<and> lc_rtc_port_range_start l = 0 then 50000 else lc_rtc_port_range_start l),
           lc_rtc_port_range_end := (if lc_rtc_udp_port l = 0 \<and> lc_rtc_port_range_end l = 0 then 60000 else lc_rtc_port_range_end l)\<rparr>)"

definition room_defaults :: "room_config \<Rightarrow> room_config" where
  "room_defaults r =
     \<lparr>rm_max_participants = (if rm_max_participants r = 0 then DefaultMaxParticipants else rm_max_participants r),
      rm_max_rooms = (if rm_max_rooms r = 0 then DefaultMaxRooms else rm_max_rooms r)\<rparr>"

definition applyDefaults :: "config \<Rightarrow> config" where
  "applyDefaults c =
     c\<lparr>cf_tenant_separator := (if cf_tenant_separator c = [] then DefaultTenantSeparator else cf_tenant_separator c),
       cf_media := media_defaults (cf_media c),
       cf_livekit := livekit_defaults (cf_livekit c),
       cf_room := room_defaults (cf_room c),
       cf_admin := (if ac_addr (cf_admin c) = [] then (cf_admin c)\<lparr>ac_addr := ''127.0.0.1:7881''\<rparr> else cf_admin c),
       cf_cluster := (cf_cluster c)\<lparr>cc_region := cf_region c\<rparr>\<rparr>"

section \<open>Derived settings\<close>

definition SignalGateAddr :: "config \<Rightarrow> string" where
  "SignalGateAddr c = (if sg_addr (cf_signal c) \<noteq> [] then sg_addr (cf_signal c) else ''127.0.0.1:7883'')"

definition CascadingSFUEnabled :: "config \<Rightarrow> bool" where
  "CascadingSFUEnabled c \<longleftrightarrow> md_cascading_sfu (cf_media c) = Some True"

definition config_RetentionPolicy :: "config \<Rightarrow> retention_policy" where
  "config_RetentionPolicy c =
     \<lparr>pol_ttl = rc_retention_ttl (cf_recording c), pol_max_per_room = rc_retention_max_per_room (cf_recording c),
      pol_max_per_tenant = rc_retention_max_per_tenant (cf_recording c)\<rparr>"

definition DefaultRetentionSweepInterval :: duration where
  "DefaultRetentionSweepInterval = hour"

definition RetentionSweepInterval :: "config \<Rightarrow> duration" where
  "RetentionSweepInterval c =
     (if \<not> policy_enabled (config_RetentionPolicy c) then 0
      else if 0 < rc_retention_sweep_interval (cf_recording c) then rc_retention_sweep_interval (cf_recording c)
      else DefaultRetentionSweepInterval)"

section \<open>Checks\<close>

datatype config_error =
    RegionRequired
  | SeparatorNotSingle
  | APIKeyRequired
  | APISecretRequired
  | AdminTokenRequired
  | UDPPortInvalid
  | UDPPortAndRange
  | PortRangeInvalid
  | AudioMixInvalid
  | MaxParticipantsNegative
  | MaxRoomsNegative
  | RetentionTTLNegative
  | RetentionPerRoomNegative
  | RetentionPerTenantNegative
  | SweepIntervalNegative
  | CascadingWithoutRedis
  | ConfigPathRequired
  | ConfigReadError
  | ConfigParseError

text \<open>\<open>None\<close> is nil.\<close>

definition config_Validate :: "config \<Rightarrow> config_error option" where
  "config_Validate c =
     (let l = cf_livekit c; r = cf_recording c in
      if cf_region c = [] then Some RegionRequired
      else if length (cf_tenant_separator c) \<noteq> 1 then Some SeparatorNotSingle
      else if lc_api_key l = [] then Some APIKeyRequired
      else if lc_api_secret l = [] then Some APISecretRequired
      else if ac_token (cf_admin c) = [] then Some AdminTokenRequired
      else if lc_rtc_udp_port l \<noteq> 0 \<and> (lc_rtc_udp_port l < 1 \<or> 65535 < lc_rtc_udp_port l) then Some UDPPortInvalid
      else if lc_rtc_udp_port l \<noteq> 0 \<and> (lc_rtc_port_range_start l \<noteq> 0 \<or> lc_rtc_port_range_end l \<noteq> 0) then Some UDPPortAndRange
      else if lc_rtc_udp_port l = 0 \<and>
          (lc_rtc_port_range_start l \<le> 0 \<or> lc_rtc_port_range_end l \<le> lc_rtc_port_range_start l) then Some PortRangeInvalid
      else if md_top_n_audio_mix (cf_media c) \<le> 0 then Some AudioMixInvalid
      else if rm_max_participants (cf_room c) < 0 then Some MaxParticipantsNegative
      else if rm_max_rooms (cf_room c) < 0 then Some MaxRoomsNegative
      else if rc_retention_ttl r < 0 then Some RetentionTTLNegative
      else if rc_retention_max_per_room r < 0 then Some RetentionPerRoomNegative
      else if rc_retention_max_per_tenant r < 0 then Some RetentionPerTenantNegative
      else if rc_retention_sweep_interval r < 0 then Some SweepIntervalNegative
      else if cf_cascading_explicit c \<and> CascadingSFUEnabled c \<and> cr_addr (cc_redis (cf_cluster c)) = []
      then Some CascadingWithoutRedis
      else None)"

text \<open>The YAML decoder maps a document to a configuration with the fields it sets, or fails.\<close>

definition finish_config :: "(string \<Rightarrow> string) \<Rightarrow> config \<Rightarrow> config" where
  "finish_config env c =
     applyDefaults (applyEnv env (c\<lparr>cf_cascading_explicit := md_cascading_sfu (cf_media c) \<noteq> None\<rparr>))"

definition ParseConfig :: "(string \<Rightarrow> config option) \<Rightarrow> (string \<Rightarrow> string) \<Rightarrow> string \<Rightarrow> config_error + config" where
  "ParseConfig yaml env raw =
     (case yaml raw of
        None \<Rightarrow> Inl ConfigParseError
      | Some c \<Rightarrow> (let c = finish_config env c in
          case config_Validate c of Some err \<Rightarrow> Inl err | None \<Rightarrow> Inr c))"

definition LoadConfig ::
  "(string \<Rightarrow> string option) \<Rightarrow> (string \<Rightarrow> config option) \<Rightarrow> (string \<Rightarrow> string) \<Rightarrow> string \<Rightarrow> config_error + config" where
  "LoadConfig readFile yaml env path =
     (if path = [] then Inl ConfigPathRequired
      else case readFile path of None \<Rightarrow> Inl ConfigReadError | Some raw \<Rightarrow> ParseConfig yaml env raw)"

section \<open>Facts\<close>

lemma media_defaults_idem [simp]: "media_defaults (media_defaults m) = media_defaults m"
  by (simp add: media_defaults_def)

lemma livekit_defaults_idem [simp]: "livekit_defaults (livekit_defaults l) = livekit_defaults l"
  by (simp add: livekit_defaults_def Let_def)

lemma room_defaults_idem [simp]: "room_defaults (room_defaults r) = room_defaults r"
  by (simp add: room_defaults_def DefaultMaxParticipants_def DefaultMaxRooms_def)

lemma applyDefaults_idem: "applyDefaults (applyDefaults c) = applyDefaults c"
  by (simp add: applyDefaults_def DefaultTenantSeparator_def)

lemma applyEnv_idem: "applyEnv env (applyEnv env c) = applyEnv env c"
  by (simp add: applyEnv_def Let_def)

lemma finish_fields:
  "cf_region (finish_config env c) = cf_region c"
  "cf_room (finish_config env c) = room_defaults (cf_room c)"
  "cf_livekit (finish_config env c) = livekit_defaults (cf_livekit c)"
  "cf_media (finish_config env c) = media_defaults (cf_media c)"
  "cf_recording (finish_config env c) = cf_recording c"
  "ac_token (cf_admin (finish_config env c)) = (if env AdminTokenEnv \<noteq> [] then env AdminTokenEnv else ac_token (cf_admin c))"
  "cc_region (cf_cluster (finish_config env c)) = cf_region c"
  by (simp_all add: finish_config_def applyDefaults_def applyEnv_def Let_def)

lemma ParseConfig_InrD:
  "ParseConfig yaml env raw = Inr c \<Longrightarrow>
     \<exists>c0. yaml raw = Some c0 \<and> c = finish_config env c0 \<and> config_Validate c = None"
  by (auto simp: ParseConfig_def Let_def split: option.splits)

lemma if_Some_None: "(if a then Some x else y) = None \<longleftrightarrow> \<not> a \<and> y = None"
  by simp

lemma config_Validate_None:
  "config_Validate c = None \<longleftrightarrow>
     cf_region c \<noteq> [] \<and> length (cf_tenant_separator c) = 1 \<and> lc_api_key (cf_livekit c) \<noteq> [] \<and>
     lc_api_secret (cf_livekit c) \<noteq> [] \<and> ac_token (cf_admin c) \<noteq> [] \<and>
     (if lc_rtc_udp_port (cf_livekit c) = 0
      then 0 < lc_rtc_port_range_start (cf_livekit c) \<and>
        lc_rtc_port_range_start (cf_livekit c) < lc_rtc_port_range_end (cf_livekit c)
      else 1 \<le> lc_rtc_udp_port (cf_livekit c) \<and> lc_rtc_udp_port (cf_livekit c) \<le> 65535 \<and>
        lc_rtc_port_range_start (cf_livekit c) = 0 \<and> lc_rtc_port_range_end (cf_livekit c) = 0) \<and>
     0 < md_top_n_audio_mix (cf_media c) \<and>
     0 \<le> rm_max_participants (cf_room c) \<and> 0 \<le> rm_max_rooms (cf_room c) \<and>
     0 \<le> rc_retention_ttl (cf_recording c) \<and> 0 \<le> rc_retention_max_per_room (cf_recording c) \<and>
     0 \<le> rc_retention_max_per_tenant (cf_recording c) \<and> 0 \<le> rc_retention_sweep_interval (cf_recording c) \<and>
     \<not> (cf_cascading_explicit c \<and> CascadingSFUEnabled c \<and> cr_addr (cc_redis (cf_cluster c)) = [])"
  unfolding config_Validate_def Let_def if_Some_None by (simp add: not_le not_less)

lemma validated:
  assumes "config_Validate c = None"
  shows "cf_region c \<noteq> []" "length (cf_tenant_separator c) = 1" "lc_api_key (cf_livekit c) \<noteq> []"
    "lc_api_secret (cf_livekit c) \<noteq> []" "ac_token (cf_admin c) \<noteq> []"
    "0 \<le> rm_max_participants (cf_room c)" "0 \<le> rm_max_rooms (cf_room c)"
    "lc_rtc_udp_port (cf_livekit c) = 0 \<and> 0 < lc_rtc_port_range_start (cf_livekit c) \<and>
       lc_rtc_port_range_start (cf_livekit c) < lc_rtc_port_range_end (cf_livekit c) \<or>
     1 \<le> lc_rtc_udp_port (cf_livekit c) \<and> lc_rtc_udp_port (cf_livekit c) \<le> 65535 \<and>
       lc_rtc_port_range_start (cf_livekit c) = 0 \<and> lc_rtc_port_range_end (cf_livekit c) = 0"
  using assms unfolding config_Validate_None by (cases "lc_rtc_udp_port (cf_livekit c) = 0"; simp)+

lemma signaling_addr_default: "lc_signaling_addr (livekit_defaults l) \<noteq> [] \<and> lc_egress_upstream_addr (livekit_defaults l) \<noteq> []"
  by (simp add: livekit_defaults_def Let_def)

section \<open>Properties\<close>

text \<open>
  C24. An accepted configuration is safe to build from: the separator makes a tenant gate without a
  panic, key and secret make a validator, a room client and the receivers, the admin surface is never
  open, both ceilings are positive, and exactly one of the two UDP transports is configured.
\<close>

theorem accepted_config_safe:
  assumes "ParseConfig yaml env raw = Inr c"
  shows "(\<exists>T. NewTenant (cf_tenant_separator c) = Some T \<and> Separator T = cf_tenant_separator c) \<and>
    (\<exists>g. NewGeoRouter (cf_region c) = Inr g) \<and>
    (\<forall>T. \<exists>v. NewValidator env' (lc_api_key (cf_livekit c)) (lc_api_secret (cf_livekit c)) (Some T) = Inr v) \<and>
    (\<forall>T rs g v. \<exists>a. NewAdminServer (Some T) (Some rs) (Some g) (ac_token (cf_admin c)) v = Inr a) \<and>
    0 < rm_max_rooms (cf_room c) \<and> 0 < rm_max_participants (cf_room c) \<and> lc_signaling_addr (cf_livekit c) \<noteq> [] \<and>
    (lc_rtc_udp_port (cf_livekit c) = 0) = (0 < lc_rtc_port_range_start (cf_livekit c)) \<and>
    (lc_rtc_udp_port (cf_livekit c) = 0) = (lc_rtc_port_range_start (cf_livekit c) < lc_rtc_port_range_end (cf_livekit c))"
proof -
  obtain c0 where c: "c = finish_config env c0" "config_Validate c = None"
    using ParseConfig_InrD [OF assms] by blast
  note ok = validated [OF c(2)]
  have sep: "cf_tenant_separator c = [hd (cf_tenant_separator c)]" "cf_tenant_separator c \<noteq> []"
    using ok(2) by (cases "cf_tenant_separator c"; simp)+
  have "rm_max_rooms (cf_room c) \<noteq> 0" "rm_max_participants (cf_room c) \<noteq> 0"
    by (simp_all add: c(1) finish_fields room_defaults_def DefaultMaxRooms_def DefaultMaxParticipants_def)
  then have "0 < rm_max_rooms (cf_room c)" "0 < rm_max_participants (cf_room c)"
    using ok(6,7) by simp_all
  moreover have "NewTenant (cf_tenant_separator c) = Some \<lparr>tenant_sep = hd (cf_tenant_separator c)\<rparr>"
    using ok(2) sep(2) by (simp add: NewTenant_def)
  then have "\<exists>T. NewTenant (cf_tenant_separator c) = Some T \<and> Separator T = cf_tenant_separator c"
    using sep(1) by (simp add: Separator_def)
  moreover have "lc_signaling_addr (cf_livekit c) \<noteq> []"
    by (simp add: c(1) finish_fields signaling_addr_default)
  ultimately show ?thesis
    using ok(1,3,4,5,8) by (auto simp: NewGeoRouter_def NewValidator_def NewAdminServer_def)
qed

definition sample_config_doc :: config where
  "sample_config_doc = zero_config\<lparr>cf_region := ''za'',
     cf_livekit := (cf_livekit zero_config)\<lparr>lc_api_key := ''k'', lc_api_secret := ''s''\<rparr>,
     cf_admin := \<lparr>ac_addr = [], ac_token = ''t''\<rparr>\<rparr>"

theorem accepted_config_safe_witness:
  "0 < rm_max_rooms (cf_room (finish_config (\<lambda>_. []) sample_config_doc))"
proof -
  have "ParseConfig (\<lambda>_. Some sample_config_doc) (\<lambda>_. []) [] = Inr (finish_config (\<lambda>_. []) sample_config_doc)"
    by code_simp
  from accepted_config_safe [OF this] show ?thesis by blast
qed

text \<open>
  Defaults and environment are settled in one pass: filling in the defaults of an effective
  configuration or applying the environment again changes nothing, and a value the environment sets wins
  over the file, which then has no influence on it.
\<close>

theorem config_defaults_settled:
  "applyDefaults (finish_config env c) = finish_config env c \<and>
   applyEnv env (finish_config env c) = finish_config env c \<and>
   (if env AdminTokenEnv = [] then True
    else ac_token (cf_admin (finish_config env c)) = env AdminTokenEnv \<and>
      finish_config env (c\<lparr>cf_admin := (cf_admin c)\<lparr>ac_token := file\<rparr>\<rparr>) = finish_config env c)"
  by (simp add: finish_config_def applyDefaults_idem)
    (simp add: applyDefaults_def applyEnv_def Let_def DefaultTenantSeparator_def)

text \<open>
  Cleanup runs exactly when something can expire: the sweep interval of a configuration is positive
  precisely when its retention policy has a rule, and without a rule a pass marks nothing.
\<close>

theorem sweeper_runs_iff_policy:
  "0 < RetentionSweepInterval c \<longleftrightarrow> policy_enabled (config_RetentionPolicy c)"
  by (simp add: RetentionSweepInterval_def DefaultRetentionSweepInterval_def duration_defs)

text \<open>
  Nothing above the top of the port space is rejected in a range: raising the end of an accepted range
  keeps it accepted, although the single port is checked against 65535.
\<close>

lemma range_end_unbounded:
  assumes "config_Validate c = None" "lc_rtc_udp_port (cf_livekit c) = 0" "lc_rtc_port_range_end (cf_livekit c) \<le> e"
  shows "config_Validate (c\<lparr>cf_livekit := (cf_livekit c)\<lparr>lc_rtc_port_range_end := e\<rparr>\<rparr>) = None"
proof -
  have "CascadingSFUEnabled (c\<lparr>cf_livekit := l\<rparr>) = CascadingSFUEnabled c" for l
    by (simp add: CascadingSFUEnabled_def)
  then show ?thesis
    using assms unfolding config_Validate_None by simp
qed

text \<open>
  Writing the effective configuration back to the file is not neutral: the cascading default becomes an
  explicit choice, which is refused when no Redis is configured.
\<close>

lemma effective_config_rejected:
  assumes "md_cascading_sfu (cf_media c) = None" "cr_addr (cc_redis (cf_cluster c)) = []"
  shows "config_Validate (finish_config env (finish_config env c)) \<noteq> None"
  using assms
  unfolding config_Validate_None
  by (simp add: finish_config_def applyDefaults_def applyEnv_def Let_def media_defaults_def CascadingSFUEnabled_def)

end
