(* ===== verification/Livekit_Supervisor.thy ===== *)
theory Livekit_Supervisor
  imports Meet_Config
begin

text \<open>
  Starting the LiveKit child (\<^verbatim>\<open>internal/wrap/supervise.go\<close>, \<^verbatim>\<open>internal/wrap/cluster.go\<close>): the configuration
  document rendered for it, the Redis self-check with its RESP encoding, and the order of the start.
  The operating system (binary lookup, file system, process) and the Redis connection are parameters.
  The lemmas show what lines the document has, that the RESP encoding can be read back, which dialogue
  makes the self-check pass, and that the child is started only after everything before it succeeded.
\<close>

section \<open>Rendering\<close>

abbreviation lf :: string where "lf \<equiv> [CHR 0x0A]"
abbreviation crlf :: string where "crlf \<equiv> [CHR 0x0D, CHR 0x0A]"

definition portFromAddr :: "string \<Rightarrow> string" where
  "portFromAddr addr = (case last_index (CHR '':'') addr of None \<Rightarrow> addr | Some i \<Rightarrow> drop (Suc i) addr)"

definition maxParticipants :: "config \<Rightarrow> int" where
  "maxParticipants cfg =
     (if 0 < rm_max_participants (cf_room cfg) then rm_max_participants (cf_room cfg) else DefaultMaxParticipants)"

definition renderRTCUDP :: "config \<Rightarrow> string" where
  "renderRTCUDP cfg =
     (if 0 < lc_rtc_udp_port (cf_livekit cfg)
      then ''  udp_port: '' @ show_int (lc_rtc_udp_port (cf_livekit cfg)) @ lf
      else ''  port_range_start: '' @ show_int (lc_rtc_port_range_start (cf_livekit cfg)) @ lf @
           ''  port_range_end: '' @ show_int (lc_rtc_port_range_end (cf_livekit cfg)) @ lf)"

text \<open>The host name is \<open>None\<close> when \<^verbatim>\<open>os.Hostname\<close> fails.\<close>

definition renderClusterBlock :: "string option \<Rightarrow> config \<Rightarrow> string" where
  "renderClusterBlock hostname cfg =
     (let redis = cc_redis (cf_cluster cfg) in
      if \<not> CascadingSFUEnabled cfg \<or> cr_addr redis = [] then []
      else
        let nodeID = (if cc_node_id (cf_cluster cfg) \<noteq> [] then cc_node_id (cf_cluster cfg)
                      else case hostname of Some h \<Rightarrow> if h \<noteq> [] then h else ''vulos-meet'' | None \<Rightarrow> ''vulos-meet'');
            region = (if cc_region (cf_cluster cfg) = [] then cf_region cfg else cc_region (cf_cluster cfg))
        in ''redis:'' @ lf @ ''  address: '' @ cr_addr redis @ lf @
           (if cr_password redis \<noteq> [] then ''  password: '' @ cr_password redis @ lf else []) @
           (if cr_db redis \<noteq> 0 then ''  db: '' @ show_int (cr_db redis) @ lf else []) @
           ''cluster_id: '' @ region @ lf @ ''node_id: '' @ nodeID @ lf)"

definition livekit_document :: "string option \<Rightarrow> config \<Rightarrow> string" where
  "livekit_document hostname cfg =
     ''port: '' @ portFromAddr (lc_signaling_addr (cf_livekit cfg)) @ lf @
     ''bind_addresses:'' @ lf @
     ''  - 127.0.0.1'' @ lf @
     ''rtc:'' @ lf @
     renderRTCUDP cfg @
     ''  use_external_ip: true'' @ lf @
     ''keys:'' @ lf @
     ''  '' @ lc_api_key (cf_livekit cfg) @ '': '' @ lc_api_secret (cf_livekit cfg) @ lf @
     ''room:'' @ lf @
     ''  auto_create: true'' @ lf @
     ''  max_participants: '' @ show_int (maxParticipants cfg) @ lf @
     ''  enabled_codecs:'' @ lf @
     ''    - mime: video/'' @ md_codec (cf_media cfg) @ lf @
     ''    - mime: video/H264'' @ lf @
     ''    - mime: audio/opus'' @ lf @
     ''audio:'' @ lf @
     ''  active_level: 30'' @ lf @
     ''  min_percentile: 40'' @ lf @
     ''  update_interval: 400'' @ lf @
     ''  smooth_intervals: 2'' @ lf @
     (if lc_turn_addr (cf_livekit cfg) \<noteq> []
      then ''turn:'' @ lf @ ''  enabled: true'' @ lf @ ''  udp_port: '' @ portFromAddr (lc_turn_addr (cf_livekit cfg)) @ lf
      else []) @
     (if rc_egress_endpoint (cf_recording cfg) \<noteq> []
      then ''egress:'' @ lf @ ''  webhook_url: '' @ rc_egress_endpoint (cf_recording cfg) @ lf else []) @
     renderClusterBlock hostname cfg"

section \<open>The Redis self-check\<close>

definition resp_bulk :: "string \<Rightarrow> string" where
  "resp_bulk p = ''$'' @ show_nat (length p) @ crlf @ p @ crlf"

definition writeRedisCmd :: "string list \<Rightarrow> string" where
  "writeRedisCmd parts = ''*'' @ show_nat (length parts) @ crlf @ concat (map resp_bulk parts)"

text \<open>
  A connection: dialling an address, writing bytes (\<open>False\<close> is an error), reading a line including its
  newline (\<open>None\<close> is an error, also one after a partial line).
\<close>

record 'n redis_net =
  rn_dial :: "string \<Rightarrow> 'n \<Rightarrow> bool \<times> 'n"
  rn_write :: "string \<Rightarrow> 'n \<Rightarrow> bool \<times> 'n"
  rn_read :: "'n \<Rightarrow> string option \<times> 'n"

datatype redis_error =
    RedisDial
  | RedisAuthWrite
  | RedisAuthRejected
  | RedisSelectWrite
  | RedisSelectRejected
  | RedisPingWrite
  | RedisPingRead
  | RedisPingReply string

text \<open>One command that must be answered by a line starting with \<open>+OK\<close>.\<close>

definition expect_ok ::
  "'n redis_net \<Rightarrow> string list \<Rightarrow> redis_error \<Rightarrow> redis_error \<Rightarrow> 'n \<Rightarrow> redis_error option \<times> 'n" where
  "expect_ok net cmd werr rerr n =
     (case rn_write net (writeRedisCmd cmd) n of
        (False, n) \<Rightarrow> (Some werr, n)
      | (True, n) \<Rightarrow>
          (case rn_read net n of
             (None, n) \<Rightarrow> (Some rerr, n)
           | (Some line, n) \<Rightarrow> (if has_prefix line ''+OK'' then None else Some rerr, n)))"

definition ping_redis :: "'n redis_net \<Rightarrow> 'n \<Rightarrow> redis_error option \<times> 'n" where
  "ping_redis net n =
     (case rn_write net (writeRedisCmd [''PING'']) n of
        (False, n) \<Rightarrow> (Some RedisPingWrite, n)
      | (True, n) \<Rightarrow>
          (case rn_read net n of
             (None, n) \<Rightarrow> (Some RedisPingRead, n)
           | (Some line, n) \<Rightarrow> (if has_prefix line ''+PONG'' then None else Some (RedisPingReply line), n)))"

definition PingClusterRedis :: "'n redis_net \<Rightarrow> config \<Rightarrow> 'n \<Rightarrow> redis_error option \<times> 'n" where
  "PingClusterRedis net cfg n =
     (let redis = cc_redis (cf_cluster cfg) in
      if \<not> CascadingSFUEnabled cfg \<or> cr_addr redis = [] then (None, n)
      else case rn_dial net (cr_addr redis) n of
        (False, n) \<Rightarrow> (Some RedisDial, n)
      | (True, n) \<Rightarrow>
          (case (if cr_password redis \<noteq> []
                 then expect_ok net [''AUTH'', cr_password redis] RedisAuthWrite RedisAuthRejected n else (None, n)) of
             (Some err, n) \<Rightarrow> (Some err, n)
           | (None, n) \<Rightarrow>
               (case (if cr_db redis \<noteq> 0
                      then expect_ok net [''SELECT'', show_int (cr_db redis)] RedisSelectWrite RedisSelectRejected n
                      else (None, n)) of
                  (Some err, n) \<Rightarrow> (Some err, n)
                | (None, n) \<Rightarrow> ping_redis net n)))"

section \<open>Supervision\<close>

definition LiveKitBinaryEnv :: string where "LiveKitBinaryEnv = ''VULOS_MEET_LIVEKIT_BIN''"

text \<open>
  The operating system: whether the binary is on the path, whether the directory of a file can be made,
  whether a file can be written, whether the process starts, whether it exits with status zero, and
  whether the context was cancelled when it exited.
\<close>

record host_os =
  os_look_path :: "string \<Rightarrow> bool"
  os_hostname :: "string option"
  os_mkdir_for :: "string \<Rightarrow> bool"
  os_write_file :: "string \<Rightarrow> string \<Rightarrow> bool"
  os_start :: "string \<Rightarrow> string list \<Rightarrow> bool"
  os_exit_ok :: bool
  os_cancelled :: bool

datatype supervise_error =
    BinaryNotFound string
  | RedisUnreachable redis_error
  | MkdirFailed
  | WriteConfigFailed
  | StartFailed
  | ChildExited

text \<open>What the child is given: the document in the file, and the command line.\<close>

datatype os_action = WroteFile string string | StartedChild string "string list"

definition writeLiveKitConfig :: "host_os \<Rightarrow> config \<Rightarrow> string \<Rightarrow> supervise_error option \<times> os_action list" where
  "writeLiveKitConfig os cfg path =
     (if \<not> os_mkdir_for os path then (Some MkdirFailed, [])
      else let doc = livekit_document (os_hostname os) cfg
           in if os_write_file os path doc then (None, [WroteFile path doc]) else (Some WriteConfigFailed, []))"

definition SuperviseLiveKit ::
  "(string \<Rightarrow> string) \<Rightarrow> host_os \<Rightarrow> 'n redis_net \<Rightarrow> config \<Rightarrow> string \<Rightarrow> 'n \<Rightarrow>
     supervise_error option \<times> os_action list \<times> 'n" where
  "SuperviseLiveKit env os net cfg path n =
     (let bin = (if env LiveKitBinaryEnv = [] then ''livekit-server'' else env LiveKitBinaryEnv) in
      if \<not> os_look_path os bin then (Some (BinaryNotFound bin), [], n)
      else case PingClusterRedis net cfg n of
        (Some err, n) \<Rightarrow> (Some (RedisUnreachable err), [], n)
      | (None, n) \<Rightarrow>
          (case writeLiveKitConfig os cfg path of
             (Some err, acts) \<Rightarrow> (Some err, acts, n)
           | (None, acts) \<Rightarrow>
               let argv = [''--config'', path] in
               if \<not> os_start os bin argv then (Some StartFailed, acts, n)
               else (if os_exit_ok os then None else if os_cancelled os then None else Some ChildExited,
                     acts @ [StartedChild bin argv], n)))"

section \<open>Reading RESP back\<close>

text \<open>A reference reader of a command: the count, then each argument by its length.\<close>

definition resp_count :: "char \<Rightarrow> string \<Rightarrow> (nat \<times> string) option" where
  "resp_count c s =
     (case s of
        d # r \<Rightarrow>
          let ds = takeWhile is_digit r; r' = dropWhile is_digit r
          in if d = c \<and> ds \<noteq> [] \<and> has_prefix r' crlf then Some (read_nat ds, drop 2 r') else None
      | [] \<Rightarrow> None)"

fun resp_args :: "nat \<Rightarrow> string \<Rightarrow> (string list \<times> string) option" where
  "resp_args 0 s = Some ([], s)"
| "resp_args (Suc n) s =
     (case resp_count (CHR ''$'') s of
        None \<Rightarrow> None
      | Some (k, r) \<Rightarrow>
          if has_prefix (drop k r) crlf
          then map_option (\<lambda>(ps, r'). (take k r # ps, r')) (resp_args n (drop (k + 2) r)) else None)"

definition resp_parse :: "string \<Rightarrow> (string list \<times> string) option" where
  "resp_parse s = (case resp_count (CHR ''*'') s of None \<Rightarrow> None | Some (n, r) \<Rightarrow> resp_args n r)"

lemma digits_then_crlf:
  "takeWhile is_digit (show_nat n @ crlf @ r) = show_nat n"
  "dropWhile is_digit (show_nat n @ crlf @ r) = crlf @ r"
proof -
  have d: "\<forall>c\<in>set (show_nat n). is_digit c" by (blast intro: show_nat_digits)
  have n: "\<not> is_digit (CHR 0x0D)" by (simp add: is_digit_nat)
  show "takeWhile is_digit (show_nat n @ crlf @ r) = show_nat n"
    using d n by (subst takeWhile_append2) auto
  show "dropWhile is_digit (show_nat n @ crlf @ r) = crlf @ r"
    using d n by (subst dropWhile_append2) auto
qed

lemma resp_count_show: "resp_count c (c # show_nat n @ crlf @ r) = Some (n, r)"
  using digits_then_crlf [of n r] by (simp add: resp_count_def Let_def)

lemma resp_args_bulk: "resp_args (length ps) (concat (map resp_bulk ps) @ r) = Some (ps, r)"
proof (induction ps)
  case (Cons p ps)
  have "resp_count (CHR ''$'') (resp_bulk p @ s) = Some (length p, p @ crlf @ s)" for s
    using resp_count_show [of "CHR ''$''" "length p" "p @ crlf @ s"] by (simp add: resp_bulk_def)
  with Cons show ?case by simp
qed simp

section \<open>Lines of the document\<close>

definition rtc_lines :: "config \<Rightarrow> string list" where
  "rtc_lines cfg =
     (if 0 < lc_rtc_udp_port (cf_livekit cfg) then [''  udp_port: '' @ show_int (lc_rtc_udp_port (cf_livekit cfg))]
      else [''  port_range_start: '' @ show_int (lc_rtc_port_range_start (cf_livekit cfg)),
            ''  port_range_end: '' @ show_int (lc_rtc_port_range_end (cf_livekit cfg))])"

definition cluster_lines :: "string option \<Rightarrow> config \<Rightarrow> string list" where
  "cluster_lines hostname cfg =
     (let redis = cc_redis (cf_cluster cfg) in
      if \<not> CascadingSFUEnabled cfg \<or> cr_addr redis = [] then []
      else [''redis:'', ''  address: '' @ cr_addr redis] @
        (if cr_password redis = [] then [] else [''  password: '' @ cr_password redis]) @
        (if cr_db redis = 0 then [] else [''  db: '' @ show_int (cr_db redis)]) @
        [''cluster_id: '' @ (if cc_region (cf_cluster cfg) = [] then cf_region cfg else cc_region (cf_cluster cfg)),
         ''node_id: '' @ (if cc_node_id (cf_cluster cfg) \<noteq> [] then cc_node_id (cf_cluster cfg)
            else if hostname = None \<or> hostname = Some [] then ''vulos-meet'' else the hostname)])"

definition document_lines :: "string option \<Rightarrow> config \<Rightarrow> string list" where
  "document_lines hostname cfg =
     [''port: '' @ portFromAddr (lc_signaling_addr (cf_livekit cfg)),
      ''bind_addresses:'', ''  - 127.0.0.1'', ''rtc:''] @ rtc_lines cfg @
     [''  use_external_ip: true'', ''keys:'',
      ''  '' @ lc_api_key (cf_livekit cfg) @ '': '' @ lc_api_secret (cf_livekit cfg),
      ''room:'', ''  auto_create: true'', ''  max_participants: '' @ show_int (maxParticipants cfg),
      ''  enabled_codecs:'', ''    - mime: video/'' @ md_codec (cf_media cfg), ''    - mime: video/H264'',
      ''    - mime: audio/opus'', ''audio:'', ''  active_level: 30'', ''  min_percentile: 40'',
      ''  update_interval: 400'', ''  smooth_intervals: 2''] @
     (if lc_turn_addr (cf_livekit cfg) = [] then []
      else [''turn:'', ''  enabled: true'', ''  udp_port: '' @ portFromAddr (lc_turn_addr (cf_livekit cfg))]) @
     (if rc_egress_endpoint (cf_recording cfg) = [] then []
      else [''egress:'', ''  webhook_url: '' @ rc_egress_endpoint (cf_recording cfg)]) @
     cluster_lines hostname cfg"

lemma renderClusterBlock_lines: "renderClusterBlock hostname cfg = unlines (cluster_lines hostname cfg)"
  by (simp add: renderClusterBlock_def cluster_lines_def Let_def split: option.split)

lemma renderRTCUDP_lines: "renderRTCUDP cfg = unlines (rtc_lines cfg)"
  by (simp add: renderRTCUDP_def rtc_lines_def)

lemma livekit_document_lines: "livekit_document hostname cfg = unlines (document_lines hostname cfg)"
  by (simp add: livekit_document_def document_lines_def renderClusterBlock_lines renderRTCUDP_lines)

text \<open>No value of the configuration that is rendered contains a newline.\<close>

definition single_line_values :: "string option \<Rightarrow> config \<Rightarrow> bool" where
  "single_line_values hostname cfg \<longleftrightarrow>
     list_all (\<lambda>v. CHR 0x0A \<notin> set v)
       [lc_signaling_addr (cf_livekit cfg), lc_api_key (cf_livekit cfg), lc_api_secret (cf_livekit cfg),
        md_codec (cf_media cfg), lc_turn_addr (cf_livekit cfg), rc_egress_endpoint (cf_recording cfg),
        cr_addr (cc_redis (cf_cluster cfg)), cr_password (cc_redis (cf_cluster cfg)), cf_region cfg,
        cc_region (cf_cluster cfg), cc_node_id (cf_cluster cfg), case hostname of None \<Rightarrow> [] | Some h \<Rightarrow> h]"

lemma show_int_no_lf [simp]: "CHR 0x0A \<notin> set (show_int i)"
  using show_int_chars [of "CHR 0x0A" i] by (auto simp: is_digit_nat)

lemma portFromAddr_sub: "set (portFromAddr a) \<subseteq> set a"
  by (auto simp: portFromAddr_def dest: in_set_dropD split: option.splits)

lemma document_no_lf:
  assumes "single_line_values hostname cfg"
  shows "\<forall>l\<in>set (document_lines hostname cfg). CHR 0x0A \<notin> set l"
proof -
  have p: "CHR 0x0A \<notin> set (portFromAddr a)" if "CHR 0x0A \<notin> set a" for a
    using that portFromAddr_sub [of a] by blast
  have "\<forall>l\<in>set (rtc_lines cfg). CHR 0x0A \<notin> set l" by (simp add: rtc_lines_def)
  moreover have "\<forall>l\<in>set (cluster_lines hostname cfg). CHR 0x0A \<notin> set l"
    using assms by (auto simp: cluster_lines_def Let_def single_line_values_def)
  ultimately show ?thesis
    using assms by (simp add: document_lines_def ball_Un single_line_values_def p)
qed

section \<open>Properties\<close>

text \<open>
  C30. Round trip: a Redis command reads back as the arguments it was built from, whatever bytes they
  hold, and leaves what follows it untouched; a password with line breaks cannot start a second command.
\<close>

theorem redis_command_roundtrip: "resp_parse (writeRedisCmd parts @ rest) = Some (parts, rest)"
  using resp_count_show [of "CHR ''*''" "length parts" "concat (map resp_bulk parts) @ rest"]
  by (simp add: resp_parse_def writeRedisCmd_def resp_args_bulk)

text \<open>
  The rendered document: unless a configured value contains a line break, the child's configuration
  has exactly the intended lines, with the signaling listener bound to loopback only and one UDP
  transport, and the cluster block exactly when cascading is on with a Redis address.
\<close>

theorem rendered_document_lines:
  assumes "single_line_values hostname cfg"
  shows "split_on (CHR 0x0A) (livekit_document hostname cfg) = document_lines hostname cfg @ [[]]"
  unfolding livekit_document_lines by (rule split_on_unlines [OF document_no_lf [OF assms]])

theorem rendered_document_lines_witness:
  "split_on (CHR 0x0A) (livekit_document None (finish_config (\<lambda>_. []) sample_config_doc)) =
     document_lines None (finish_config (\<lambda>_. []) sample_config_doc) @ [[]]"
proof (rule rendered_document_lines)
  show "single_line_values None (finish_config (\<lambda>_. []) sample_config_doc)" by code_simp
qed

text \<open>A scripted Redis: what was sent to it, and the lines it will answer with.\<close>

definition scripted :: "bool \<Rightarrow> (string list \<times> string option list) redis_net" where
  "scripted up =
     \<lparr>rn_dial = (\<lambda>a n. (up, n)), rn_write = (\<lambda>b (s, q). (True, (s @ [b], q))),
      rn_read = (\<lambda>(s, q). case q of [] \<Rightarrow> (None, (s, [])) | x # q' \<Rightarrow> (x, (s, q')))\<rparr>"

text \<open>The dialogue the configuration calls for: each command with the start of the answer it needs.\<close>

definition dialogue :: "config \<Rightarrow> (string list \<times> string) list" where
  "dialogue cfg =
     (let redis = cc_redis (cf_cluster cfg) in
      if CascadingSFUEnabled cfg \<and> cr_addr redis \<noteq> []
      then (if cr_password redis = [] then [] else [([''AUTH'', cr_password redis], ''+OK'')]) @
        (if cr_db redis = 0 then [] else [([''SELECT'', show_int (cr_db redis)], ''+OK'')]) @
        [([''PING''], ''+PONG'')]
      else [])"

fun answered :: "string list \<Rightarrow> string option list \<Rightarrow> bool" where
  "answered [] rs = True"
| "answered (p # ps) (Some l # rs) = (has_prefix l p \<and> answered ps rs)"
| "answered (p # ps) rs = False"

lemma answered_Cons: "answered (p # ps) rs = (case rs of Some l # rs' \<Rightarrow> has_prefix l p \<and> answered ps rs' | _ \<Rightarrow> False)"
  by (auto split: list.split option.split)

lemma expect_ok_scripted:
  "expect_ok (scripted up) cmd we re (s, q) =
     (case q of Some l # q' \<Rightarrow> (if has_prefix l ''+OK'' then None else Some re, (s @ [writeRedisCmd cmd], q'))
      | None # q' \<Rightarrow> (Some re, (s @ [writeRedisCmd cmd], q'))
      | [] \<Rightarrow> (Some re, (s @ [writeRedisCmd cmd], [])))"
  by (simp add: expect_ok_def scripted_def split: list.split option.split)

lemma ping_scripted:
  "ping_redis (scripted up) (s, q) =
     (case q of Some l # q' \<Rightarrow> (if has_prefix l ''+PONG'' then None else Some (RedisPingReply l), (s @ [writeRedisCmd [''PING'']], q'))
      | None # q' \<Rightarrow> (Some RedisPingRead, (s @ [writeRedisCmd [''PING'']], q'))
      | [] \<Rightarrow> (Some RedisPingRead, (s @ [writeRedisCmd [''PING'']], [])))"
  by (simp add: ping_redis_def scripted_def split: list.split option.split)

text \<open>
  The self-check passes exactly when Redis can be dialled and answers every command of the dialogue
  (authentication when there is a password, selection of the configured database, then a ping), and it
  sends those commands in that order, never one after a refusal.
\<close>

theorem redis_self_check_exact:
  "let (err, sent, _) = PingClusterRedis (scripted up) cfg ([], replies); d = dialogue cfg
   in (err = None \<longleftrightarrow> d = [] \<or> up \<and> answered (map snd d) replies) \<and>
      prefix sent (map (writeRedisCmd \<circ> fst) d) \<and>
      (if err = None then sent = map (writeRedisCmd \<circ> fst) d else True)"
proof -
  have dial: "rn_dial (scripted up) a n = (up, n)" for a n by (simp add: scripted_def)
  show ?thesis
    unfolding PingClusterRedis_def dialogue_def Let_def dial
    by (cases up; cases "CascadingSFUEnabled cfg \<and> cr_addr (cc_redis (cf_cluster cfg)) \<noteq> []";
        cases "cr_password (cc_redis (cf_cluster cfg)) = []"; cases "cr_db (cc_redis (cf_cluster cfg)) = 0")
      (auto simp: expect_ok_scripted ping_scripted answered_Cons split: list.splits option.splits)
qed

text \<open>
  C34. The child is started exactly after the checks: it is started, once, with the file it is pointed at, just
  when the binary was found, the self-check passed, the directory was made, exactly the rendered document
  was written to that file before, and the operating system started the process. Redis is not
  contacted without a binary, the file is not written before the self-check passed. Nil is returned precisely
  when the child was started and exited with success or the process was asked to stop; every error
  says which step failed.
\<close>

theorem child_started_after_checks:
  "let (err, acts, n') = SuperviseLiveKit env os net cfg path n;
       bin = (if env LiveKitBinaryEnv = [] then ''livekit-server'' else env LiveKitBinaryEnv);
       doc = livekit_document (os_hostname os) cfg;
       found = os_look_path os bin; ping = fst (PingClusterRedis net cfg n);
       ready = (found \<and> ping = None \<and> os_mkdir_for os path);
       written = (ready \<and> os_write_file os path doc);
       started = (written \<and> os_start os bin [''--config'', path])
   in acts = (if written then [WroteFile path doc] else []) @ (if started then [StartedChild bin [''--config'', path]] else []) \<and>
      n' = (if found then snd (PingClusterRedis net cfg n) else n) \<and>
      (err = None \<longleftrightarrow> started \<and> (os_exit_ok os \<or> os_cancelled os)) \<and>
      (err = Some ChildExited \<longleftrightarrow> started \<and> \<not> os_exit_ok os \<and> \<not> os_cancelled os) \<and>
      (err = Some StartFailed \<longleftrightarrow> written \<and> \<not> started) \<and>
      (err = Some WriteConfigFailed \<longleftrightarrow> ready \<and> \<not> written) \<and>
      (err = Some MkdirFailed \<longleftrightarrow> found \<and> ping = None \<and> \<not> ready) \<and>
      (err = Some (RedisUnreachable e) \<longleftrightarrow> found \<and> ping = Some e) \<and>
      (err = Some (BinaryNotFound b) \<longleftrightarrow> \<not> found \<and> b = bin)"
proof -
  let ?bin = "if env LiveKitBinaryEnv = [] then ''livekit-server'' else env LiveKitBinaryEnv"
  let ?doc = "livekit_document (os_hostname os) cfg"
  obtain ping n' where ping: "PingClusterRedis net cfg n = (ping, n')" by fastforce
  show ?thesis
    unfolding SuperviseLiveKit_def writeLiveKitConfig_def Let_def ping
    by (cases "os_look_path os ?bin"; cases ping; cases "os_mkdir_for os path"; cases "os_write_file os path ?doc";
        cases "os_start os ?bin [''--config'', path]"; cases "os_exit_ok os"; cases "os_cancelled os") (simp_all add: eq_commute)
qed

end
