(* ===== verification/Json_Roundtrip.thy ===== *)
theory Json_Roundtrip
  imports Go_Json
begin

text \<open>
  What the encoder writes the parser reads back: string literals for every byte string, and values whose
  numbers are integers. Messages built by one component and decoded by another rest on this.
\<close>

section \<open>String literals\<close>

text \<open>The code points the encoder escapes numerically.\<close>

definition escaped_points :: "int list" where
  "escaped_points = [0..31] @ [38, 60, 62, 0x2028, 0x2029]"

lemma escaped_points_read:
  "list_all (\<lambda>n. hex4 (drop 2 (u_escape n)) = Some n \<and> utf8 n =
     (if n = 0x2028 then [CHR 0xE2, CHR 0x80, CHR 0xA8] else if n = 0x2029 then [CHR 0xE2, CHR 0x80, CHR 0xA9]
      else [char_of n])) escaped_points"
  by code_simp

lemma escaped_point_range: "n \<in> set escaped_points \<Longrightarrow> \<not> (0xD800 \<le> n \<and> n < 0xE000)"
  by (auto simp: escaped_points_def)

lemma json_string_u_escape:
  assumes "n \<in> set escaped_points"
  shows "json_string (u_escape n @ s) = map_option (\<lambda>(t, r). (utf8 n @ t, r)) (json_string s)"
proof -
  have h: "hex4 (drop 2 (u_escape n)) = Some n"
    using assms escaped_points_read by (simp add: list_all_iff)
  define d where "d = drop 2 (u_escape n)"
  have e: "u_escape n = backslash # CHR ''u'' # d" and l: "length d = 4"
    by (simp_all add: u_escape_def d_def)
  have "json_string (backslash # CHR ''u'' # d @ s) = map_option (\<lambda>(t, r). (utf8 n @ t, r)) (json_string s)"
    using l h escaped_point_range [OF assms]
    by (subst json_string.simps(2)) (auto simp: backslash_def quote_def d_def [symmetric] Let_def)
  then show ?thesis by (simp add: e)
qed

lemma json_string_simple:
  assumes "simple_escape e = Some n" "e \<noteq> CHR ''u''"
  shows "json_string (backslash # e # s) = map_option (\<lambda>(t, r). (char_of n # t, r)) (json_string s)"
  using assms by (subst json_string.simps(2)) (simp add: backslash_def quote_def)

lemma json_string_plain:
  assumes "c \<noteq> quote" "c \<noteq> backslash" "\<not> (of_char c :: int) < 32"
  shows "json_string (c # s) = map_option (\<lambda>(t, r). (c # t, r)) (json_string s)"
  using assms by (subst json_string.simps(2)) simp

lemma json_string_quote: "json_string (quote # s) = Some ([], s)"
  by (subst json_string.simps(2)) simp

lemma simple_escapes:
  "simple_escape quote = Some 0x22" "simple_escape backslash = Some 0x5C" "simple_escape (CHR ''b'') = Some 8"
  "simple_escape (CHR ''f'') = Some 12" "simple_escape (CHR ''n'') = Some 10" "simple_escape (CHR ''r'') = Some 13"
  "simple_escape (CHR ''t'') = Some 9"
  by code_simp+

lemma escape_not_u: "quote \<noteq> CHR ''u''" "backslash \<noteq> CHR ''u''" "char_of (0x22 :: int) = quote" "char_of (0x5C :: int) = backslash"
  by (simp_all add: quote_def backslash_def char_of_def bit_iff_odd)

lemma char_of_of_char_int: "(of_char c :: int) = n \<Longrightarrow> c = char_of n"
  by (metis char_of_char)

lemma escaped_point_utf8: "n \<in> set [0..31] \<union> {38, 60, 62} \<Longrightarrow> n \<in> set escaped_points \<and> utf8 n = [char_of n]"
  using escaped_points_read by (auto simp: list_all_iff escaped_points_def)

lemma escaped_separators:
  "0x2028 \<in> set escaped_points" "0x2029 \<in> set escaped_points"
  "utf8 0x2028 = [CHR 0xE2, CHR 0x80, CHR 0xA8]" "utf8 0x2029 = [CHR 0xE2, CHR 0x80, CHR 0xA9]"
  using escaped_points_read by (auto simp: list_all_iff escaped_points_def)

lemma html_points: "(of_char (CHR ''<'') :: int) = 60" "(of_char (CHR ''>'') :: int) = 62" "(of_char (CHR ''&'') :: int) = 38"
  by code_simp+

theorem json_string_roundtrip: "json_string (escape_string s @ quote # r) = Some (s, r)"
proof (induction "length s" arbitrary: s rule: less_induct)
  case less
  show ?case
  proof (cases s)
    case Nil
    then show ?thesis by (simp add: json_string_quote)
  next
    case (Cons c s')
    let ?n = "of_char c :: int"
    have nonneg: "0 \<le> ?n" by (cases c) (simp add: of_char_def)
    have IH: "json_string (escape_string s' @ quote # r) = Some (s', r)"
      using less [of s'] Cons by simp
    have simple: ?thesis if "escape_string s = backslash # e # escape_string s'" "simple_escape e = Some ?n" "e \<noteq> CHR ''u''" for e
      using that by (simp add: json_string_simple IH Cons)
    have uesc: ?thesis if "escape_string s = u_escape m @ escape_string t" "m \<in> set escaped_points" "s = utf8 m @ t" for m t
    proof -
      have "length t < length s" using that(2,3) escaped_points_read by (auto simp: list_all_iff)
      from less [OF this] show ?thesis
        using that by (simp add: json_string_u_escape)
    qed
    consider (q) "c = quote" | (b) "c = backslash" | (s) "c \<noteq> quote" "c \<noteq> backslash" "?n \<in> {8, 12, 10, 13, 9}"
      | (u) "c \<noteq> quote" "c \<noteq> backslash" "?n \<notin> {8, 12, 10, 13, 9}" "?n < 32 \<or> c = CHR ''<'' \<or> c = CHR ''>'' \<or> c = CHR ''&''"
      | (p) "c \<noteq> quote" "c \<noteq> backslash" "\<not> ?n < 32" "c \<noteq> CHR ''<''" "c \<noteq> CHR ''>''" "c \<noteq> CHR ''&''"
      by blast
    then show ?thesis
    proof cases
      case q
      have "?n = 0x22" using q by (simp add: quote_def of_char_def)
      then show ?thesis using q Cons simple [of quote] by (simp add: simple_escapes escape_not_u(1))
    next
      case b
      have "?n = 0x5C" using b by (simp add: backslash_def of_char_def)
      then show ?thesis using b Cons simple [of backslash] by (simp add: simple_escapes escape_not_u(2))
    next
      case s
      then consider "?n = 8" | "?n = 12" | "?n = 10" | "?n = 13" | "?n = 9" by blast
      then show ?thesis
      proof cases
        case 1
        then show ?thesis by (intro simple [of "CHR ''b''"]) (use s Cons in \<open>simp_all add: simple_escapes\<close>)
      next
        case 2
        then show ?thesis by (intro simple [of "CHR ''f''"]) (use s Cons in \<open>simp_all add: simple_escapes\<close>)
      next
        case 3
        then show ?thesis by (intro simple [of "CHR ''n''"]) (use s Cons in \<open>simp_all add: simple_escapes\<close>)
      next
        case 4
        then show ?thesis by (intro simple [of "CHR ''r''"]) (use s Cons in \<open>simp_all add: simple_escapes\<close>)
      next
        case 5
        then show ?thesis by (intro simple [of "CHR ''t''"]) (use s Cons in \<open>simp_all add: simple_escapes\<close>)
      qed
    next
      case u
      have m: "?n \<in> set [0..31] \<union> {38, 60, 62}"
        using u(4) nonneg by (auto simp: html_points)
      from escaped_point_utf8 [OF m] show ?thesis
        using u Cons by (intro uesc [of ?n s']) (auto simp: Let_def)
    next
      case p
      show ?thesis
      proof (cases "c = CHR 0xE2 \<and> (take 2 s' = [CHR 0x80, CHR 0xA8] \<or> take 2 s' = [CHR 0x80, CHR 0xA9])")
        case True
        have s': "s' = take 2 s' @ drop 2 s'" by simp
        from True show ?thesis
        proof (elim conjE disjE)
          assume "c = CHR 0xE2" "take 2 s' = [CHR 0x80, CHR 0xA8]"
          then show ?thesis using p Cons s'
            by (intro uesc [of "0x2028" "drop 2 s'"]) (auto simp: Let_def escaped_separators)
        next
          assume "c = CHR 0xE2" "take 2 s' = [CHR 0x80, CHR 0xA9]"
          then show ?thesis using p Cons s'
            by (intro uesc [of "0x2029" "drop 2 s'"]) (auto simp: Let_def escaped_separators)
        qed
      next
        case False
        then have "escape_string s = c # escape_string s'" using p Cons by (auto simp: Let_def)
        then show ?thesis using p IH Cons by (simp add: json_string_plain)
      qed
    qed
  qed
qed

section \<open>Values\<close>

text \<open>Values whose numbers are integers.\<close>

fun json_ok :: "json \<Rightarrow> bool" where
  "json_ok (JNum s) \<longleftrightarrow> (\<exists>i. s = show_int i)"
| "json_ok (JArr vs) \<longleftrightarrow> (\<forall>v\<in>set vs. json_ok v)"
| "json_ok (JObj ms) \<longleftrightarrow> (\<forall>m\<in>set ms. json_ok (snd m))"
| "json_ok _ \<longleftrightarrow> True"

text \<open>The fuel a value needs.\<close>

function json_need :: "json \<Rightarrow> nat" where
  "json_need (JArr vs) = Suc (sum_list (map (\<lambda>v. Suc (json_need v)) vs))"
| "json_need (JObj ms) = Suc (sum_list (map (\<lambda>m. Suc (json_need (snd m))) ms))"
| "json_need JNull = 1"
| "json_need (JBool b) = 1"
| "json_need (JNum s) = 1"
| "json_need (JStr s) = 1"
  by pat_completeness auto
termination
  by (relation "measure size") (auto simp: less_Suc_eq_le intro!: size_list_estimation')

text \<open>What may follow a value inside a document.\<close>

definition json_follow :: "string \<Rightarrow> bool" where
  "json_follow r \<longleftrightarrow> r = [] \<or> hd r = CHR '','' \<or> hd r = CHR ''}'' \<or> hd r = CHR '']''"

lemma json_space_iff: "json_space c \<longleftrightarrow> c \<in> {CHR '' '', CHR 0x09, CHR 0x0A, CHR 0x0D}"
  by (simp add: json_space_def char_of_def bit_iff_odd)

lemma skip_space_Cons [simp]: "\<not> json_space c \<Longrightarrow> skip_space (c # s) = c # s"
  by (simp add: skip_space_def)

lemma not_space [simp]:
  "\<not> json_space quote" "\<not> json_space (CHR ''{'')" "\<not> json_space (CHR ''['')" "\<not> json_space (CHR '','')"
  "\<not> json_space (CHR '':'')" "\<not> json_space (CHR ''}'')" "\<not> json_space (CHR '']'')" "\<not> json_space (CHR ''n'')"
  "\<not> json_space (CHR ''t'')" "\<not> json_space (CHR ''f'')" "\<not> json_space (CHR ''-'')" "is_digit d \<Longrightarrow> \<not> json_space d"
  by (auto simp: json_space_iff quote_def is_digit_nat)

lemma show_nat_0: "show_nat 0 = ''0''"
  by code_simp

lemma show_nat_zero_head: "show_nat n = CHR ''0'' # s \<Longrightarrow> n = 0"
proof (induction n arbitrary: s rule: show_nat.induct)
  case (1 n)
  show ?case
  proof (cases "n < 10")
    case True
    then have "digit n = CHR ''0''" using 1(2) by (simp add: show_nat.simps [of n])
    moreover have "digit 0 = CHR ''0''" by code_simp
    ultimately have "digit n = digit 0" by simp
    then have "digit_value (digit n) = digit_value (digit 0)" by (rule arg_cong)
    then show ?thesis using True by (simp only: digit_value_digit)
  next
    case False
    then obtain t where "show_nat (n div 10) = CHR ''0'' # t"
      using 1(2) by (auto simp: show_nat.simps [of n] append_eq_Cons_conv)
    then have "n div 10 = 0" using 1(1) [OF False] by blast
    with False show ?thesis by simp
  qed
qed

lemma follow_not_number:
  assumes "json_follow (c # s)"
  shows "\<not> is_digit c" "c \<noteq> dot" "c \<noteq> CHR ''e''" "c \<noteq> CHR ''E''"
  using assms by (auto simp: json_follow_def is_digit_nat dot_def)

lemma json_number_show_nat:
  assumes "json_follow r"
  shows "json_number (show_nat n @ r) = Some (show_nat n, r) \<and>
    json_number (CHR ''-'' # show_nat n @ r) = Some (CHR ''-'' # show_nat n, r)"
proof -
  have "\<not> is_digit c" if "c # s = r" for c s using assms that follow_not_number(1) by blast
  then have tw: "takeWhile is_digit (show_nat n @ r) = show_nat n"
    by (cases r) (auto simp: takeWhile_append dest: show_nat_digits)
  obtain d ds where d: "show_nat n = d # ds" by (cases "show_nat n") simp_all
  then have dig: "is_digit d" using show_nat_digits [of d n] by simp
  have neg: "d \<noteq> CHR ''-''" using dig by auto
  have zero: "show_nat n = ''0''" if "d = CHR ''0''"
  proof -
    have "n = 0" using d that show_nat_zero_head by blast
    then show ?thesis by (simp add: show_nat_0)
  qed
  have rest: "r = [] \<or> (hd r \<noteq> dot \<and> hd r \<noteq> CHR ''e'' \<and> hd r \<noteq> CHR ''E'')"
    using assms by (cases r) (auto dest: follow_not_number)
  have ip: "(if show_nat n @ r \<noteq> [] \<and> hd (show_nat n @ r) = CHR ''0'' then [CHR ''0''] else takeWhile is_digit (show_nat n @ r)) = show_nat n"
    using zero tw d by auto
  have no_dot: "(if r \<noteq> [] \<and> hd r = dot then a else b) = b"
    and no_exp: "(r \<noteq> [] \<and> (hd r = CHR ''e'' \<or> hd r = CHR ''E'')) = False" for a b :: string
    using rest by auto
  have sgn: "(if show_nat n @ r \<noteq> [] \<and> hd (show_nat n @ r) = CHR ''-'' then [CHR ''-''] else []) = []"
    using neg d by simp
  have minus: "(if CHR ''-'' # show_nat n @ r \<noteq> [] \<and> hd (CHR ''-'' # show_nat n @ r) = CHR ''-'' then [CHR ''-''] else []) = [CHR ''-'']"
    by simp
  have at: "drop (length []) (show_nat n @ r) = show_nat n @ r" "drop (length [CHR ''-'']) (CHR ''-'' # show_nat n @ r) = show_nat n @ r"
    "drop (length (show_nat n)) (show_nat n @ r) = r" "drop (length []) r = r"
    by simp_all
  have ne: "show_nat n \<noteq> []" by simp
  show ?thesis
    unfolding json_number_def Let_def sgn minus at ip no_dot no_exp by (simp add: ne)
qed

lemma json_number_show_int: "json_follow r \<Longrightarrow> json_number (show_int i @ r) = Some (show_int i, r)"
  using json_number_show_nat [of r] by (simp add: show_int_def)

lemma show_int_head: "\<exists>c s. show_int i = c # s \<and> (is_digit c \<or> c = CHR ''-'')"
  using show_int_chars [of _ i] by (cases "show_int i") auto


lemma json_quote_ne [simp]: "quote \<noteq> CHR ''}''" "quote \<noteq> CHR '']''" "quote \<noteq> CHR ''{''" "quote \<noteq> CHR ''[''" "CHR ''{'' \<noteq> quote" "CHR ''['' \<noteq> quote"
  "CHR ''}'' \<noteq> quote" "CHR '']'' \<noteq> quote" "CHR '','' \<noteq> quote" "CHR '':'' \<noteq> quote" "CHR ''n'' \<noteq> quote" "CHR ''t'' \<noteq> quote"
  "CHR ''f'' \<noteq> quote" "CHR ''-'' \<noteq> quote" "is_digit d \<Longrightarrow> d \<noteq> quote"
  by (auto simp: quote_def is_digit_nat)

lemma digit_ne [simp]: "is_digit d \<Longrightarrow> d \<noteq> CHR ''{'' \<and> d \<noteq> CHR ''['' \<and> d \<noteq> CHR ''n'' \<and> d \<noteq> CHR ''t'' \<and> d \<noteq> CHR ''f'' \<and> d \<noteq> CHR '']'' \<and> d \<noteq> CHR ''}''"
  by (auto simp: is_digit_nat)

lemma json_value_scalar:
  "json_value (Suc n) (json_quote s @ r) = Some (JStr s, r)"
  "json_value (Suc n) (''null'' @ r) = Some (JNull, r)"
  "json_value (Suc n) (''true'' @ r) = Some (JBool True, r)"
  "json_value (Suc n) (''false'' @ r) = Some (JBool False, r)"
  by (simp_all add: json_quote_def json_string_roundtrip)

lemma json_value_num:
  assumes "json_follow r"
  shows "json_value (Suc n) (show_int i @ r) = Some (JNum (show_int i), r)"
proof -
  obtain c s where c: "show_int i = c # s" "is_digit c \<or> c = CHR ''-''" using show_int_head by blast
  then have "json_number (c # s @ r) = Some (c # s, r)" using json_number_show_int [OF assms, of i] by simp
  moreover have "\<not> json_space c" "c \<noteq> quote" "c \<noteq> CHR ''{''" "c \<noteq> CHR ''[''" "c \<noteq> CHR ''n''" "c \<noteq> CHR ''t''" "c \<noteq> CHR ''f''"
    using c(2) by (auto simp: is_digit_nat quote_def json_space_iff)
  ultimately show ?thesis using c(1) by simp
qed

text \<open>The first byte of an encoded value: never a space, a closing bracket or a comma.\<close>

lemma json_encode_head:
  assumes "json_ok v"
  shows "\<exists>c s. json_encode v = c # s \<and> \<not> json_space c \<and> c \<noteq> CHR '']'' \<and> c \<noteq> CHR ''}''"
proof (cases v)
  case (JNum s)
  then obtain i where "s = show_int i" using assms by auto
  then show ?thesis using JNum show_int_head [of i] by fastforce
qed (auto simp: json_quote_def quote_def json_space_iff)

lemma join_with_Cons: "join_with sep (x # xs) = x @ (if xs = [] then [] else sep @ join_with sep xs)"
  by (cases xs) simp_all

lemma json_elems_encode:
  assumes "\<And>v r n. v \<in> set vs \<Longrightarrow> json_follow r \<Longrightarrow> json_need v \<le> n \<Longrightarrow> json_value n (json_encode v @ r) = Some (v, r)"
    and "vs \<noteq> []" "sum_list (map (\<lambda>v. Suc (json_need v)) vs) \<le> n"
  shows "json_elems n (join_with '','' (map json_encode vs) @ CHR '']'' # r) = Some (vs, r)"
  using assms
proof (induction vs arbitrary: n)
  case (Cons v vs)
  obtain m where n: "n = Suc m" using Cons.prems(3) by (cases n) simp_all
  then have m: "json_need v \<le> m" "sum_list (map (\<lambda>v. Suc (json_need v)) vs) \<le> m" using Cons.prems(3) by simp_all
  show ?case
  proof (cases "vs = []")
    case True
    then show ?thesis
      using Cons.prems(1) [of v "CHR '']'' # r" m] m n by (simp add: json_follow_def)
  next
    case False
    have "json_elems m (join_with '','' (map json_encode vs) @ CHR '']'' # r) = Some (vs, r)"
      by (rule Cons.IH [OF _ False m(2)]) (use Cons.prems(1) in auto)
    then show ?thesis
      using False Cons.prems(1) [of v "CHR '','' # join_with '','' (map json_encode vs) @ CHR '']'' # r" m] m n
      by (simp add: json_follow_def join_with_Cons)
  qed
qed simp

lemma json_members_encode:
  assumes "\<And>m r n. m \<in> set ms \<Longrightarrow> json_follow r \<Longrightarrow> json_need (snd m) \<le> n \<Longrightarrow>
      json_value n (json_encode (snd m) @ r) = Some (snd m, r)"
    and "ms \<noteq> []" "sum_list (map (\<lambda>m. Suc (json_need (snd m))) ms) \<le> n"
  shows "json_members n (join_with '','' (map (\<lambda>(k, v). json_quote k @ '':'' @ json_encode v) ms) @ CHR ''}'' # r) = Some (ms, r)"
  using assms
proof (induction ms arbitrary: n)
  case (Cons kv ms)
  obtain k v where kv: "kv = (k, v)" by (cases kv)
  obtain m where n: "n = Suc m" using Cons.prems(3) by (cases n) simp_all
  then have m: "json_need v \<le> m" "sum_list (map (\<lambda>m. Suc (json_need (snd m))) ms) \<le> m" using Cons.prems(3) kv by simp_all
  show ?case
  proof (cases "ms = []")
    case True
    then show ?thesis
      using Cons.prems(1) [of kv "CHR ''}'' # r" m] m n kv
      by (simp add: json_follow_def json_quote_def json_string_roundtrip)
  next
    case False
    let ?t = "join_with '','' (map (\<lambda>(k, v). json_quote k @ '':'' @ json_encode v) ms) @ CHR ''}'' # r"
    have "json_members m ?t = Some (ms, r)"
      by (rule Cons.IH [OF _ False m(2)]) (use Cons.prems(1) in auto)
    then show ?thesis
      using False Cons.prems(1) [of kv "CHR '','' # ?t" m] m n kv
      by (simp add: json_follow_def join_with_Cons json_quote_def json_string_roundtrip)
  qed
qed simp

theorem json_value_roundtrip:
  "json_ok v \<Longrightarrow> json_follow r \<Longrightarrow> json_need v \<le> n \<Longrightarrow> json_value n (json_encode v @ r) = Some (v, r)"
proof (induction v arbitrary: r n rule: json_need.induct)
  case (1 vs)
  then obtain m where n: "n = Suc m" "sum_list (map (\<lambda>v. Suc (json_need v)) vs) \<le> m" by (cases n) simp_all
  show ?case
  proof (cases vs)
    case Nil
    then show ?thesis using n by simp
  next
    case (Cons w ws)
    obtain c s where c: "json_encode w = c # s" "\<not> json_space c" "c \<noteq> CHR '']''"
      using json_encode_head [of w] 1(2) Cons by auto
    have "json_elems m (join_with '','' (map json_encode vs) @ CHR '']'' # r) = Some (vs, r)"
      by (rule json_elems_encode) (use 1 n Cons in auto)
    then show ?thesis using n c Cons by (simp add: join_with_Cons)
  qed
next
  case (2 ms)
  then obtain m where n: "n = Suc m" "sum_list (map (\<lambda>m. Suc (json_need (snd m))) ms) \<le> m" by (cases n) simp_all
  show ?case
  proof (cases ms)
    case Nil
    then show ?thesis using n by simp
  next
    case (Cons w ws)
    have "json_members m (join_with '','' (map (\<lambda>(k, v). json_quote k @ '':'' @ json_encode v) ms) @ CHR ''}'' # r) = Some (ms, r)"
    proof (rule json_members_encode)
      fix m' r n
      assume m': "m' \<in> set ms" "json_follow r" "json_need (snd m') \<le> n"
      then have "json_ok (snd m')" using 2(2) by simp
      then show "json_value n (json_encode (snd m') @ r) = Some (snd m', r)"
        using 2(1) [of m' r n] m' by blast
    qed (use n Cons in simp_all)
    then show ?thesis using n Cons by (cases w) (simp add: join_with_Cons json_quote_def)
  qed
next
  case 3
  then show ?case by (cases n) (simp_all add: json_value_scalar(2) [simplified])
next
  case (4 b)
  then show ?case by (cases n; cases b) (simp_all add: json_value_scalar(3,4) [simplified])
next
  case (5 s)
  then show ?case by (cases n) (auto simp: json_value_num simp del: json_value.simps)
next
  case (6 s)
  then show ?case by (cases n) (simp_all add: json_value_scalar(1) del: json_value.simps)
qed


section \<open>Whole documents\<close>

lemma json_quote_length: "2 \<le> length (json_quote s)"
  by (simp add: json_quote_def)

lemma join_with_length: "xs \<noteq> [] \<Longrightarrow> Suc (length (join_with [c] xs)) = sum_list (map (\<lambda>x. Suc (length x)) xs)"
  by (induction xs) (auto simp: join_with_Cons)

lemma json_need_length: "json_ok v \<Longrightarrow> json_need v \<le> length (json_encode v)"
proof (induction v rule: json_need.induct)
  case (1 vs)
  have "sum_list (map (\<lambda>v. Suc (json_need v)) vs) \<le> sum_list (map (\<lambda>v. Suc (length (json_encode v))) vs)"
    by (rule sum_list_mono) (use 1 in auto)
  then show ?case
    using join_with_length [of "map json_encode vs" "CHR '',''"] by (cases vs) (simp_all add: comp_def)
next
  case (2 ms)
  have "sum_list (map (\<lambda>m. Suc (json_need (snd m))) ms) \<le>
      sum_list (map (\<lambda>m. Suc (length (json_quote (fst m) @ '':'' @ json_encode (snd m)))) ms)"
  proof (rule sum_list_mono)
    fix m assume m: "m \<in> set ms"
    then have "json_need (snd m) \<le> length (json_encode (snd m))" using 2 by auto
    then show "Suc (json_need (snd m)) \<le> Suc (length (json_quote (fst m) @ '':'' @ json_encode (snd m)))" by simp
  qed
  then show ?case
    using join_with_length [of "map (\<lambda>(k, v). json_quote k @ '':'' @ json_encode v) ms" "CHR '',''"]
    by (cases ms) (simp_all add: comp_def case_prod_beta)
next
  case (5 s)
  then have "s \<noteq> []" using show_int_nonempty by auto
  then show ?case by (cases s) simp_all
qed (simp_all add: json_quote_def)

theorem json_parse_encode: "json_ok v \<Longrightarrow> json_parse (json_encode v) = Some v"
  using json_value_roundtrip [of v "[]" "2 * length (json_encode v) + 2"] json_need_length [of v]
  by (simp add: json_parse_def json_follow_def skip_space_def)

text \<open>Encoded text has nothing to compact: a raw message that was written by the encoder is kept as it is.\<close>

text \<open>The two shapes of a step of \<^const>\<open>escape_string\<close>: an escape, or the byte itself.\<close>

definition esc_code :: "string \<Rightarrow> string \<Rightarrow> bool" where
  "esc_code e s \<longleftrightarrow> (\<exists>d. e = [backslash, d] \<and> d \<noteq> CHR ''<'' \<and> d \<noteq> CHR ''>'' \<and> d \<noteq> CHR ''&'') \<or> (\<exists>n. e = u_escape n)"

lemma escape_step:
  obtains (nil) "s = []" "escape_string s = []"
  | (esc) e t where "escape_string s = e @ escape_string t" "length t < length s" "esc_code e s"
  | (plain) c t where "s = c # t" "escape_string s = c # escape_string t" "c \<noteq> quote" "c \<noteq> backslash"
      "c \<noteq> CHR ''<''" "c \<noteq> CHR ''>''" "c \<noteq> CHR ''&''" "\<not> (c = CHR 0xE2 \<and> (take 2 t = [CHR 0x80, CHR 0xA8] \<or> take 2 t = [CHR 0x80, CHR 0xA9]))"
proof (cases s)
  case Nil
  then show ?thesis using nil by simp
next
  case (Cons c t)
  let ?n = "of_char c :: int"
  consider (a) "\<exists>e. escape_string s = e @ escape_string t \<and> esc_code e s"
    | (b) "\<exists>e. escape_string s = e @ escape_string (drop 2 t) \<and> esc_code e s"
    | (p) "escape_string s = c # escape_string t" "c \<noteq> quote" "c \<noteq> backslash" "c \<noteq> CHR ''<''" "c \<noteq> CHR ''>''" "c \<noteq> CHR ''&''"
       "\<not> (c = CHR 0xE2 \<and> (take 2 t = [CHR 0x80, CHR 0xA8] \<or> take 2 t = [CHR 0x80, CHR 0xA9]))"
  proof -
    have two: "esc_code [backslash, d] s" if "d \<in> {quote, backslash, CHR ''b'', CHR ''f'', CHR ''n'', CHR ''r'', CHR ''t''}" for d
      using that by (auto simp: esc_code_def quote_def backslash_def)
    have six: "esc_code (u_escape n) s" for n by (auto simp: esc_code_def)
    have app: "\<exists>e. escape_string s = e @ escape_string t \<and> esc_code e s"
      if "escape_string s = backslash # d # escape_string t" "d \<in> {quote, backslash, CHR ''b'', CHR ''f'', CHR ''n'', CHR ''r'', CHR ''t''}" for d
      using that two [OF that(2)] by (intro exI [of _ "[backslash, d]"]) simp
    show ?thesis
    proof (cases "c = quote \<or> c = backslash \<or> ?n \<in> {8, 12, 10, 13, 9}")
      case True
      then consider "c = quote \<or> c = backslash" | "c \<noteq> quote" "c \<noteq> backslash" "?n = 8" | "c \<noteq> quote" "c \<noteq> backslash" "?n = 12"
        | "c \<noteq> quote" "c \<noteq> backslash" "?n = 10" | "c \<noteq> quote" "c \<noteq> backslash" "?n = 13" | "c \<noteq> quote" "c \<noteq> backslash" "?n = 9"
        by blast
      then show ?thesis
      proof cases
        case 1
        then show ?thesis by (intro a app [of c]) (auto simp: Cons Let_def)
      next
        case 2
        then show ?thesis by (intro a app [of "CHR ''b''"]) (simp_all add: Cons Let_def)
      next
        case 3
        then show ?thesis by (intro a app [of "CHR ''f''"]) (simp_all add: Cons Let_def)
      next
        case 4
        then show ?thesis by (intro a app [of "CHR ''n''"]) (simp_all add: Cons Let_def)
      next
        case 5
        then show ?thesis by (intro a app [of "CHR ''r''"]) (simp_all add: Cons Let_def)
      next
        case 6
        then show ?thesis by (intro a app [of "CHR ''t''"]) (simp_all add: Cons Let_def)
      qed
    next
      case no: False
      show ?thesis
      proof (cases "?n < 32 \<or> c = CHR ''<'' \<or> c = CHR ''>'' \<or> c = CHR ''&''")
        case True
        then show ?thesis using no six by (intro a) (auto simp: Cons Let_def)
      next
        case False
        show ?thesis
        proof (cases "c = CHR 0xE2 \<and> (take 2 t = [CHR 0x80, CHR 0xA8] \<or> take 2 t = [CHR 0x80, CHR 0xA9])")
          case True
          then show ?thesis using no False six by (intro b) (auto simp: Cons Let_def)
        next
          case not_sep: False
          have "escape_string s = c # escape_string t" using no False not_sep by (auto simp: Cons Let_def)
          then show ?thesis using no False not_sep by (intro p) simp_all
        qed
      qed
    qed
  qed
  then show ?thesis
  proof cases
    case a
    then show ?thesis using Cons esc by auto
  next
    case b
    then show ?thesis using Cons esc [of _ "drop 2 t"] by auto
  next
    case p
    then show ?thesis using plain Cons by blast
  qed
qed

lemma escape_head:
  assumes "escape_string t @ quote # r = x # w" "x \<noteq> quote" "x \<noteq> backslash"
  shows "\<exists>t'. t = x # t' \<and> w = escape_string t' @ quote # r"
proof (cases rule: escape_step [of t])
  case (esc e u)
  then show ?thesis using assms by (auto simp: esc_code_def u_escape_def)
qed (use assms in auto)

lemma escape_no_separator:
  assumes "take 2 (escape_string t @ quote # r) = [CHR 0x80, y]" "y \<noteq> quote" "y \<noteq> backslash"
  shows "take 2 t = [CHR 0x80, y]"
proof -
  obtain w where w: "escape_string t @ quote # r = CHR 0x80 # y # w"
    using assms(1) by (cases "escape_string t @ quote # r"; cases "tl (escape_string t @ quote # r)") auto
  then obtain t' where t': "t = CHR 0x80 # t'" "y # w = escape_string t' @ quote # r"
    using escape_head [OF w] by (auto simp: quote_def backslash_def)
  then show ?thesis using escape_head [OF t'(2) [symmetric] assms(2,3)] by auto
qed

lemma hex_digit_plain:
  assumes "0 \<le> k" "k < 16"
  shows "json_compact True (hex_digit k # s) = hex_digit k # json_compact True s"
proof -
  have "\<forall>k\<in>set [0..15]. hex_digit k \<notin> {CHR ''<'', CHR ''>'', CHR ''&'', CHR 0xE2, backslash, quote}" by code_simp
  then have "hex_digit k \<notin> {CHR ''<'', CHR ''>'', CHR ''&'', CHR 0xE2, backslash, quote}" using assms by simp
  then show ?thesis by simp
qed

lemma backslash_ne: "backslash \<noteq> CHR ''<''" "backslash \<noteq> CHR ''>''" "backslash \<noteq> CHR ''&''" "backslash \<noteq> CHR 0xE2"
  "quote \<noteq> CHR ''<''" "quote \<noteq> CHR ''>''" "quote \<noteq> CHR ''&''" "quote \<noteq> CHR 0xE2" "quote \<noteq> backslash"
  by (simp_all add: backslash_def quote_def)

lemma compact_escape_code:
  assumes "esc_code e s"
  shows "json_compact True (e @ r) = e @ json_compact True r"
  using assms unfolding esc_code_def
proof (elim disjE exE conjE)
  fix n assume e: "e = u_escape n"
  have digits: "json_compact True (map hex_digit ks @ r) = map hex_digit ks @ json_compact True r"
    if "\<forall>k\<in>set ks. 0 \<le> k \<and> k < 16" for ks
    using that by (induction ks) (simp_all add: hex_digit_plain del: json_compact.simps)
  define ks where "ks = map (\<lambda>k. n div 16 ^ k mod 16) [3, 2, 1, 0]"
  have "e = backslash # CHR ''u'' # map hex_digit ks" by (simp add: e u_escape_def ks_def)
  moreover have "\<forall>k\<in>set ks. 0 \<le> k \<and> k < 16" by (auto simp: ks_def)
  ultimately show ?thesis using digits [of ks] by (simp add: backslash_ne)
qed (simp add: backslash_ne)

lemma compact_string: "json_compact True (escape_string s @ quote # r) = escape_string s @ quote # json_compact False r"
proof (induction "length s" arbitrary: s rule: less_induct)
  case less
  show ?case
  proof (cases rule: escape_step [of s])
    case nil
    then show ?thesis by (simp add: backslash_ne)
  next
    case (esc e t)
    then show ?thesis using less [of t] by (simp add: compact_escape_code)
  next
    case (plain c t)
    define w where "w = escape_string t @ quote # r"
    have "\<not> (c = CHR 0xE2 \<and> take 2 w = [CHR 0x80, y])" if "y \<in> {CHR 0xA8, CHR 0xA9}" for y
      using plain(8) escape_no_separator [of t r y] that by (auto simp: quote_def backslash_def w_def)
    then have "json_compact True (c # w) = c # json_compact True w"
      using plain(3-7) by auto
    moreover have "json_compact True w = escape_string t @ quote # json_compact False r"
      using less [of t] plain(1) by (simp add: w_def)
    moreover have "escape_string s @ quote # r = c # w" by (simp only: plain(2) w_def append_Cons)
    ultimately show ?thesis by (simp only: plain(2) append_Cons)
  qed
qed

definition compact_char :: "char \<Rightarrow> bool" where
  "compact_char c \<longleftrightarrow> \<not> json_space c \<and> c \<notin> {CHR ''<'', CHR ''>'', CHR ''&'', CHR 0xE2, quote}"

lemma compact_plain: "list_all compact_char s \<Longrightarrow> json_compact False (s @ r) = s @ json_compact False r"
  by (induction s) (simp_all add: compact_char_def)

lemma compact_int: "list_all compact_char (show_int i)"
proof -
  have "compact_char c" if "is_digit c \<or> c = CHR ''-''" for c
    using that by (auto simp: compact_char_def is_digit_nat json_space_iff quote_def)
  then show ?thesis using show_int_chars by (auto simp: list_all_iff)
qed

lemma compact_char_lits:
  "compact_char (CHR ''['')" "compact_char (CHR '']'')" "compact_char (CHR ''{'')" "compact_char (CHR ''}'')"
  "compact_char (CHR '','')" "compact_char (CHR '':'')" "list_all compact_char ''null''" "list_all compact_char ''true''"
  "list_all compact_char ''false''"
  by (simp_all add: compact_char_def json_space_iff quote_def)

lemma compact_lit: "compact_char c \<Longrightarrow> json_compact False (c # s) = c # json_compact False s"
  using compact_plain [of "[c]" s] by simp

lemma compact_quote: "json_compact False (json_quote s @ r) = json_quote s @ json_compact False r"
  by (simp add: json_quote_def compact_string backslash_ne)

lemma compact_join:
  assumes "\<And>x r. x \<in> set xs \<Longrightarrow> json_compact False (f x @ r) = f x @ json_compact False r"
  shows "json_compact False (join_with '','' (map f xs) @ r) = join_with '','' (map f xs) @ json_compact False r"
  using assms by (induction xs) (simp_all add: join_with_Cons compact_lit compact_char_lits)

theorem compact_encode: "json_ok v \<Longrightarrow> json_compact False (json_encode v @ r) = json_encode v @ json_compact False r"
proof (induction v arbitrary: r rule: json_need.induct)
  case (1 vs)
  then show ?case by (simp add: compact_lit compact_char_lits compact_join)
next
  case (2 ms)
  have "json_compact False (join_with '','' (map (\<lambda>m. json_quote (fst m) @ '':'' @ json_encode (snd m)) ms) @ r) =
      join_with '','' (map (\<lambda>m. json_quote (fst m) @ '':'' @ json_encode (snd m)) ms) @ json_compact False r" for r
    by (rule compact_join) (use 2 in \<open>simp add: compact_quote compact_lit compact_char_lits\<close>)
  then show ?case by (simp add: compact_lit compact_char_lits case_prod_beta')
next
  case (5 s)
  then show ?case by (auto simp: compact_plain compact_int)
next
  case (6 s)
  then show ?case by (simp add: compact_quote)
qed (use compact_plain [OF compact_char_lits(7)] compact_plain [OF compact_char_lits(8)] compact_plain [OF compact_char_lits(9)]
    in simp_all)

end
