(* ===== verification/Json_Compact.thy ===== *)
theory Json_Compact
  imports Json_Roundtrip
begin

text \<open>
  The compaction of a raw message keeps its meaning: a text that parses still parses to the same value after
  its white space is gone and its HTML characters are escaped, also inside a larger document. Values are
  arbitrary; a number keeps its spelling.
\<close>

section \<open>Strings\<close>

lemma special_ne:
  "CHR ''<'' \<noteq> backslash" "CHR ''>'' \<noteq> backslash" "CHR ''&'' \<noteq> backslash" "CHR 0xE2 \<noteq> backslash" "quote \<noteq> backslash"
  "backslash \<noteq> CHR ''<''" "backslash \<noteq> CHR ''>''" "backslash \<noteq> CHR ''&''" "backslash \<noteq> CHR 0xE2" "backslash \<noteq> quote"
  "quote \<noteq> CHR ''<''" "quote \<noteq> CHR ''>''" "quote \<noteq> CHR ''&''" "quote \<noteq> CHR 0xE2"
  "CHR ''<'' \<noteq> quote" "CHR ''>'' \<noteq> quote" "CHR ''&'' \<noteq> quote" "CHR 0xE2 \<noteq> quote"
  by (simp_all add: backslash_def quote_def)

lemma is_hex_plain: "is_hex c \<Longrightarrow> c \<notin> {CHR ''<'', CHR ''>'', CHR ''&'', CHR 0xE2, backslash, quote}"
proof -
  have "\<forall>d\<in>set [CHR ''<'', CHR ''>'', CHR ''&'', CHR 0xE2, backslash, quote]. hex_value d = None" by code_simp
  then show "is_hex c \<Longrightarrow> c \<notin> {CHR ''<'', CHR ''>'', CHR ''&'', CHR 0xE2, backslash, quote}"
    by (auto simp: is_hex_def)
qed

lemma compact_hex: "list_all is_hex h \<Longrightarrow> json_compact True (h @ s) = h @ json_compact True s"
proof (induction h)
  case (Cons c h)
  then show ?case using is_hex_plain [of c] by auto
qed simp

lemma hex4_Some: "hex4 h = Some n \<Longrightarrow> length h = 4 \<and> list_all is_hex h"
  by (simp add: hex4_def split: if_splits)

text \<open>The low half of a surrogate pair follows.\<close>

definition low_follows :: "string \<Rightarrow> bool" where
  "low_follows s \<longleftrightarrow> take 2 s = [backslash, CHR ''u''] \<and>
     (case hex4 (take 4 (drop 2 s)) of Some l \<Rightarrow> 0xDC00 \<le> l \<and> l < 0xE000 | None \<Rightarrow> False)"

lemma json_string_u:
  assumes "hex4 h = Some n"
  shows "json_string (backslash # CHR ''u'' # h @ s) =
    (if 0xD800 \<le> n \<and> n < 0xDC00 \<and> low_follows s
     then map_option (\<lambda>(t, r). (utf8 (0x10000 + (n - 0xD800) * 1024 + (the (hex4 (take 4 (drop 2 s))) - 0xDC00)) @ t, r))
       (json_string (drop 6 s))
     else map_option (\<lambda>(t, r). (utf8 (if 0xD800 \<le> n \<and> n < 0xE000 then 0xFFFD else n) @ t, r)) (json_string s))"
proof -
  have "length h = 4" "\<not> (of_char backslash :: int) < 32"
    using hex4_Some [OF assms] by (simp_all add: backslash_def of_char_def)
  then show ?thesis
    using assms by (subst json_string.simps(2)) (simp add: special_ne low_follows_def Let_def)
qed

lemma json_string_backslash:
  assumes "json_string (backslash # s) = Some x"
  shows "(\<exists>h n s'. s = CHR ''u'' # h @ s' \<and> hex4 h = Some n) \<or>
    (\<exists>e n s'. s = e # s' \<and> e \<noteq> CHR ''u'' \<and> simple_escape e = Some n)"
proof (cases s)
  case (Cons e s')
  have b: "\<not> (of_char backslash :: int) < 32" by (simp add: backslash_def of_char_def)
  show ?thesis
  proof (cases "e = CHR ''u''")
    case True
    then obtain n where "hex4 (take 4 s') = Some n"
      using assms b Cons by (subst (asm) json_string.simps(2)) (auto simp: special_ne split: option.splits)
    then have "s = CHR ''u'' # take 4 s' @ drop 4 s'" "hex4 (take 4 s') = Some n" using True Cons by simp_all
    then show ?thesis by blast
  next
    case False
    then show ?thesis
      using assms b Cons by (subst (asm) json_string.simps(2)) (auto simp: special_ne split: option.splits)
  qed
qed (use assms in \<open>simp add: json_string.simps(2) special_ne split: if_splits\<close>)

lemma u_escape_not_low:
  assumes "n \<in> set escaped_points"
  shows "\<not> low_follows (u_escape n @ s)"
proof -
  have h: "hex4 (drop 2 (u_escape n)) = Some n" using assms escaped_points_read by (simp add: list_all_iff)
  moreover have "take 4 (drop 2 (u_escape n @ s)) = drop 2 (u_escape n)" by (simp add: u_escape_def)
  ultimately show ?thesis using escaped_point_range [OF assms] by (auto simp: low_follows_def)
qed

text \<open>The four ways compaction goes on inside a string.\<close>

definition separator :: "char \<Rightarrow> string \<Rightarrow> int option" where
  "separator c s =
     (if c = CHR 0xE2 \<and> take 2 s = [CHR 0x80, CHR 0xA8] then Some 0x2028
      else if c = CHR 0xE2 \<and> take 2 s = [CHR 0x80, CHR 0xA9] then Some 0x2029 else None)"

lemma compact_in_string:
  assumes "c \<noteq> quote" "c \<noteq> backslash"
  shows "json_compact True (c # s) =
    (if c = CHR ''<'' \<or> c = CHR ''>'' \<or> c = CHR ''&'' then u_escape (of_char c) @ json_compact True s
     else case separator c s of Some n \<Rightarrow> u_escape n @ json_compact True (drop 2 s) | None \<Rightarrow> c # json_compact True s)"
  using assms by (auto simp: separator_def)

lemma separator_Some:
  assumes "separator c s = Some n"
  shows "n \<in> set escaped_points \<and> c # s = utf8 n @ drop 2 s \<and> utf8 n = [CHR 0xE2, CHR 0x80, if n = 0x2028 then CHR 0xA8 else CHR 0xA9]"
proof -
  have two: "s = x # y # drop 2 s" if "take 2 s = [x, y]" for x y
    using append_take_drop_id [of 2 s] unfolding that by simp
  consider "c = CHR 0xE2" "take 2 s = [CHR 0x80, CHR 0xA8]" "n = 0x2028"
    | "c = CHR 0xE2" "take 2 s = [CHR 0x80, CHR 0xA9]" "n = 0x2029"
    using assms unfolding separator_def by (auto split: if_splits)
  then show ?thesis
  proof cases
    case 1
    have "c # s = CHR 0xE2 # CHR 0x80 # CHR 0xA8 # drop 2 s" using 1(1) two [OF 1(2)] by (rule arg_cong2)
    with 1(3) show ?thesis by (simp only: escaped_separators) simp
  next
    case 2
    have "c # s = CHR 0xE2 # CHR 0x80 # CHR 0xA9 # drop 2 s" using 2(1) two [OF 2(2)] by (rule arg_cong2)
    with 2(3) show ?thesis by (simp only: escaped_separators) simp
  qed
qed

lemma html_point: "c = CHR ''<'' \<or> c = CHR ''>'' \<or> c = CHR ''&'' \<Longrightarrow> of_char c \<in> set escaped_points \<and> utf8 (of_char c) = [c]"
  using escaped_point_utf8 [of "of_char c"] html_points by auto

lemma compact_not_low:
  assumes "json_string s = Some x" "low_follows (json_compact True s @ y)"
  shows "\<exists>h l s'. s = backslash # CHR ''u'' # h @ s' \<and> hex4 h = Some l \<and> 0xDC00 \<le> l \<and> l < 0xE000"
proof (cases s)
  case (Cons c s')
  show ?thesis
  proof (cases "c = backslash")
    case True
    from json_string_backslash [OF assms(1) [unfolded Cons True]] show ?thesis
    proof (elim disjE exE conjE)
      fix h n t assume s': "s' = CHR ''u'' # h @ t" "hex4 h = Some n"
      have "json_compact True s = backslash # CHR ''u'' # h @ json_compact True t"
        using s' hex4_Some [of h n] by (simp add: Cons True special_ne compact_hex)
      then have "0xDC00 \<le> n \<and> n < 0xE000"
        using assms(2) s'(2) hex4_Some [of h n] by (simp add: low_follows_def)
      then show ?thesis using s' Cons True by blast
    next
      fix e n t assume "s' = e # t" "e \<noteq> CHR ''u''"
      then show ?thesis using assms(2) by (simp add: Cons True special_ne low_follows_def)
    qed
  next
    case False
    show ?thesis
    proof (cases "c = quote")
      case True
      then show ?thesis using assms(2) by (simp add: Cons special_ne low_follows_def)
    next
      case False
      note step = compact_in_string [OF False \<open>c \<noteq> backslash\<close>, of s']
      have "\<not> low_follows (json_compact True s @ y)"
      proof (cases "c = CHR ''<'' \<or> c = CHR ''>'' \<or> c = CHR ''&''")
        case True
        then show ?thesis
          using html_point [OF True] step u_escape_not_low [of "of_char c" "json_compact True s' @ y"] by (simp add: Cons)
      next
        case nohtml: False
        show ?thesis
        proof (cases "separator c s'")
          case None
          then show ?thesis using nohtml step \<open>c \<noteq> backslash\<close> by (simp add: Cons low_follows_def)
        next
          case (Some n)
          then show ?thesis
            using nohtml step separator_Some [OF Some] u_escape_not_low [of n "json_compact True (drop 2 s') @ y"]
            by (simp add: Cons)
        qed
      qed
      with assms(2) show ?thesis by blast
    qed
  qed
qed (use assms in simp)

lemma json_string_utf8: "utf8 n = [a, b, d] \<Longrightarrow> json_string (a # b # d # s) = Some (t, r) \<Longrightarrow>
    a \<notin> {quote, backslash} \<Longrightarrow> b \<notin> {quote, backslash} \<Longrightarrow> d \<notin> {quote, backslash} \<Longrightarrow>
    \<exists>t'. t = utf8 n @ t' \<and> json_string s = Some (t', r)"
  by (cases "(of_char a :: int) < 32"; cases "(of_char b :: int) < 32"; cases "(of_char d :: int) < 32")
    (auto simp: json_string.simps(2) json_string_plain)

theorem json_string_compact:
  "json_string s = Some (t, r) \<Longrightarrow> json_string (json_compact True s @ x) = Some (t, json_compact False r @ x)"
proof (induction "length s" arbitrary: s t rule: less_induct)
  case less
  then obtain c s' where s: "s = c # s'" by (cases s) simp_all
  show ?case
  proof (cases "c = quote")
    case True
    then show ?thesis using less.prems by (simp add: s json_string_quote special_ne)
  next
    case noquote: False
    have printing: "\<not> (of_char c :: int) < 32" using less.prems noquote by (auto simp: s json_string.simps(2))
    show ?thesis
    proof (cases "c = backslash")
      case True
      from json_string_backslash [OF less.prems [unfolded s True]] show ?thesis
      proof (elim disjE exE conjE)
        fix e n u assume e: "s' = e # u" "e \<noteq> CHR ''u''" "simple_escape e = Some n"
        then obtain t' where t': "t = char_of n # t'" "json_string u = Some (t', r)"
          using less.prems by (auto simp: s True json_string_simple)
        then have "json_string (json_compact True u @ x) = Some (t', json_compact False r @ x)"
          by (intro less.hyps) (simp_all add: s e)
        then show ?thesis using e t' by (simp add: s True special_ne json_string_simple)
      next
        fix h n u assume h: "s' = CHR ''u'' # h @ u" "hex4 h = Some n"
        have hex: "length h = 4" "list_all is_hex h" using hex4_Some [OF h(2)] by simp_all
        have c: "json_compact True s @ x = backslash # CHR ''u'' # h @ (json_compact True u @ x)"
          by (simp add: s h True special_ne compact_hex hex)
        show ?thesis
        proof (cases "0xD800 \<le> n \<and> n < 0xDC00 \<and> low_follows u")
          case True
          then obtain l m v where l: "u = backslash # CHR ''u'' # l @ v" "hex4 l = Some m"
          proof -
            from True obtain m where m: "hex4 (take 4 (drop 2 u)) = Some m" "take 2 u = [backslash, CHR ''u'']"
              by (auto simp: low_follows_def split: option.splits)
            have "u = take 2 u @ take 4 (drop 2 u) @ drop 6 u"
              by (metis append_take_drop_id drop_drop add_2_eq_Suc' add_Suc numeral_plus_numeral semiring_norm(2-9))
            then have "u = backslash # CHR ''u'' # take 4 (drop 2 u) @ drop 6 u" unfolding m(2) by simp
            then show thesis using m(1) that by blast
          qed
          have l4: "length l = 4" "list_all is_hex l" using hex4_Some [OF l(2)] by simp_all
          have lc: "json_compact True u @ x = backslash # CHR ''u'' # l @ (json_compact True v @ x)"
            by (simp add: l special_ne compact_hex l4)
          have "0xDC00 \<le> m \<and> m < 0xE000" using True l l4 by (simp add: low_follows_def)
          then have low: "low_follows (backslash # CHR ''u'' # l @ (json_compact True v @ x))"
            using l(2) l4 by (simp add: low_follows_def)
          obtain t' where t': "t = utf8 (0x10000 + (n - 0xD800) * 1024 + (m - 0xDC00)) @ t'" "json_string v = Some (t', r)"
            using less.prems True by (auto simp: s \<open>c = backslash\<close> h json_string_u l l4)
          then have "json_string (json_compact True v @ x) = Some (t', json_compact False r @ x)"
            by (intro less.hyps) (simp_all add: s h l)
          then show ?thesis
            unfolding c lc json_string_u [OF h(2)] using True low t' l(2) l4 by simp
        next
          case False
          then obtain t' where t': "t = utf8 (if 0xD800 \<le> n \<and> n < 0xE000 then 0xFFFD else n) @ t'" "json_string u = Some (t', r)"
            using less.prems by (auto simp: s \<open>c = backslash\<close> h json_string_u split: if_splits)
          then have rec: "json_string (json_compact True u @ x) = Some (t', json_compact False r @ x)"
            by (intro less.hyps) (simp_all add: s h)
          have "low_follows u" if low: "low_follows (json_compact True u @ x)"
          proof -
            obtain l m v where "u = backslash # CHR ''u'' # l @ v" "hex4 l = Some m" "0xDC00 \<le> m \<and> m < 0xE000"
              using compact_not_low [OF t'(2) low] by blast
            then show ?thesis using hex4_Some [of l m] by (simp add: low_follows_def)
          qed
          then have no: "(0xD800 \<le> n \<and> n < 0xDC00 \<and> low_follows (json_compact True u @ x)) = False" using False by blast
          show ?thesis
            unfolding c json_string_u [OF h(2)] no if_False by (simp add: rec t')
        qed
      qed
    next
      case nobs: False
      note step = compact_in_string [OF noquote nobs, of s']
      obtain t' where t': "t = c # t'" "json_string s' = Some (t', r)"
        using less.prems printing by (auto simp: s json_string_plain noquote nobs)
      have rec: "json_string (json_compact True s' @ x) = Some (t', json_compact False r @ x)"
        using t'(2) by (intro less.hyps) (simp_all add: s)
      show ?thesis
      proof (cases "c = CHR ''<'' \<or> c = CHR ''>'' \<or> c = CHR ''&''")
        case True
        then show ?thesis
          using html_point [OF True] step rec t' by (simp add: s json_string_u_escape)
      next
        case nohtml: False
        show ?thesis
        proof (cases "separator c s'")
          case None
          then show ?thesis using nohtml step rec t' printing by (simp add: s json_string_plain noquote nobs)
        next
          case (Some n)
          obtain d where d: "utf8 n = [CHR 0xE2, CHR 0x80, d]" "d \<notin> {quote, backslash}" "c # s' = CHR 0xE2 # CHR 0x80 # d # drop 2 s'"
            using separator_Some [OF Some] by (auto simp: quote_def backslash_def)
          have "CHR 0xE2 \<notin> {quote, backslash}" "CHR 0x80 \<notin> {quote, backslash}" by (simp_all add: quote_def backslash_def)
          then obtain t'' where t'': "t = utf8 n @ t''" "json_string (drop 2 s') = Some (t'', r)"
            using json_string_utf8 [OF d(1) less.prems [unfolded s d(3)]] d(2) by blast
          then have "json_string (json_compact True (drop 2 s') @ x) = Some (t'', json_compact False r @ x)"
            by (intro less.hyps) (simp_all add: s)
          then show ?thesis
            using nohtml step Some t'' separator_Some [OF Some] by (simp add: s json_string_u_escape)
        qed
      qed
    qed
  qed
qed

section \<open>Numbers\<close>

text \<open>The grammar of a number: a sign, an integer without a leading zero, a fraction, an exponent.\<close>

definition number_token :: "string \<Rightarrow> bool" where
  "number_token tok \<longleftrightarrow> (\<exists>sgn ip fp ep. tok = sgn @ ip @ fp @ ep \<and> sgn \<in> {[], ''-''} \<and>
     ip \<noteq> [] \<and> list_all is_digit ip \<and> (hd ip = CHR ''0'' \<longrightarrow> ip = ''0'') \<and>
     (fp = [] \<or> (\<exists>fd. fp = dot # fd \<and> fd \<noteq> [] \<and> list_all is_digit fd)) \<and>
     (ep = [] \<or> (\<exists>e es ed. ep = e # es @ ed \<and> e \<in> {CHR ''e'', CHR ''E''} \<and> es \<in> {[], ''+'', ''-''} \<and>
        ed \<noteq> [] \<and> list_all is_digit ed)))"

lemma takeWhile_digits: "list_all is_digit a \<Longrightarrow> (r = [] \<or> \<not> is_digit (hd r)) \<Longrightarrow> takeWhile is_digit (a @ r) = a"
  by (cases r) (induction a; simp)+

lemma list_all_takeWhile: "list_all P (takeWhile P xs)"
  by (induction xs) simp_all

lemma takeWhile_split: "\<exists>r. s = takeWhile P s @ r"
  by (metis takeWhile_dropWhile_id)

lemma digits_not: "\<not> is_digit dot" "\<not> is_digit (CHR ''e'')" "\<not> is_digit (CHR ''E'')" "\<not> is_digit (CHR ''+'')" "\<not> is_digit (CHR ''-'')"
  "dot \<noteq> CHR ''e''" "dot \<noteq> CHR ''E''" "CHR ''e'' \<noteq> dot" "CHR ''E'' \<noteq> dot"
  by (auto simp: is_digit_nat dot_def)

lemma json_number_token:
  assumes "json_number s = Some (tok, r)"
  shows "number_token tok \<and> s = tok @ r"
proof -
  define sgn where "sgn = (if s \<noteq> [] \<and> hd s = CHR ''-'' then [CHR ''-''] else [])"
  define s1 where "s1 = drop (length sgn) s"
  define ip where "ip = (if s1 \<noteq> [] \<and> hd s1 = CHR ''0'' then [CHR ''0''] else takeWhile is_digit s1)"
  define s2 where "s2 = drop (length ip) s1"
  define fd where "fd = (if s2 \<noteq> [] \<and> hd s2 = dot then takeWhile is_digit (tl s2) else [])"
  define fp where "fp = (if s2 \<noteq> [] \<and> hd s2 = dot then dot # fd else [])"
  define s3 where "s3 = drop (length fp) s2"
  define ex where "ex \<longleftrightarrow> s3 \<noteq> [] \<and> (hd s3 = CHR ''e'' \<or> hd s3 = CHR ''E'')"
  define es where "es = (if ex \<and> tl s3 \<noteq> [] \<and> (hd (tl s3) = CHR ''+'' \<or> hd (tl s3) = CHR ''-'') then [hd (tl s3)] else [])"
  define ed where "ed = (if ex then takeWhile is_digit (drop (Suc (length es)) s3) else [])"
  define ep where "ep = (if ex then hd s3 # es @ ed else [])"
  have ok: "ip \<noteq> []" "fp \<noteq> [] \<Longrightarrow> fd \<noteq> []" "ex \<Longrightarrow> ed \<noteq> []" and tok: "tok = sgn @ ip @ fp @ ep" and r: "r = drop (length ep) s3"
    using assms
    unfolding json_number_def Let_def
    unfolding sgn_def [symmetric] s1_def [symmetric] ip_def [symmetric] s2_def [symmetric] fd_def [symmetric]
      fp_def [symmetric] s3_def [symmetric] ex_def [symmetric] es_def [symmetric] ed_def [symmetric] ep_def [symmetric]
    by (auto split: if_split_asm)
  have 1: "s = sgn @ s1" unfolding sgn_def s1_def by (cases s) auto
  have 2: "s1 = ip @ s2" unfolding s2_def
  proof (cases "s1 \<noteq> [] \<and> hd s1 = CHR ''0''")
    case True
    then show "s1 = ip @ drop (length ip) s1" unfolding ip_def by (cases s1) auto
  next
    case False
    then have "ip = takeWhile is_digit s1" unfolding ip_def by (rule if_not_P)
    then show "s1 = ip @ drop (length ip) s1" using takeWhile_split [of s1 is_digit] by (metis append_eq_conv_conj)
  qed
  have 3: "s2 = fp @ s3" unfolding s3_def
  proof (cases "s2 \<noteq> [] \<and> hd s2 = dot")
    case True
    then have "s2 = dot # tl s2" by (metis list.collapse)
    moreover have "fp = dot # takeWhile is_digit (tl s2)" using True by (simp add: fp_def fd_def)
    ultimately show "s2 = fp @ drop (length fp) s2" using takeWhile_split [of "tl s2" is_digit] by (metis append_Cons append_eq_conv_conj)
  next
    case False
    then have "fp = []" unfolding fp_def by (rule if_not_P)
    then show "s2 = fp @ drop (length fp) s2" by simp
  qed
  have 4: "s3 = ep @ r" unfolding r
  proof (cases ex)
    case True
    have "s3 = hd s3 # tl s3" using True by (metis ex_def list.collapse)
    moreover have "tl s3 = es @ drop (length es) (tl s3)" unfolding es_def by (cases "tl s3") auto
    moreover have "drop (Suc (length es)) s3 = drop (length es) (tl s3)" by (simp add: drop_Suc)
    moreover obtain w where "drop (Suc (length es)) s3 = ed @ w" using takeWhile_split True unfolding ed_def by metis
    ultimately have "s3 = ep @ w" unfolding ep_def using True by (metis append_Cons append.assoc)
    then show "s3 = ep @ drop (length ep) s3" by simp
  next
    case False
    then show "s3 = ep @ drop (length ep) s3" by (simp add: ep_def)
  qed
  have "number_token tok"
    unfolding number_token_def
  proof (intro exI conjI)
    show "sgn \<in> {[], ''-''}" by (simp add: sgn_def)
    show "list_all is_digit ip" by (simp add: ip_def list_all_takeWhile is_digit_nat)
    show "hd ip = CHR ''0'' \<longrightarrow> ip = ''0''"
    proof (cases "s1 \<noteq> [] \<and> hd s1 = CHR ''0''")
      case True
      then show ?thesis by (simp add: ip_def)
    next
      case False
      then have e: "ip = takeWhile is_digit s1" unfolding ip_def by (rule if_not_P)
      have "hd ip = hd s1" "s1 \<noteq> []" using ok(1) unfolding e by (cases s1; auto split: if_splits)+
      then show ?thesis using False by simp
    qed
    show "fp = [] \<or> (\<exists>fd. fp = dot # fd \<and> fd \<noteq> [] \<and> list_all is_digit fd)"
      using ok(2) by (auto simp: fp_def fd_def list_all_takeWhile)
    have "ex \<Longrightarrow> ep = hd s3 # es @ ed \<and> hd s3 \<in> {CHR ''e'', CHR ''E''} \<and> es \<in> {[], ''+'', ''-''} \<and> ed \<noteq> [] \<and> list_all is_digit ed"
      using ok(3) by (auto simp: ex_def es_def ed_def ep_def list_all_takeWhile)
    moreover have "\<not> ex \<Longrightarrow> ep = []" by (simp add: ep_def)
    ultimately show "ep = [] \<or> (\<exists>e es ed. ep = e # es @ ed \<and> e \<in> {CHR ''e'', CHR ''E''} \<and> es \<in> {[], ''+'', ''-''} \<and>
        ed \<noteq> [] \<and> list_all is_digit ed)" by blast
  qed (fact tok, fact ok(1))
  moreover have "s = tok @ r" using 1 2 3 4 tok by simp
  ultimately show ?thesis by blast
qed

lemma json_number_reads:
  assumes "number_token tok" "json_follow y"
  shows "json_number (tok @ y) = Some (tok, y)"
proof -
  obtain sgn ip fp ep where tok: "tok = sgn @ ip @ fp @ ep" and sgn: "sgn \<in> {[], ''-''}"
    and ip: "ip \<noteq> []" "list_all is_digit ip" "hd ip = CHR ''0'' \<longrightarrow> ip = ''0''"
    and fp: "fp = [] \<or> (\<exists>fd. fp = dot # fd \<and> fd \<noteq> [] \<and> list_all is_digit fd)"
    and ep: "ep = [] \<or> (\<exists>e es ed. ep = e # es @ ed \<and> e \<in> {CHR ''e'', CHR ''E''} \<and> es \<in> {[], ''+'', ''-''} \<and>
        ed \<noteq> [] \<and> list_all is_digit ed)"
    using assms(1) unfolding number_token_def by blast
  have y: "y = [] \<or> \<not> is_digit (hd y) \<and> hd y \<noteq> dot \<and> hd y \<noteq> CHR ''e'' \<and> hd y \<noteq> CHR ''E''"
    using assms(2) by (cases y) (auto dest: follow_not_number)
  let ?s3 = "ep @ y" and ?s2 = "fp @ ep @ y"
  have e3: "?s3 = [] \<or> \<not> is_digit (hd ?s3) \<and> hd ?s3 \<noteq> dot" using ep y by (cases ep) (auto simp: digits_not)
  have e2: "?s2 = [] \<or> \<not> is_digit (hd ?s2)" using fp e3 by (cases fp) (auto simp: digits_not)
  obtain d ds where d: "ip = d # ds" "is_digit d" using ip by (cases ip) simp_all
  have dm: "d \<noteq> CHR ''-''" using d(2) by auto
  have S: "(if tok @ y \<noteq> [] \<and> hd (tok @ y) = CHR ''-'' then [CHR ''-''] else []) = sgn"
    using sgn d dm by (auto simp: tok)
  have D1: "drop (length sgn) (tok @ y) = ip @ ?s2" by (simp add: tok)
  have I: "(if ip @ ?s2 \<noteq> [] \<and> hd (ip @ ?s2) = CHR ''0'' then [CHR ''0''] else takeWhile is_digit (ip @ ?s2)) = ip"
    using ip takeWhile_digits [OF ip(2) e2] d by auto
  have D2: "drop (length ip) (ip @ ?s2) = ?s2" by simp
  have FD: "(if ?s2 \<noteq> [] \<and> hd ?s2 = dot then takeWhile is_digit (tl ?s2) else []) = (if fp = [] then [] else tl fp)"
    using fp e3 takeWhile_digits [of "tl fp" ?s3] by auto
  have FP: "(if ?s2 \<noteq> [] \<and> hd ?s2 = dot then dot # (if fp = [] then [] else tl fp) else []) = fp"
    using fp e3 by auto
  have D3: "drop (length fp) ?s2 = ?s3" by simp
  have EX: "(?s3 \<noteq> [] \<and> (hd ?s3 = CHR ''e'' \<or> hd ?s3 = CHR ''E'')) = (ep \<noteq> [])"
    using ep y by auto
  show ?thesis
  proof (cases "ep = []")
    case True
    then show ?thesis
      unfolding json_number_def Let_def S D1 I D2 FD FP D3 EX using ip fp tok by auto
  next
    case False
    then obtain e es ed where e: "ep = e # es @ ed" "es \<in> {[], ''+'', ''-''}" "ed \<noteq> []" "list_all is_digit ed"
      using ep by blast
    obtain x xs where x: "ed = x # xs" "is_digit x" using e(3,4) by (cases ed) simp_all
    have xs: "x \<noteq> CHR ''+''" "x \<noteq> CHR ''-''" using x(2) digits_not by auto
    have ES: "(if ep \<noteq> [] \<and> tl ?s3 \<noteq> [] \<and> (hd (tl ?s3) = CHR ''+'' \<or> hd (tl ?s3) = CHR ''-'') then [hd (tl ?s3)] else []) = es"
      using e(1,2) x xs by auto
    have ED: "(if ep \<noteq> [] then takeWhile is_digit (drop (Suc (length es)) ?s3) else []) = ed"
      using e(1) takeWhile_digits [OF e(4), of y] y by auto
    have EP: "(if ep \<noteq> [] then hd ?s3 # es @ ed else []) = ep" using e(1) by simp
    show ?thesis
      unfolding json_number_def Let_def S D1 I D2 FD FP D3 EX ES ED EP using ip fp tok e(3) by auto
  qed
qed

lemma number_token_compact: "number_token tok \<Longrightarrow> json_compact False (tok @ r) = tok @ json_compact False r"
proof -
  have d: "is_digit c \<Longrightarrow> compact_char c" for c
    by (auto simp: compact_char_def is_digit_nat json_space_iff quote_def)
  have l: "compact_char dot" "compact_char (CHR ''e'')" "compact_char (CHR ''E'')" "compact_char (CHR ''+'')" "compact_char (CHR ''-'')"
    by (simp_all add: compact_char_def json_space_iff quote_def dot_def)
  assume "number_token tok"
  then have "list_all compact_char tok"
    unfolding number_token_def using d l by (auto simp: list_all_iff)
  then show ?thesis by (rule compact_plain)
qed

lemma number_token_head: "number_token tok \<Longrightarrow> \<exists>c s. tok = c # s \<and> (is_digit c \<or> c = CHR ''-'')"
proof -
  assume "number_token tok"
  then obtain sgn ip fp ep where "tok = sgn @ ip @ fp @ ep" "sgn \<in> {[], ''-''}" "ip \<noteq> []" "list_all is_digit ip"
    unfolding number_token_def by blast
  then show ?thesis by (cases ip) auto
qed

section \<open>Values\<close>

lemma skip_space_head: "skip_space s = c # r \<Longrightarrow> \<not> json_space c"
  unfolding skip_space_def using hd_dropWhile [of json_space s] by auto

lemma compact_skip: "json_compact False s = json_compact False (skip_space s)"
  by (induction s) (auto simp: skip_space_def)

lemma compact_head:
  assumes "skip_space s = c # r" "c \<notin> {CHR ''<'', CHR ''>'', CHR ''&'', CHR 0xE2}"
  shows "json_compact False s = c # json_compact (c = quote) r"
  using assms skip_space_head [OF assms(1)] by (subst compact_skip) (auto simp: special_ne)

lemma compact_punct:
  "skip_space s = CHR '','' # r \<Longrightarrow> json_compact False s = CHR '','' # json_compact False r"
  "skip_space s = CHR '':'' # r \<Longrightarrow> json_compact False s = CHR '':'' # json_compact False r"
  "skip_space s = CHR '']'' # r \<Longrightarrow> json_compact False s = CHR '']'' # json_compact False r"
  "skip_space s = CHR ''}'' # r \<Longrightarrow> json_compact False s = CHR ''}'' # json_compact False r"
  "skip_space s = CHR ''['' # r \<Longrightarrow> json_compact False s = CHR ''['' # json_compact False r"
  "skip_space s = CHR ''{'' # r \<Longrightarrow> json_compact False s = CHR ''{'' # json_compact False r"
  "skip_space s = quote # r \<Longrightarrow> json_compact False s = quote # json_compact True r"
  using compact_head [of s] by (simp_all add: special_ne)

lemma compact_lits:
  "json_compact False (''null'' @ r) = ''null'' @ json_compact False r"
  "json_compact False (''true'' @ r) = ''true'' @ json_compact False r"
  "json_compact False (''false'' @ r) = ''false'' @ json_compact False r"
  by (simp_all only: compact_plain [OF compact_char_lits(7)] compact_plain [OF compact_char_lits(8)]
      compact_plain [OF compact_char_lits(9)])

lemma json_value_token:
  assumes "number_token tok" "json_follow y"
  shows "json_value (Suc n) (tok @ y) = Some (JNum tok, y)"
proof -
  obtain c s where c: "tok = c # s" "is_digit c \<or> c = CHR ''-''" using number_token_head [OF assms(1)] by blast
  then have "json_number (c # s @ y) = Some (c # s, y)" using json_number_reads [OF assms] by simp
  moreover have "\<not> json_space c" "c \<noteq> quote" "c \<noteq> CHR ''{''" "c \<noteq> CHR ''[''" "c \<noteq> CHR ''n''" "c \<noteq> CHR ''t''" "c \<noteq> CHR ''f''"
    using c(2) by (auto simp: is_digit_nat quote_def json_space_iff)
  ultimately show ?thesis using c(1) by simp
qed

text \<open>The first byte of a value, and the shapes a value can have.\<close>

lemma json_value_cases:
  assumes "json_value (Suc n) s = Some (v, r)"
  obtains (string) w t where "skip_space s = quote # w" "json_string w = Some (t, r)" "v = JStr t"
  | (no_members) w where "skip_space s = CHR ''{'' # w" "skip_space w = CHR ''}'' # r" "v = JObj []"
  | (members) w ms u where "skip_space s = CHR ''{'' # w" "skip_space w = u" "u \<noteq> []" "hd u \<noteq> CHR ''}''"
      "json_members n w = Some (ms, r)" "v = JObj ms"
  | (no_elems) w where "skip_space s = CHR ''['' # w" "skip_space w = CHR '']'' # r" "v = JArr []"
  | (elems) w vs u where "skip_space s = CHR ''['' # w" "skip_space w = u" "u \<noteq> []" "hd u \<noteq> CHR '']''"
      "json_elems n w = Some (vs, r)" "v = JArr vs"
  | (null) "skip_space s = ''null'' @ r" "v = JNull"
  | (true) "skip_space s = ''true'' @ r" "v = JBool True"
  | (false) "skip_space s = ''false'' @ r" "v = JBool False"
  | (number) tok where "skip_space s = tok @ r" "number_token tok" "v = JNum tok"
proof -
  obtain c w where c: "skip_space s = c # w" using assms by (cases "skip_space s") simp_all
  consider "c = quote" | "c = CHR ''{''" | "c = CHR ''[''" | "c \<noteq> quote" "c \<noteq> CHR ''{''" "c \<noteq> CHR ''[''" by blast
  then show thesis
  proof cases
    case 1
    then show thesis using assms c by (auto intro: string)
  next
    case 2
    then obtain d u where d: "skip_space w = d # u" using assms c by (cases "skip_space w") simp_all
    then show thesis using assms c 2 no_members members
      by (cases "d = CHR ''}''") (fastforce split: option.splits)+
  next
    case 3
    then obtain d u where d: "skip_space w = d # u" using assms c by (cases "skip_space w") simp_all
    then show thesis using assms c 3 no_elems elems
      by (cases "d = CHR '']''") (fastforce split: option.splits)+
  next
    case 4
    have pre: "has_prefix t p \<Longrightarrow> \<exists>u. t = p @ u" for t p :: string by (auto simp: prefix_def)
    show thesis
    proof (cases "has_prefix (c # w) ''null''")
      case True
      then obtain u where "c # w = ''null'' @ u" using pre by blast
      then show thesis using assms c null by simp
    next
      case n0: False
      show thesis
      proof (cases "has_prefix (c # w) ''true''")
        case True
        then obtain u where "c # w = ''true'' @ u" using pre by blast
        then show thesis using assms c true by simp
      next
        case t0: False
        show thesis
        proof (cases "has_prefix (c # w) ''false''")
          case True
          then obtain u where "c # w = ''false'' @ u" using pre by blast
          then show thesis using assms c false by simp
        next
          case False
          then obtain tok where "json_number (c # w) = Some (tok, r)" "v = JNum tok"
            using assms c 4 n0 t0 by auto
          then show thesis using json_number_token number c by metis
        qed
      qed
    qed
  qed
qed

lemma value_head:
  assumes "json_value n s = Some x"
  shows "\<exists>c r. skip_space s = c # r \<and> c \<notin> {CHR ''<'', CHR ''>'', CHR ''&'', CHR 0xE2} \<and>
    json_compact False s = c # json_compact (c = quote) r"
proof -
  obtain v r where x: "x = (v, r)" by (cases x)
  obtain m where n: "n = Suc m" using assms by (cases n) simp_all
  have "\<exists>c r. skip_space s = c # r \<and> c \<notin> {CHR ''<'', CHR ''>'', CHR ''&'', CHR 0xE2}"
  proof (cases rule: json_value_cases [OF assms [unfolded n x]])
    case (9 tok)
    then obtain c t where "tok = c # t" "is_digit c \<or> c = CHR ''-''" using number_token_head by blast
    then show ?thesis using 9 by (auto simp: is_digit_nat)
  qed (auto simp: special_ne)
  then show ?thesis using compact_head by blast
qed

lemma json_value_skip: "json_value n s = json_value n (skip_space s)"
  by (cases n) (simp_all add: skip_space_def)

theorem json_compact_reads:
  "(json_value n s = Some (v, r) \<longrightarrow> json_follow (json_compact False r @ x) \<longrightarrow>
      json_value n (json_compact False s @ x) = Some (v, json_compact False r @ x)) \<and>
   (json_elems n s = Some (vs, r) \<longrightarrow> json_elems n (json_compact False s @ x) = Some (vs, json_compact False r @ x)) \<and>
   (json_members n s = Some (ms, r) \<longrightarrow> json_members n (json_compact False s @ x) = Some (ms, json_compact False r @ x))"
proof (induction n arbitrary: s v vs ms r)
  case (Suc n)
  note IHv = Suc.IH [THEN conjunct1, rule_format] and IHe = Suc.IH [THEN conjunct2, THEN conjunct1, rule_format]
    and IHm = Suc.IH [THEN conjunct2, THEN conjunct2, rule_format]
  have comma: "json_follow (d # y)" if "d \<in> {CHR '','', CHR '']'', CHR ''}''}" for d y
    using that by (auto simp: json_follow_def)
  show ?case
  proof (intro conjI impI)
    assume val: "json_value (Suc n) s = Some (v, r)" and follow: "json_follow (json_compact False r @ x)"
    show "json_value (Suc n) (json_compact False s @ x) = Some (v, json_compact False r @ x)"
    proof (cases rule: json_value_cases [OF val])
      case (1 w t)
      then show ?thesis using json_string_compact [OF 1(2), of x] by (simp add: compact_punct(7))
    next
      case (2 w)
      then show ?thesis by (simp add: compact_punct)
    next
      case (3 w ms u)
      then obtain y where "skip_space w = quote # y"
        by (cases n; cases u) (auto split: if_splits)
      then show ?thesis using 3 IHm [OF 3(5)] by (simp add: compact_punct)
    next
      case (4 w)
      then show ?thesis by (simp add: compact_punct)
    next
      case (5 w vs u)
      then obtain m z where "n = Suc m" "json_value m w = Some z" by (cases n) (auto split: option.splits)
      then obtain c y where "skip_space w = c # y" "json_compact False w = c # json_compact (c = quote) y"
        using value_head [of m w z] by blast
      moreover from this have "\<not> json_space c" "c \<noteq> CHR '']''" using skip_space_head 5 by auto
      ultimately show ?thesis using 5 IHe [OF 5(5)] by (simp add: compact_punct)
    next
      case 6
      then show ?thesis using json_value_scalar(2) by (subst compact_skip) (simp only: compact_lits append_assoc)
    next
      case 7
      then show ?thesis using json_value_scalar(3) by (subst compact_skip) (simp only: compact_lits append_assoc)
    next
      case 8
      then show ?thesis using json_value_scalar(4) by (subst compact_skip) (simp only: compact_lits append_assoc)
    next
      case (9 tok)
      then show ?thesis using json_value_token [OF 9(2) follow]
        by (subst compact_skip) (simp only: number_token_compact append_assoc)
    qed
  next
    assume "json_elems (Suc n) s = Some (vs, r)"
    then obtain v r1 d r2 where v: "json_value n s = Some (v, r1)" "skip_space r1 = d # r2"
      and d: "d = CHR '','' \<and> (\<exists>ws. json_elems n r2 = Some (ws, r) \<and> vs = v # ws) \<or> d = CHR '']'' \<and> vs = [v] \<and> r = r2"
      by (auto split: option.splits list.splits if_splits)
    have c: "json_compact False r1 = d # json_compact False r2" using d v(2) by (metis compact_punct(1,3))
    have "json_value n (json_compact False s @ x) = Some (v, d # json_compact False r2 @ x)"
      using IHv [OF v(1)] comma d c by auto
    then show "json_elems (Suc n) (json_compact False s @ x) = Some (vs, json_compact False r @ x)"
      using d IHe by auto
  next
    assume "json_members (Suc n) s = Some (ms, r)"
    then obtain q k r1 r2 v r3 e r4 where q: "skip_space s = quote # q" "json_string q = Some (k, r1)" "skip_space r1 = CHR '':'' # r2"
      and v: "json_value n r2 = Some (v, r3)" "skip_space r3 = e # r4"
      and e: "e = CHR '','' \<and> (\<exists>ws. json_members n r4 = Some (ws, r) \<and> ms = (k, v) # ws) \<or> e = CHR ''}'' \<and> ms = [(k, v)] \<and> r = r4"
      by (auto split: option.splits list.splits if_splits)
    have c: "json_compact False r3 = e # json_compact False r4" using e v(2) by (metis compact_punct(1,4))
    have "json_value n (json_compact False r2 @ x) = Some (v, e # json_compact False r4 @ x)"
      using IHv [OF v(1)] comma e c by auto
    moreover have "json_string (json_compact True q @ x) = Some (k, CHR '':'' # json_compact False r2 @ x)"
      using json_string_compact [OF q(2), of x] compact_punct(2) [OF q(3)] by simp
    moreover have "json_compact False s = quote # json_compact True q" by (rule compact_punct(7) [OF q(1)])
    ultimately show "json_members (Suc n) (json_compact False s @ x) = Some (ms, json_compact False r @ x)"
      using e IHm by auto
  qed
qed simp

section \<open>The fuel is enough\<close>

lemma json_string_shorter: "json_string s = Some (t, r) \<Longrightarrow> length r < length s"
proof (induction "length s" arbitrary: s t rule: less_induct)
  case less
  then obtain c s' where s: "s = c # s'" by (cases s) simp_all
  have rec: "length r < length s" if "json_string u = Some (t', r)" "length u < length s" for u t'
    using less.hyps [OF that(2,1)] that(2) by simp
  consider "c = quote" | "c = backslash" | "c \<noteq> quote" "c \<noteq> backslash" by blast
  then show ?case
  proof cases
    case 1
    then have "r = s'" using less.prems by (simp add: s json_string_quote)
    then show ?thesis by (simp add: s)
  next
    case 2
    from json_string_backslash [OF less.prems [unfolded s 2]] show ?thesis
    proof (elim disjE exE conjE)
      fix e n u assume e: "s' = e # u" "e \<noteq> CHR ''u''" "simple_escape e = Some n"
      then obtain t' where "json_string u = Some (t', r)" using less.prems by (auto simp: s 2 json_string_simple)
      then show ?thesis by (rule rec) (simp add: s e)
    next
      fix h n u assume h: "s' = CHR ''u'' # h @ u" "hex4 h = Some n"
      obtain t' u' where "json_string u' = Some (t', r)" "u' = u \<or> u' = drop 6 u"
        using less.prems by (auto simp: s 2 h json_string_u split: if_splits)
      then show ?thesis by (intro rec) (auto simp: s h)
    qed
  next
    case 3
    then have "\<not> (of_char c :: int) < 32" using less.prems by (auto simp: s json_string.simps(2))
    then obtain t' where "json_string s' = Some (t', r)" using less.prems 3 by (auto simp: s json_string_plain)
    then show ?thesis by (rule rec) (simp add: s)
  qed
qed

lemma skip_space_shorter: "skip_space s = u \<Longrightarrow> length u \<le> length s"
  unfolding skip_space_def using length_dropWhile_le by blast

theorem json_fuel:
  "(json_value n s = Some (v, r) \<longrightarrow> length r < length s \<and>
      (\<forall>m. 2 * (length s - length r) \<le> m \<longrightarrow> json_value m s = Some (v, r))) \<and>
   (json_elems n s = Some (vs, r) \<longrightarrow> length r < length s \<and>
      (\<forall>m. 2 * (length s - length r) \<le> m \<longrightarrow> json_elems m s = Some (vs, r))) \<and>
   (json_members n s = Some (ms, r) \<longrightarrow> length r < length s \<and>
      (\<forall>m. 2 * (length s - length r) \<le> m \<longrightarrow> json_members m s = Some (ms, r)))"
proof (induction n arbitrary: s v vs ms r)
  case (Suc n)
  note IHv = Suc.IH [THEN conjunct1, rule_format] and IHe = Suc.IH [THEN conjunct2, THEN conjunct1, rule_format]
    and IHm = Suc.IH [THEN conjunct2, THEN conjunct2, rule_format]
  have step: "length r < length s \<and> (\<forall>m. 2 * (length s - length r) \<le> m \<longrightarrow> P m)"
    if "length r < length s" "\<And>m. 2 * (length s - length r) \<le> Suc m \<Longrightarrow> P (Suc m)" for r s :: string and P
  proof (intro conjI allI impI)
    fix m assume "2 * (length s - length r) \<le> m"
    then show "P m" using that by (cases m) simp_all
  qed (fact that(1))
  show ?case
  proof (intro conjI; rule impI)
    assume val: "json_value (Suc n) s = Some (v, r)"
    show "length r < length s \<and> (\<forall>m. 2 * (length s - length r) \<le> m \<longrightarrow> json_value m s = Some (v, r))"
    proof (cases rule: json_value_cases [OF val])
      case (1 w t)
      then show ?thesis using skip_space_shorter [OF 1(1)] json_string_shorter [OF 1(2)] by (intro step) simp_all
    next
      case (2 w)
      then show ?thesis using skip_space_shorter [OF 2(1)] skip_space_shorter [OF 2(2)] by (intro step) simp_all
    next
      case (3 w ms u)
      have l: "length r < length w" "Suc (length w) \<le> length s" using IHm [OF 3(5)] skip_space_shorter [OF 3(1)] by simp_all
      show ?thesis
      proof (rule step)
        fix m assume "2 * (length s - length r) \<le> Suc m"
        then have "2 * (length w - length r) \<le> m" using l by simp
        then have "json_members m w = Some (ms, r)" using IHm [OF 3(5)] by blast
        then show "json_value (Suc m) s = Some (v, r)" using 3 by (cases u) simp_all
      qed (use l in simp)
    next
      case (4 w)
      then show ?thesis using skip_space_shorter [OF 4(1)] skip_space_shorter [OF 4(2)] by (intro step) simp_all
    next
      case (5 w vs u)
      have l: "length r < length w" "Suc (length w) \<le> length s" using IHe [OF 5(5)] skip_space_shorter [OF 5(1)] by simp_all
      show ?thesis
      proof (rule step)
        fix m assume "2 * (length s - length r) \<le> Suc m"
        then have "2 * (length w - length r) \<le> m" using l by simp
        then have "json_elems m w = Some (vs, r)" using IHe [OF 5(5)] by blast
        then show "json_value (Suc m) s = Some (v, r)" using 5 by (cases u) simp_all
      qed (use l in simp)
    next
      case 6
      then show ?thesis using skip_space_shorter [OF 6(1)] val by (intro step) simp_all
    next
      case 7
      then show ?thesis using skip_space_shorter [OF 7(1)] val by (intro step) simp_all
    next
      case 8
      then show ?thesis using skip_space_shorter [OF 8(1)] val by (intro step) simp_all
    next
      case (9 tok)
      obtain c t where c: "tok = c # t" "is_digit c \<or> c = CHR ''-''" using number_token_head [OF 9(2)] by blast
      then have "c \<noteq> quote" "c \<noteq> CHR ''{''" "c \<noteq> CHR ''[''" by (auto simp: is_digit_nat quote_def)
      then show ?thesis using skip_space_shorter [OF 9(1)] val 9 c by (intro step) simp_all
    qed
  next
    assume "json_elems (Suc n) s = Some (vs, r)"
    then obtain v r1 d r2 where v: "json_value n s = Some (v, r1)" "skip_space r1 = d # r2"
      and d: "d = CHR '','' \<and> (\<exists>ws. json_elems n r2 = Some (ws, r) \<and> vs = v # ws) \<or> d = CHR '']'' \<and> vs = [v] \<and> r = r2"
      by (auto split: option.splits list.splits if_splits)
    have "length r \<le> length r2" using d
    proof (elim disjE conjE exE)
      fix ws assume "json_elems n r2 = Some (ws, r)"
      from IHe [OF this] show ?thesis by simp
    qed simp
    then have l: "length r1 < length s" "Suc (length r2) \<le> length r1" "length r \<le> length r2"
      using IHv [OF v(1)] skip_space_shorter [OF v(2)] by simp_all
    show "length r < length s \<and> (\<forall>m. 2 * (length s - length r) \<le> m \<longrightarrow> json_elems m s = Some (vs, r))"
    proof (rule step)
      fix m assume m: "2 * (length s - length r) \<le> Suc m"
      then have "2 * (length s - length r1) \<le> m" using l by simp
      then have "json_value m s = Some (v, r1)" using IHv [OF v(1)] by blast
      moreover have "2 * (length r2 - length r) \<le> m" using m l by simp
      then have "json_elems m r2 = Some (ws, r)" if "json_elems n r2 = Some (ws, r)" for ws using IHe [OF that] by blast
      ultimately show "json_elems (Suc m) s = Some (vs, r)" using v(2) d by auto
    qed (use l in simp)
  next
    assume "json_members (Suc n) s = Some (ms, r)"
    then obtain q k r1 r2 v r3 e r4 where q: "skip_space s = quote # q" "json_string q = Some (k, r1)" "skip_space r1 = CHR '':'' # r2"
      and v: "json_value n r2 = Some (v, r3)" "skip_space r3 = e # r4"
      and e: "e = CHR '','' \<and> (\<exists>ws. json_members n r4 = Some (ws, r) \<and> ms = (k, v) # ws) \<or> e = CHR ''}'' \<and> ms = [(k, v)] \<and> r = r4"
      by (auto split: option.splits list.splits if_splits)
    have "length r \<le> length r4" using e
    proof (elim disjE conjE exE)
      fix ws assume "json_members n r4 = Some (ws, r)"
      from IHm [OF this] show ?thesis by simp
    qed simp
    then have l: "Suc (length q) \<le> length s" "length r1 < length q" "Suc (length r2) \<le> length r1" "length r3 < length r2"
      "Suc (length r4) \<le> length r3" "length r \<le> length r4"
      using IHv [OF v(1)] skip_space_shorter [OF v(2)] skip_space_shorter [OF q(1)] json_string_shorter [OF q(2)]
        skip_space_shorter [OF q(3)] by simp_all
    show "length r < length s \<and> (\<forall>m. 2 * (length s - length r) \<le> m \<longrightarrow> json_members m s = Some (ms, r))"
    proof (rule step)
      fix m assume m: "2 * (length s - length r) \<le> Suc m"
      then have "2 * (length r2 - length r3) \<le> m" using l by simp
      then have "json_value m r2 = Some (v, r3)" using IHv [OF v(1)] by blast
      moreover have "2 * (length r4 - length r) \<le> m" using m l by simp
      then have "json_members m r4 = Some (ws, r)" if "json_members n r4 = Some (ws, r)" for ws using IHm [OF that] by blast
      ultimately show "json_members (Suc m) s = Some (ms, r)" using q v(2) e by auto
    qed (use l in simp)
  qed
qed simp

section \<open>Documents put together from texts\<close>

text \<open>A text that stands for a value wherever a value can stand.\<close>

definition reads :: "string \<Rightarrow> json \<Rightarrow> bool" where
  "reads text' v \<longleftrightarrow>
     (\<forall>x n. json_follow x \<longrightarrow> 2 * length text' \<le> n \<longrightarrow> json_value n (text' @ x) = Some (v, x))"

lemma reads_compact:
  assumes "json_parse s = Some v" shows "reads (json_compact False s) v"
proof -
  obtain n r where n: "json_value n s = Some (v, r)" "skip_space r = []"
    using assms by (auto simp: json_parse_def simp del: json_value.simps split: option.splits if_splits)
  then have r: "json_compact False r = []" by (subst compact_skip) simp
  show ?thesis
    unfolding reads_def
  proof (intro allI impI)
    fix x m assume x: "json_follow x" and m: "2 * length (json_compact False s) \<le> m"
    have "json_value n (json_compact False s @ x) = Some (v, x)"
      using json_compact_reads [THEN conjunct1, rule_format, OF n(1), of x] x r by simp
    from json_fuel [THEN conjunct1, THEN mp, THEN conjunct2, rule_format, OF this, of m] m
    show "json_value m (json_compact False s @ x) = Some (v, x)" by simp
  qed
qed

lemma reads_encode: "json_ok v \<Longrightarrow> reads (json_encode v) v"
  using json_need_length [of v] by (auto simp: reads_def intro!: json_value_roundtrip)

lemma reads_members:
  assumes "kts \<noteq> []" "\<forall>m\<in>set kts. reads (fst (snd m)) (snd (snd m))"
    and "sum_list (map (\<lambda>m. 2 * length (fst (snd m)) + 2) kts) \<le> n"
  shows "json_members n (join_with '','' (map (\<lambda>m. json_quote (fst m) @ '':'' @ fst (snd m)) kts) @ CHR ''}'' # r) =
    Some (map (\<lambda>m. (fst m, snd (snd m))) kts, r)"
  using assms
proof (induction kts arbitrary: n)
  case (Cons kt kts)
  obtain k t v where kt: "kt = (k, t, v)" by (cases kt)
  obtain m where n: "n = Suc m" using Cons.prems(3) by (cases n) simp_all
  then have m: "2 * length t \<le> m" "sum_list (map (\<lambda>m. 2 * length (fst (snd m)) + 2) kts) \<le> m"
    using Cons.prems(3) kt by simp_all
  have v: "json_value m (t @ x) = Some (v, x)" if "json_follow x" for x
    using Cons.prems(2) m(1) that by (simp add: kt reads_def)
  show ?case
  proof (cases "kts = []")
    case True
    then show ?thesis
      using v [of "CHR ''}'' # r"] n by (simp add: kt json_follow_def json_quote_def json_string_roundtrip)
  next
    case False
    let ?t = "join_with '','' (map (\<lambda>m. json_quote (fst m) @ '':'' @ fst (snd m)) kts) @ CHR ''}'' # r"
    have "json_members m ?t = Some (map (\<lambda>m. (fst m, snd (snd m))) kts, r)"
      by (rule Cons.IH [OF False _ m(2)]) (use Cons.prems(2) in simp)
    then show ?thesis
      using False v [of "CHR '','' # ?t"] n
      by (simp add: kt json_follow_def join_with_Cons json_quote_def json_string_roundtrip)
  qed
qed simp

theorem json_parse_members:
  assumes "kts \<noteq> []" "\<forall>m\<in>set kts. reads (fst (snd m)) (snd (snd m))"
  shows "json_parse (''{'' @ join_with '','' (map (\<lambda>m. json_quote (fst m) @ '':'' @ fst (snd m)) kts) @ ''}'') =
    Some (JObj (map (\<lambda>m. (fst m, snd (snd m))) kts))"
proof -
  let ?ts = "map (\<lambda>m. json_quote (fst m) @ '':'' @ fst (snd m)) kts"
  let ?d = "''{'' @ join_with '','' ?ts @ ''}''"
  have "sum_list (map (\<lambda>m. 2 * length (fst (snd m)) + 2) kts) \<le> sum_list (map (\<lambda>x. 2 * Suc (length x)) ?ts)"
    unfolding map_map by (rule sum_list_mono) simp
  also have "\<dots> = 2 * sum_list (map (\<lambda>x. Suc (length x)) ?ts)" by (rule sum_list_const_mult)
  also have "\<dots> = 2 * Suc (length (join_with '','' ?ts))" using join_with_length [of ?ts] assms(1) by simp
  also have "\<dots> \<le> 2 * length ?d + 1" by simp
  finally have ms: "json_members (2 * length ?d + 1) (join_with '','' ?ts @ CHR ''}'' # []) =
      Some (map (\<lambda>m. (fst m, snd (snd m))) kts, [])"
    by (rule reads_members [OF assms])
  define N where "N = 2 * length ?d + 1"
  obtain q where q: "join_with '','' ?ts @ ''}'' = quote # q"
    using assms(1) by (cases kts) (simp_all add: join_with_Cons json_quote_def)
  then have d: "?d = CHR ''{'' # quote # q" and ms: "json_members N (quote # q) = Some (map (\<lambda>m. (fst m, snd (snd m))) kts, [])"
    using ms unfolding N_def by simp_all
  have "json_value (Suc N) (CHR ''{'' # quote # q) =
      map_option (\<lambda>(ms, r''). (JObj ms, r'')) (json_members N (quote # q))" by simp
  then have "json_value (Suc N) ?d = Some (JObj (map (\<lambda>m. (fst m, snd (snd m))) kts), [])"
    unfolding d ms by simp
  moreover have "2 * length ?d + 2 = Suc N" by (simp add: N_def)
  ultimately show ?thesis unfolding json_parse_def by (simp only: option.case prod.case) (simp add: skip_space_def)
qed


end
