(* ===== verification/Apps_Adapter.thy ===== *)
theory Apps_Adapter
  imports Admin_Server Json_Compact
begin

text \<open>
  The Apps and Bots adapter (\<^verbatim>\<open>internal/wrap/apps.go\<close>): what an app may do in a meeting (broadcast into a
  room) and read (a roster, the active rooms), the envelope of a broadcast, and the mounts. The shared
  platform is not part of the repository: its scope names, product name, registry, dispatcher and handler
  constructors are parameters; the SFU is the narrow seam the source declares.
\<close>

section \<open>The platform and the SFU\<close>

record ('reg, 'scopes, 'disp) platform_lib =
  pl_scope_apps_read :: string
  pl_scope_apps_write :: string
  pl_product_meet :: string
  pl_new_scope_set :: "string list \<Rightarrow> 'scopes"
  pl_new_dispatcher :: "'reg \<Rightarrow> string \<Rightarrow> 'disp"

definition MeetAppScopeSet :: "('reg, 'scopes, 'disp) platform_lib \<Rightarrow> 'scopes" where
  "MeetAppScopeSet L = pl_new_scope_set L [pl_scope_apps_read L, pl_scope_apps_write L]"

definition AppActionBroadcast :: string where "AppActionBroadcast = ''room.broadcast''"
definition AppReadParticipants :: string where "AppReadParticipants = ''participants''"
definition AppReadRooms :: string where "AppReadRooms = ''rooms''"
definition appDataTopic :: string where "appDataTopic = ''vulos.apps''"

text \<open>Of an installed app the adapter uses the id and the name.\<close>

record app =
  app_id :: string
  app_name :: string

record 's meet_sfu =
  sfu_list_room_ids :: "'s \<Rightarrow> (room_service_error + string list) \<times> 's"
  sfu_list_participants :: "string \<Rightarrow> 's \<Rightarrow> (room_service_error + participant_meta list) \<times> 's"
  sfu_send_data :: "string \<Rightarrow> string \<Rightarrow> string \<Rightarrow> 's \<Rightarrow> room_service_error option \<times> 's"

record 's meet_adapter =
  ma_sfu :: "'s meet_sfu"
  ma_timeout :: duration

definition NewMeetAdapter :: "'s meet_sfu \<Rightarrow> 's meet_adapter" where
  "NewMeetAdapter sfu = \<lparr>ma_sfu = sfu, ma_timeout = 5 * second\<rparr>"

definition app_Product :: "('reg, 'scopes, 'disp) platform_lib \<Rightarrow> 's meet_adapter \<Rightarrow> string" where
  "app_Product L a = pl_product_meet L"

definition RequiredScope :: "('reg, 'scopes, 'disp) platform_lib \<Rightarrow> string \<Rightarrow> string" where
  "RequiredScope L actionOrKind =
     (if actionOrKind = AppReadParticipants \<or> actionOrKind = AppReadRooms then pl_scope_apps_read L
      else pl_scope_apps_write L)"

text \<open>Whether access is allowed, and whether the target exists.\<close>

definition CanAccessTarget :: "'s meet_adapter \<Rightarrow> app \<Rightarrow> string \<Rightarrow> 's \<Rightarrow> (bool \<times> bool) \<times> 's" where
  "CanAccessTarget a app target s =
     (case sfu_list_room_ids (ma_sfu a) s of
        (Inl _, s) \<Rightarrow> ((False, False), s)
      | (Inr ids, s) \<Rightarrow> (if list_ex (\<lambda>i. i = target) ids then (True, True) else (False, False), s))"

section \<open>Acting and reading\<close>

record app_broadcast =
  ab_type :: string
  ab_app_id :: string
  ab_app :: string
  ab_room :: string
  ab_payload :: string
  ab_ts :: int

text \<open>\<open>json.Marshal\<close> of the envelope; the payload is a raw message, left out when empty.\<close>

definition json_member :: "string \<Rightarrow> string \<Rightarrow> string" where
  "json_member k text' = json_quote k @ '':'' @ text'"

definition marshal_broadcast :: "app_broadcast \<Rightarrow> string" where
  "marshal_broadcast b =
     ''{'' @ join_with '',''
       ([json_member ''type'' (json_quote (ab_type b)), json_member ''app_id'' (json_quote (ab_app_id b)),
         json_member ''app'' (json_quote (ab_app b)), json_member ''room'' (json_quote (ab_room b))] @
        (if ab_payload b = [] then [] else [json_member ''payload'' (json_compact False (ab_payload b))]) @
        [json_member ''ts'' (show_int (ab_ts b))]) @ ''}''"

record action_request =
  ar_action :: string
  ar_target :: string
  ar_payload :: string

record read_request =
  rq_kind :: string
  rq_target :: string

datatype apps_error =
    AppsTargetRequired
  | AppsPayloadInvalid
  | AppsSFUError room_service_error
  | AppsUnsupportedAction string
  | AppsUnsupportedKind string

datatype act_result = Delivered string
datatype read_result = Roster string "participant_meta list" | RoomCatalog "string list"

text \<open>
  The emitter gets the event, its body, and which other apps are told; it acts on the same state as the
  SFU. \<open>None\<close> is a nil emitter.
\<close>

type_synonym 's emitter = "(string \<Rightarrow> (string \<times> string) list \<Rightarrow> (app \<Rightarrow> bool) \<Rightarrow> 's \<Rightarrow> 's) option"

definition app_Act ::
  "time \<Rightarrow> 's meet_adapter \<Rightarrow> app \<Rightarrow> action_request \<Rightarrow> 's emitter \<Rightarrow> 's \<Rightarrow> (apps_error + act_result) \<times> 's" where
  "app_Act now a app req emit s =
     (if ar_action req = AppActionBroadcast \<or> ar_action req = ''incoming_webhook'' then
        let room = trim_space (ar_target req) in
        if room = [] then (Inl AppsTargetRequired, s)
        else if ar_payload req \<noteq> [] \<and> json_parse (ar_payload req) = None then (Inl AppsPayloadInvalid, s)
        else
          let env = \<lparr>ab_type = ''app_event'', ab_app_id = app_id app, ab_app = app_name app, ab_room = room,
                     ab_payload = ar_payload req, ab_ts = time_unix now\<rparr>
          in case sfu_send_data (ma_sfu a) room (marshal_broadcast env) appDataTopic s of
               (Some err, s) \<Rightarrow> (Inl (AppsSFUError err), s)
             | (None, s) \<Rightarrow>
                 (Inr (Delivered room),
                  case emit of None \<Rightarrow> s
                  | Some f \<Rightarrow> f ''app_event'' [(''room'', room), (''app_id'', app_id app), (''app'', app_name app)]
                      (\<lambda>other. app_id other \<noteq> app_id app) s)
      else (Inl (AppsUnsupportedAction (ar_action req)), s))"

definition app_Read :: "'s meet_adapter \<Rightarrow> app \<Rightarrow> read_request \<Rightarrow> 's \<Rightarrow> (apps_error + read_result) \<times> 's" where
  "app_Read a app req s =
     (if rq_kind req = AppReadParticipants then
        let room = trim_space (rq_target req) in
        if room = [] then (Inl AppsTargetRequired, s)
        else case sfu_list_participants (ma_sfu a) room s of
          (Inl err, s) \<Rightarrow> (Inl (AppsSFUError err), s)
        | (Inr parts, s) \<Rightarrow> (Inr (Roster room parts), s)
      else if rq_kind req = AppReadRooms then
        case sfu_list_room_ids (ma_sfu a) s of
          (Inl err, s) \<Rightarrow> (Inl (AppsSFUError err), s)
        | (Inr ids, s) \<Rightarrow> (Inr (RoomCatalog ids), s)
      else (Inl (AppsUnsupportedKind (rq_kind req)), s))"

section \<open>The MCP description\<close>

definition dq :: string where "dq = [CHR 0x22]"

definition broadcastInputSchema :: string where
  "broadcastInputSchema =
     join_with [CHR 0x0A]
       [''{'',
        ''  '' @ dq @ ''type'' @ dq @ '': '' @ dq @ ''object'' @ dq @ '','',
        ''  '' @ dq @ ''properties'' @ dq @ '': {'',
        ''    '' @ dq @ ''payload'' @ dq @ '': {'',
        ''      '' @ dq @ ''type'' @ dq @ '': '' @ dq @ ''object'' @ dq @ '','',
        ''      '' @ dq @ ''description'' @ dq @ '': '' @ dq @
          ''Opaque app event body delivered to every participant in the room over the LiveKit data channel (topic vulos.apps). Must be valid JSON.'' @ dq,
        ''    }'', ''  }'', ''}'']"

record tool_spec =
  ts_action :: string
  ts_description :: string
  ts_accepts_target :: bool
  ts_input_schema :: string

record resource_spec =
  rs_kind :: string
  rs_name :: string
  rs_description :: string
  rs_accepts_target :: bool

definition MCPTools :: "tool_spec list" where
  "MCPTools =
     [\<lparr>ts_action = AppActionBroadcast,
       ts_description = ''Broadcast an app event into a live meeting room. Delivered to every participant over the room data channel and fanned out as a platform app_event to other subscribed apps. Set `target` to the full room id.'',
       ts_accepts_target = True, ts_input_schema = broadcastInputSchema\<rparr>]"

definition MCPResources :: "resource_spec list" where
  "MCPResources =
     [\<lparr>rs_kind = AppReadParticipants, rs_name = ''Room participants'',
       rs_description = ''Roster (metadata only, never media) for a single live room. Address it with the full room id as the target segment.'',
       rs_accepts_target = True\<rparr>,
      \<lparr>rs_kind = AppReadRooms, rs_name = ''Active rooms'',
       rs_description = ''Catalog of room ids the SFU currently holds. No target.'', rs_accepts_target = False\<rparr>]"

section \<open>The mounts\<close>

definition appsBearerEquals :: "http_request \<Rightarrow> string \<Rightarrow> bool" where
  "appsBearerEquals r token =
     (let h = header_get r ''Authorization''
      in if \<not> has_prefix h ''Bearer '' then False else constantTimeEqualString (drop (length ''Bearer '') h) token)"

text \<open>The account, whether it is privileged, and whether the request is authenticated.\<close>

definition apps_admin :: "string \<Rightarrow> http_request \<Rightarrow> string \<times> bool \<times> bool" where
  "apps_admin adminToken r =
     (if adminToken = [] \<or> \<not> appsBearerEquals r adminToken then ([], False, False) else (''admin'', True, True))"

record ('reg, 's) apps_config =
  apc_registry :: "'reg option"
  apc_sfu :: "'s meet_sfu option"
  apc_admin_token :: string
  apc_base_path :: string

record ('reg, 's, 'disp) mount_config =
  mc_adapter :: "'s meet_adapter"
  mc_registry :: 'reg
  mc_dispatcher :: 'disp
  mc_admin :: "http_request \<Rightarrow> string \<times> bool \<times> bool"
  mc_base_path :: string

datatype 'e mount_error = MountNoRegistry | MountNoSFU | MountFailed 'e

definition NewAppsHandler ::
  "('reg, 'scopes, 'disp) platform_lib \<Rightarrow> (('reg, 's, 'disp) mount_config \<Rightarrow> 'e + 'h) \<Rightarrow> ('reg, 's) apps_config \<Rightarrow>
     'e mount_error + 'h" where
  "NewAppsHandler L newHandler cfg =
     (case apc_registry cfg of None \<Rightarrow> Inl MountNoRegistry
      | Some reg \<Rightarrow> (case apc_sfu cfg of None \<Rightarrow> Inl MountNoSFU
      | Some sfu \<Rightarrow>
          (case newHandler \<lparr>mc_adapter = NewMeetAdapter sfu, mc_registry = reg,
              mc_dispatcher = pl_new_dispatcher L reg (pl_product_meet L), mc_admin = apps_admin (apc_admin_token cfg),
              mc_base_path = apc_base_path cfg\<rparr> of
             Inl e \<Rightarrow> Inl (MountFailed e) | Inr h \<Rightarrow> Inr h)))"

record ('reg, 's) mcp_config =
  mcc_registry :: "'reg option"
  mcc_sfu :: "'s meet_sfu option"
  mcc_base_path :: string

record ('reg, 's, 'emit) mcp_mount =
  mm_adapter :: "'s meet_adapter"
  mm_registry :: 'reg
  mm_emit :: 'emit
  mm_base_path :: string

definition NewMCPHandler ::
  "('reg, 'scopes, 'disp) platform_lib \<Rightarrow> ('disp \<Rightarrow> 'emit) \<Rightarrow> (('reg, 's, 'emit) mcp_mount \<Rightarrow> 'e + 'h) \<Rightarrow>
     ('reg, 's) mcp_config \<Rightarrow> 'e mount_error + 'h" where
  "NewMCPHandler L emitFunc newHandler cfg =
     (case mcc_registry cfg of None \<Rightarrow> Inl MountNoRegistry
      | Some reg \<Rightarrow> (case mcc_sfu cfg of None \<Rightarrow> Inl MountNoSFU
      | Some sfu \<Rightarrow>
          (case newHandler \<lparr>mm_adapter = NewMeetAdapter sfu, mm_registry = reg,
              mm_emit = emitFunc (pl_new_dispatcher L reg (pl_product_meet L)), mm_base_path = mcc_base_path cfg\<rparr> of
             Inl e \<Rightarrow> Inl (MountFailed e) | Inr h \<Rightarrow> Inr h)))"

section \<open>The envelope\<close>

definition broadcast_json :: "app_broadcast \<Rightarrow> json option \<Rightarrow> json" where
  "broadcast_json b payload =
     JObj ([(''type'', JStr (ab_type b)), (''app_id'', JStr (ab_app_id b)), (''app'', JStr (ab_app b)),
         (''room'', JStr (ab_room b))] @ (case payload of None \<Rightarrow> [] | Some v \<Rightarrow> [(''payload'', v)]) @
       [(''ts'', JNum (show_int (ab_ts b)))])"

lemma json_parse_Nil [simp]: "json_parse [] = None"
  by code_simp

lemma marshal_broadcast_reads:
  assumes "case payload of None \<Rightarrow> ab_payload b = [] | Some v \<Rightarrow> json_parse (ab_payload b) = Some v"
  shows "json_parse (marshal_broadcast b) = Some (broadcast_json b payload)"
proof -
  define kts where "kts = [(''type'', json_quote (ab_type b), JStr (ab_type b)), (''app_id'', json_quote (ab_app_id b), JStr (ab_app_id b)),
      (''app'', json_quote (ab_app b), JStr (ab_app b)), (''room'', json_quote (ab_room b), JStr (ab_room b))] @
    (case payload of None \<Rightarrow> [] | Some v \<Rightarrow> [(''payload'', json_compact False (ab_payload b), v)]) @
    [(''ts'', show_int (ab_ts b), JNum (show_int (ab_ts b)))]"
  have "reads (json_quote t) (JStr t)" "reads (show_int i) (JNum (show_int i))" for t i
    using reads_encode [of "JStr t"] reads_encode [of "JNum (show_int i)"] by auto
  then have reads: "\<forall>m\<in>set kts. reads (fst (snd m)) (snd (snd m))"
    using assms by (auto simp: kts_def reads_compact split: option.splits)
  have ne: "kts \<noteq> []" by (simp add: kts_def)
  have text': "marshal_broadcast b = ''{'' @ join_with '','' (map (\<lambda>m. json_quote (fst m) @ '':'' @ fst (snd m)) kts) @ ''}''"
    using assms by (auto simp: marshal_broadcast_def json_member_def kts_def split: option.splits)
  have "broadcast_json b payload = JObj (map (\<lambda>m. (fst m, snd (snd m))) kts)"
    by (simp add: broadcast_json_def kts_def split: option.split)
  then show ?thesis unfolding text' using json_parse_members [OF ne reads] by simp
qed

section \<open>Properties\<close>

text \<open>
  C31. A broadcast arrives as it was sent: the packet's bytes parse to the event type, the app's own id and
  name, the room, the app's payload and the time, whatever characters names, room and payload hold; none of
  them can add or forge a member. The payload is any JSON text, with any white space, escapes and numbers:
  what it parses to, alone, is what it parses to inside the packet, although it is compacted and its HTML
  characters are escaped on the way. (Names are taken to be valid UTF-8; \<^verbatim>\<open>encoding/json\<close> replaces other bytes.)
\<close>

theorem broadcast_envelope_roundtrip:
  assumes "case payload of None \<Rightarrow> ab_payload b = [] | Some v \<Rightarrow> json_parse (ab_payload b) = Some v"
  shows "json_parse (marshal_broadcast b) = Some
    (JObj ([(''type'', JStr (ab_type b)), (''app_id'', JStr (ab_app_id b)), (''app'', JStr (ab_app b)),
        (''room'', JStr (ab_room b))] @ (case payload of None \<Rightarrow> [] | Some v \<Rightarrow> [(''payload'', v)]) @
      [(''ts'', JNum (show_int (ab_ts b)))]))"
  using marshal_broadcast_reads [OF assms] by (simp add: broadcast_json_def)

theorem broadcast_envelope_roundtrip_witness:
  "json_parse (marshal_broadcast \<lparr>ab_type = ''app_event'', ab_app_id = ''a'', ab_app = [CHR 0x22], ab_room = ''acme:x'',
      ab_payload = ''{ \"k\" : [1.5e3, \"<b>\"] }'', ab_ts = 7\<rparr>) =
   Some (JObj [(''type'', JStr ''app_event''), (''app_id'', JStr ''a''), (''app'', JStr [CHR 0x22]), (''room'', JStr ''acme:x''),
     (''payload'', JObj [(''k'', JArr [JNum ''1.5e3'', JStr ''<b>''])]), (''ts'', JNum (show_int 7))])"
proof -
  have "json_parse ''{ \"k\" : [1.5e3, \"<b>\"] }'' = Some (JObj [(''k'', JArr [JNum ''1.5e3'', JStr ''<b>''])])" by code_simp
  then show ?thesis
    using broadcast_envelope_roundtrip [where payload = "Some (JObj [(''k'', JArr [JNum ''1.5e3'', JStr ''<b>''])])"
        and b = "\<lparr>ab_type = ''app_event'', ab_app_id = ''a'', ab_app = [CHR 0x22], ab_room = ''acme:x'',
          ab_payload = ''{ \"k\" : [1.5e3, \"<b>\"] }'', ab_ts = 7\<rparr>"]
    by simp
qed

text \<open>Any SFU, with a record of every packet it is given, in order; an emitter does not touch that record.\<close>

definition log_packets :: "'s meet_sfu \<Rightarrow> ('s \<times> (string \<times> string \<times> string) list) meet_sfu" where
  "log_packets sfu =
     \<lparr>sfu_list_room_ids = (\<lambda>(s, l). let (a, s') = sfu_list_room_ids sfu s in (a, (s', l))),
      sfu_list_participants = (\<lambda>room (s, l). let (a, s') = sfu_list_participants sfu room s in (a, (s', l))),
      sfu_send_data = (\<lambda>room data topic (s, l). let (a, s') = sfu_send_data sfu room data topic s
        in (a, (s', l @ [(room, data, topic)])))\<rparr>"

definition log_emitter :: "'s emitter \<Rightarrow> ('s \<times> 'l) emitter" where
  "log_emitter emit = map_option (\<lambda>f ev body others (s, l). (f ev body others s, l)) emit"

lemma log_emitter_keeps: "log_emitter emit = Some f \<Longrightarrow> snd (f ev body others x) = snd x"
  by (cases x) (auto simp: log_emitter_def)

lemma log_packets_simps [simp]:
  "sfu_list_room_ids (log_packets sfu) s = (fst (sfu_list_room_ids sfu (fst s)), (snd (sfu_list_room_ids sfu (fst s)), snd s))"
  "sfu_list_participants (log_packets sfu) room s =
     (fst (sfu_list_participants sfu room (fst s)), (snd (sfu_list_participants sfu room (fst s)), snd s))"
  "sfu_send_data (log_packets sfu) room data topic s =
     (fst (sfu_send_data sfu room data topic (fst s)), (snd (sfu_send_data sfu room data topic (fst s)), snd s @ [(room, data, topic)]))"
  by (cases s; simp add: log_packets_def case_prod_beta)+

text \<open>
  C33. An app acts in the room it was checked for: let the access check have admitted a target without
  surrounding white space, on any SFU in any state. The target is then one of the rooms the SFU listed. At
  whatever later time and state the app acts on it, a broadcast with an empty payload or one that is JSON sends
  exactly one packet, to that target, on the apps' topic, with the acting app's own id and name, that room and
  that payload, and the answer is the SFU's; any other action sends nothing and is an error. Reading sends
  nothing. A target that differs from its trimmed form is checked under the one name and acted on under the
  other (\<open>check_and_act_disagree\<close>), which is why it is excluded.
\<close>

theorem app_acts_in_checked_room:
  assumes "fst (CanAccessTarget (NewMeetAdapter (log_packets sfu)) app (ar_target req) s0) = (True, True)"
    and "trim_space (ar_target req) = ar_target req"
  shows "let (res, s') = app_Act now (NewMeetAdapter (log_packets sfu)) app req (log_emitter emit) s;
      packet = marshal_broadcast \<lparr>ab_type = ''app_event'', ab_app_id = app_id app, ab_app = app_name app,
        ab_room = ar_target req, ab_payload = ar_payload req, ab_ts = time_unix now\<rparr>
    in (\<exists>ids. fst (sfu_list_room_ids sfu (fst s0)) = Inr ids \<and> ar_target req \<in> set ids) \<and>
    (if ar_action req \<in> {''room.broadcast'', ''incoming_webhook''} \<and> ar_target req \<noteq> [] \<and>
        (ar_payload req = [] \<or> json_parse (ar_payload req) \<noteq> None)
     then snd s' = snd s @ [(ar_target req, packet, ''vulos.apps'')] \<and>
       res = (case fst (sfu_send_data sfu (ar_target req) packet ''vulos.apps'' (fst s)) of
         None \<Rightarrow> Inr (Delivered (ar_target req)) | Some err \<Rightarrow> Inl (AppsSFUError err))
     else s' = s \<and> isl res) \<and>
    snd (snd (app_Read (NewMeetAdapter (log_packets sfu)) app rd s)) = snd s"
proof -
  have listed: "\<exists>ids. fst (sfu_list_room_ids sfu (fst s0)) = Inr ids \<and> ar_target req \<in> set ids"
    using assms(1) by (auto simp: CanAccessTarget_def NewMeetAdapter_def list_ex_iff split: sum.splits if_splits)
  have read: "snd (snd (app_Read (NewMeetAdapter (log_packets sfu)) app rd s)) = snd s"
    by (simp add: app_Read_def NewMeetAdapter_def Let_def split: sum.split)
  define packet where "packet = marshal_broadcast \<lparr>ab_type = ''app_event'', ab_app_id = app_id app,
    ab_app = app_name app, ab_room = ar_target req, ab_payload = ar_payload req, ab_ts = time_unix now\<rparr>"
  have act: "if ar_action req \<in> {''room.broadcast'', ''incoming_webhook''} \<and> ar_target req \<noteq> [] \<and>
        (ar_payload req = [] \<or> json_parse (ar_payload req) \<noteq> None)
     then snd s' = snd s @ [(ar_target req, packet, ''vulos.apps'')] \<and>
       res = (case fst (sfu_send_data sfu (ar_target req) packet ''vulos.apps'' (fst s)) of
         None \<Rightarrow> Inr (Delivered (ar_target req)) | Some err \<Rightarrow> Inl (AppsSFUError err))
     else s' = s \<and> isl res"
    if "app_Act now (NewMeetAdapter (log_packets sfu)) app req (log_emitter emit) s = (res, s')" for res s'
    using that assms(2)
    by (auto simp: app_Act_def NewMeetAdapter_def AppActionBroadcast_def appDataTopic_def Let_def log_emitter_keeps
        simp flip: packet_def split: option.splits if_splits)
  show ?thesis
    using act [OF prod.collapse [symmetric]] listed read unfolding Let_def case_prod_beta packet_def by blast
qed

text \<open>An SFU with fixed rooms and no other behaviour, for examples.\<close>

definition packet_sfu :: "string list \<Rightarrow> (string \<times> string \<times> string) list meet_sfu" where
  "packet_sfu ids =
     \<lparr>sfu_list_room_ids = (\<lambda>s. (Inr ids, s)), sfu_list_participants = (\<lambda>room s. (Inr [], s)),
      sfu_send_data = (\<lambda>room data topic s. (None, s @ [(room, data, topic)]))\<rparr>"

theorem app_acts_in_checked_room_witness:
  "\<exists>packet. snd (snd (app_Act 0 (NewMeetAdapter (log_packets (packet_sfu [''acme:x'']))) \<lparr>app_id = ''a'', app_name = ''A''\<rparr>
      \<lparr>ar_action = ''room.broadcast'', ar_target = ''acme:x'', ar_payload = []\<rparr> (log_emitter None) ([], []))) =
    [(''acme:x'', packet, ''vulos.apps'')]"
proof -
  let ?req = "\<lparr>ar_action = ''room.broadcast'', ar_target = ''acme:x'', ar_payload = []\<rparr>"
  have "trim_space (ar_target ?req) = ar_target ?req" by code_simp
  moreover have "fst (CanAccessTarget (NewMeetAdapter (log_packets (packet_sfu [''acme:x''])))
      \<lparr>app_id = ''a'', app_name = ''A''\<rparr> (ar_target ?req) ([], [])) = (True, True)"
    by (simp add: CanAccessTarget_def NewMeetAdapter_def packet_sfu_def)
  ultimately show ?thesis
    using app_acts_in_checked_room [of "packet_sfu [''acme:x'']" "\<lparr>app_id = ''a'', app_name = ''A''\<rparr>" ?req "([], [])" 0
        None "([], [])" "\<lparr>rq_kind = AppReadRooms, rq_target = []\<rparr>"]
    by (simp add: Let_def case_prod_beta)
qed

text \<open>
  The check and the action disagree on a target with surrounding white space: the check is about the
  room of exactly that name, the action about the trimmed one.
\<close>

lemma check_and_act_disagree:
  "fst (CanAccessTarget (NewMeetAdapter (packet_sfu [''acme:x ''])) app ''acme:x '' []) = (True, True) \<and>
   (\<exists>d. snd (app_Act now (NewMeetAdapter (packet_sfu [''acme:x ''])) app
     \<lparr>ar_action = AppActionBroadcast, ar_target = ''acme:x '', ar_payload = []\<rparr> None []) = [(''acme:x'', d, ''vulos.apps'')])"
proof -
  have "trim_space ''acme:x '' = ''acme:x''" by code_simp
  then show ?thesis
    by (simp add: CanAccessTarget_def app_Act_def Let_def packet_sfu_def NewMeetAdapter_def appDataTopic_def)
qed

text \<open>
  The management API of the apps accepts no request that the admin surface would refuse: its bearer is
  the admin token, compared as it stands in the header.
\<close>

theorem apps_admin_needs_admin_token:
  "fst (snd (apps_admin (as_admin_token s) r)) \<longleftrightarrow>
     as_admin_token s \<noteq> [] \<and> header_get r ''Authorization'' = ''Bearer '' @ as_admin_token s"
  by (auto simp: apps_admin_def appsBearerEquals_def Let_def prefix_def)

lemma apps_admin_implies_admin:
  assumes "fst (snd (apps_admin (as_admin_token s) r))" "trim_space (as_admin_token s) = as_admin_token s"
  shows "checkAdminToken s r"
  using assms by (auto simp: apps_admin_def appsBearerEquals_def adminBearerRaw_def Let_def split: if_splits)

end
