(* ===== verification/Signal_Gate.thy ===== *)
theory Signal_Gate
  imports Token_Validator Rate_Limiter Room_Service Go_Mux
begin

text \<open>
  The signaling gate (\<^verbatim>\<open>internal/wrap/signal.go\<close>): the public entry that rate-limits, validates the
  token, applies the concurrent-room ceiling and forwards to the SFU. The reverse proxy's upstream is
  a parameter, a function from the forwarded request and its own state to a response or a transport
  error; the room lister is any \<open>ListRoomIDs\<close>. The lemmas give the exact conditions under which a
  request reaches the SFU and show that the ceiling holds when joins are serialised.
\<close>

section \<open>The gate\<close>

text \<open>The room cap is configured when the lister is present.\<close>

record 'r room_cap =
  rc_max :: int
  rc_lister :: "('r \<Rightarrow> (room_service_error + string list) \<times> 'r) option"

record 'r signal_gate =
  sg_validator :: validator
  sg_upstream_host :: string
  sg_room_cap :: "'r room_cap"

record ('r, 'u) gate_state =
  gs_limiter :: "rate_limiter option"
  gs_metrics :: "metrics option"
  gs_rooms :: 'r
  gs_upstream :: 'u

type_synonym 'u upstream = "http_request \<Rightarrow> 'u \<Rightarrow> http_response option \<times> 'u"

datatype gate_config_error = NilValidator | EmptyUpstreamAddr | BadUpstreamURL

text \<open>\<open>url.Parse("http://" + host)\<close> is the argument \<open>parse_host\<close>: the parsed URL's host.\<close>

definition NewSignalGate ::
  "(string \<Rightarrow> string option) \<Rightarrow> validator option \<Rightarrow> string \<Rightarrow> gate_config_error + 'r signal_gate" where
  "NewSignalGate parse_host v upstreamAddr =
     (case v of
        None \<Rightarrow> Inl NilValidator
      | Some v \<Rightarrow>
          if upstreamAddr = [] then Inl EmptyUpstreamAddr
          else case parse_host (''http://'' @ hostFromSignalingAddr upstreamAddr) of
            None \<Rightarrow> Inl BadUpstreamURL
          | Some host \<Rightarrow> Inr \<lparr>sg_validator = v, sg_upstream_host = host,
                            sg_room_cap = \<lparr>rc_max = 0, rc_lister = None\<rparr>\<rparr>)"

definition SetRoomCap ::
  "('r \<Rightarrow> (room_service_error + string list) \<times> 'r) option \<Rightarrow> int \<Rightarrow> 'r signal_gate \<Rightarrow> 'r signal_gate" where
  "SetRoomCap lister max' g = g\<lparr>sg_room_cap := \<lparr>rc_max = max', rc_lister = lister\<rparr>\<rparr>"

definition gate_SetRateLimiter :: "rate_limiter option \<Rightarrow> ('r, 'u) gate_state \<Rightarrow> ('r, 'u) gate_state" where
  "gate_SetRateLimiter l s = s\<lparr>gs_limiter := l\<rparr>"

definition extractTokenFromRequest :: "http_request \<Rightarrow> string" where
  "extractTokenFromRequest r =
     (let q = query_get r ''access_token'' in
      if q \<noteq> [] then q
      else let h = header_get r ''Authorization'' in
        if has_prefix h ''Bearer '' then trim_space (drop (length ''Bearer '') h) else [])"

text \<open>The director of the reverse proxy: the authorization header is removed from what is forwarded.\<close>

definition gate_director :: "http_request \<Rightarrow> http_request" where
  "gate_director r = r\<lparr>req_header := remove_key ''Authorization'' (req_header r)\<rparr>"

definition gate_proxy :: "'u upstream \<Rightarrow> http_request \<Rightarrow> 'u \<Rightarrow> http_response \<times> 'u" where
  "gate_proxy up r u =
     (case up (gate_director r) u of
        (None, u') \<Rightarrow> (http_error ''bad gateway'' StatusBadGateway, u')
      | (Some rsp, u') \<Rightarrow> (rsp, u'))"

definition enforceRoomCap ::
  "'r room_cap \<Rightarrow> string \<Rightarrow> metrics option \<Rightarrow> 'r \<Rightarrow> bool \<times> metrics option \<times> 'r" where
  "enforceRoomCap rc fullRoom m rooms =
     (case rc_lister rc of
        None \<Rightarrow> (True, m, rooms)
      | Some lister \<Rightarrow>
          if rc_max rc \<le> 0 then (True, m, rooms)
          else case lister rooms of
            (Inl err, rooms') \<Rightarrow> (False, ObserveRoomAdmission RoomAdmissionListError m, rooms')
          | (Inr active, rooms') \<Rightarrow>
              if fullRoom \<in> set active
              then (True, ObserveRoomAdmission RoomAdmissionExisting m, rooms')
              else if rc_max rc \<le> int (length active)
              then (False, ObserveRoomAdmission RoomAdmissionRejectedCapacity m, rooms')
              else (True, ObserveRoomAdmission RoomAdmissionNewRoom m, rooms'))"

fun token_error_response :: "token_error \<Rightarrow> http_response" where
  "token_error_response ErrTokenWrongTenant = http_error ''forbidden'' StatusForbidden"
| "token_error_response _ = http_error ''unauthorized'' StatusUnauthorized"

text \<open>The clock readings of one request: the limiter's, the signature check's, the lifetime clamp's.\<close>

record clock_readings =
  clk_allow :: time
  clk_verify :: time
  clk_ttl :: time

definition gate_rate_limit ::
  "bool \<Rightarrow> time \<Rightarrow> http_request \<Rightarrow> rate_limiter option \<Rightarrow> bool \<times> rate_limiter option" where
  "gate_rate_limit trustXFF now r rl =
     (case rl of
        None \<Rightarrow> (True, None)
      | Some l \<Rightarrow> (let (ok, l') = Allow now (clientIP r trustXFF) l in (ok, Some l')))"

definition handleRTC ::
  "'tok token_lib \<Rightarrow> 'r signal_gate \<Rightarrow> 'u upstream \<Rightarrow> bool \<Rightarrow> clock_readings \<Rightarrow> http_request \<Rightarrow>
     ('r, 'u) gate_state \<Rightarrow> http_response \<times> ('r, 'u) gate_state" where
  "handleRTC L g up trustXFF clk r s =
     (let (ok, rl) = gate_rate_limit trustXFF (clk_allow clk) r (gs_limiter s);
          s = s\<lparr>gs_limiter := rl\<rparr>
      in if \<not> ok then (http_error ''rate limit exceeded'' StatusTooManyRequests, s)
         else
           let raw = extractTokenFromRequest r
           in if raw = [] then (http_error ''unauthorized'' StatusUnauthorized, s)
              else case Validate L (sg_validator g) (clk_verify clk) (clk_ttl clk) raw (gs_metrics s) of
                (Inl err, m) \<Rightarrow> (token_error_response err, s\<lparr>gs_metrics := m\<rparr>)
              | (Inr vt, m) \<Rightarrow>
                  (case enforceRoomCap (sg_room_cap g) (vt_full_room vt) m (gs_rooms s) of
                     (admit, m', rooms) \<Rightarrow>
                       let s = s\<lparr>gs_metrics := m', gs_rooms := rooms\<rparr>
                       in if \<not> admit then (http_error ''room capacity reached'' StatusServiceUnavailable, s)
                          else let (rsp, u) = gate_proxy up r (gs_upstream s)
                               in (rsp, s\<lparr>gs_upstream := u\<rparr>)))"

text \<open>
  The routes of the public listener: \<open>/rtc\<close>, the egress subtree when a proxy is mounted, the sibling
  handler (404 when there is none).
\<close>

definition EgressTwirpPathPrefix :: string where
  "EgressTwirpPathPrefix = ''/twirp/livekit.Egress/''"

definition gate_patterns :: "bool \<Rightarrow> mux_pattern list" where
  "gate_patterns egress =
     \<lparr>pat_method = None, pat_segments = [Lit ''rtc''], pat_subtree = False\<rparr> #
     (if egress then [\<lparr>pat_method = None, pat_segments = [Lit ''twirp'', Lit ''livekit.Egress''],
                      pat_subtree = True\<rparr>] else []) @
     [\<lparr>pat_method = None, pat_segments = [], pat_subtree = True\<rparr>]"

type_synonym 's handler = "http_request \<Rightarrow> 's \<Rightarrow> http_response \<times> 's"

definition not_found_handler :: "'s handler" where
  "not_found_handler r s = (http_error ''404 page not found'' StatusNotFound, s)"

definition gate_handler :: "'s handler \<Rightarrow> 's handler option \<Rightarrow> 's handler option \<Rightarrow> 's handler" where
  "gate_handler rtc sibling egress r s =
     (let sib = (case sibling of Some h \<Rightarrow> h | None \<Rightarrow> not_found_handler);
          hs = rtc # (case egress of Some h \<Rightarrow> [h] | None \<Rightarrow> []) @ [sib]
      in case mux_find (gate_patterns (egress \<noteq> None)) (req_method r) (req_path r) of
           MuxHandler i _ \<Rightarrow> (hs ! i) r s
         | other \<Rightarrow> (mux_fallback other, s))"

section \<open>Admission\<close>

lemma gate_director_untouched [simp]:
  "req_query (gate_director r) = req_query r" "req_path (gate_director r) = req_path r"
  "req_body (gate_director r) = req_body r" "header_get (gate_director r) ''Authorization'' = []"
  by (simp_all add: gate_director_def values_get_def)

text \<open>The three gates in front of the proxy, as one predicate on the state a request finds.\<close>

definition gate_passes ::
  "'tok token_lib \<Rightarrow> 'r signal_gate \<Rightarrow> bool \<Rightarrow> clock_readings \<Rightarrow> http_request \<Rightarrow> ('r, 'u) gate_state \<Rightarrow> bool" where
  "gate_passes L g trustXFF clk r s \<longleftrightarrow>
     fst (gate_rate_limit trustXFF (clk_allow clk) r (gs_limiter s)) \<and>
     extractTokenFromRequest r \<noteq> [] \<and>
     (case Validate L (sg_validator g) (clk_verify clk) (clk_ttl clk) (extractTokenFromRequest r) (gs_metrics s) of
        (Inl _, _) \<Rightarrow> False
      | (Inr vt, m) \<Rightarrow> fst (enforceRoomCap (sg_room_cap g) (vt_full_room vt) m (gs_rooms s)))"

lemma token_error_status: "rsp_status (token_error_response e) = (if e = ErrTokenWrongTenant then 403 else 401)"
  by (cases e) (simp_all add: status_defs)

lemma handleRTC_pass:
  assumes "gate_passes L g trustXFF clk r s"
  shows "fst (handleRTC L g up trustXFF clk r s) = fst (gate_proxy up r (gs_upstream s)) \<and>
    gs_upstream (snd (handleRTC L g up trustXFF clk r s)) = snd (gate_proxy up r (gs_upstream s))"
  using assms
  by (auto simp: gate_passes_def handleRTC_def case_prod_beta Let_def split: sum.splits prod.splits)

lemma handleRTC_block:
  assumes "\<not> gate_passes L g trustXFF clk r s"
  shows "rsp_status (fst (handleRTC L g up trustXFF clk r s)) \<in> {401, 403, 429, 503} \<and>
    gs_upstream (snd (handleRTC L g up trustXFF clk r s)) = gs_upstream s"
  using assms
  by (auto simp: gate_passes_def handleRTC_def case_prod_beta Let_def token_error_status status_defs
      split: sum.splits prod.splits)

section \<open>The room ceiling\<close>

lemma enforceRoomCap_admits_iff:
  assumes "rc_lister rc = Some lister" "0 < rc_max rc" "lister rooms = (Inr active, rooms')"
  shows "fst (enforceRoomCap rc room m rooms) \<longleftrightarrow> room \<in> set active \<or> int (length active) < rc_max rc"
  using assms by (auto simp: enforceRoomCap_def)

text \<open>Serialised joins over the in-memory room service: an admitted join creates its room.\<close>

definition memory_lister :: "memory_rooms \<Rightarrow> (room_service_error + string list) \<times> memory_rooms" where
  "memory_lister m = (Inr (mem_ListRoomIDs m), m)"

definition join_room :: "int \<Rightarrow> string \<Rightarrow> memory_rooms \<Rightarrow> bool \<times> memory_rooms" where
  "join_room max' room rooms =
     (let (ok, _, rooms') = enforceRoomCap \<lparr>rc_max = max', rc_lister = Some memory_lister\<rparr> room None rooms
      in (ok, if ok then CreateRoom room rooms' else rooms'))"

lemma join_room_eq:
  "0 < max' \<Longrightarrow> join_room max' room rooms =
     (if room \<in> keys rooms then (True, rooms)
      else if max' \<le> int (length rooms) then (False, rooms) else (True, put room 0 rooms))"
  by (auto simp: join_room_def enforceRoomCap_def memory_lister_def mem_ListRoomIDs_def CreateRoom_def
      map_of_eq_None_iff)

lemma join_room_bound:
  "0 < max' \<Longrightarrow> go_map rooms \<Longrightarrow> int (length rooms) \<le> max' \<Longrightarrow>
     go_map (snd (join_room max' room rooms)) \<and> int (length (snd (join_room max' room rooms))) \<le> max'"
  by (auto simp: join_room_eq length_put)

section \<open>Properties\<close>

text \<open>The first and the last gate, read off the bucket of the client and the rooms that are active.\<close>

definition rate_admits :: "bool \<Rightarrow> time \<Rightarrow> http_request \<Rightarrow> rate_limiter option \<Rightarrow> bool" where
  "rate_admits trustXFF now r rl \<longleftrightarrow>
     (case rl of None \<Rightarrow> True | Some l \<Rightarrow> 1 \<le> tb_tokens (bucket_at l now (clientIP r trustXFF)))"

definition ceiling_admits :: "'r room_cap \<Rightarrow> string \<Rightarrow> 'r \<Rightarrow> bool" where
  "ceiling_admits rc room rooms \<longleftrightarrow>
     (case rc_lister rc of None \<Rightarrow> True
      | Some lister \<Rightarrow> rc_max rc \<le> 0 \<or>
          (case fst (lister rooms) of Inl _ \<Rightarrow> False
           | Inr active \<Rightarrow> room \<in> set active \<or> int (length active) < rc_max rc))"

lemma gate_rate_limit_admits: "fst (gate_rate_limit trustXFF now r rl) \<longleftrightarrow> rate_admits trustXFF now r rl"
  by (simp add: gate_rate_limit_def rate_admits_def case_prod_beta Allow_decision split: option.split)

lemma enforceRoomCap_admits: "fst (enforceRoomCap rc room m rooms) \<longleftrightarrow> ceiling_admits rc room rooms"
  by (auto simp: enforceRoomCap_def ceiling_admits_def split: option.split sum.split prod.split)

text \<open>
  C26. The gates decide in their order, each with its own status, and nothing else reaches the SFU. A client
  without a token in its bucket is answered 429; then a request without a credential 401; then one whose
  token does not validate 403 when it is for another tenant's room and 401 otherwise; then one whose room
  is not active while the active rooms fill the ceiling, or cannot be listed, 503; in each of these cases
  the SFU's state is untouched. Every other request is forwarded and its answer is the SFU's.
\<close>

theorem rtc_forwards_exactly_when_admitted:
  "let (rsp, s') = handleRTC L g up trustXFF clk r s;
       refused = (\<lambda>status. rsp_status rsp = status \<and> gs_upstream s' = gs_upstream s)
   in if \<not> rate_admits trustXFF (clk_allow clk) r (gs_limiter s) then refused 429
      else if extractTokenFromRequest r = [] then refused 401
      else case validate_token L (sg_validator g) (clk_verify clk) (clk_ttl clk) (extractTokenFromRequest r) of
        Inl e \<Rightarrow> refused (if e = ErrTokenWrongTenant then 403 else 401)
      | Inr vt \<Rightarrow>
          if \<not> ceiling_admits (sg_room_cap g) (vt_full_room vt) (gs_rooms s) then refused 503
          else (rsp, gs_upstream s') = gate_proxy up r (gs_upstream s)"
  by (auto simp: handleRTC_def Validate_def case_prod_beta Let_def token_error_status status_defs
      gate_rate_limit_admits enforceRoomCap_admits split: sum.split)

text \<open>
  C4. A request whose token names a tenant other than the owner of its room never reaches the SFU:
  if the SFU's state changes, the token validates to the tenant that owns the granted room.
\<close>

theorem rtc_no_cross_tenant_forward:
  assumes "gs_upstream (snd (handleRTC L g up trustXFF clk r s)) \<noteq> gs_upstream s"
  shows "\<exists>vt. validate_token L (sg_validator g) (clk_verify clk) (clk_ttl clk) (extractTokenFromRequest r) = Inr vt \<and>
    EnforceRoom (val_tenant (sg_validator g)) (cg_name (vt_grants vt)) (vt_full_room vt) = None"
proof -
  have "gate_passes L g trustXFF clk r s" using assms handleRTC_block by metis
  then obtain vt where vt: "validate_token L (sg_validator g) (clk_verify clk) (clk_ttl clk)
      (extractTokenFromRequest r) = Inr vt"
    by (auto simp: gate_passes_def Validate_def Let_def split: sum.splits)
  then show ?thesis using validate_accepts_room(1,3) [OF vt] by auto
qed

definition counting_upstream :: "nat upstream" where
  "counting_upstream r n = (Some \<lparr>rsp_status = 101, rsp_header = [], rsp_body = []\<rparr>, Suc n)"

definition sample_gate :: "memory_rooms signal_gate" where
  "sample_gate = \<lparr>sg_validator = sample_validator, sg_upstream_host = ''127.0.0.1:7880'',
     sg_room_cap = \<lparr>rc_max = 2, rc_lister = Some memory_lister\<rparr>\<rparr>"

definition sample_gate_state :: "(memory_rooms, nat) gate_state" where
  "sample_gate_state = \<lparr>gs_limiter = None, gs_metrics = None, gs_rooms = [(''acme:a'', 0)], gs_upstream = 0\<rparr>"

definition rtc_request :: "(string, string list) go_map \<Rightarrow> (string, string list) go_map \<Rightarrow> http_request" where
  "rtc_request q h = \<lparr>req_method = ''GET'', req_path = ''/rtc'', req_query = q, req_header = h,
     req_remote_addr = ''10.0.0.1:5000'', req_body = []\<rparr>"

definition zero_clock :: clock_readings where
  "zero_clock = \<lparr>clk_allow = 0, clk_verify = 0, clk_ttl = 0\<rparr>"

lemma sample_request_forwarded:
  "gs_upstream (snd (handleRTC (sample_lib 0) sample_gate counting_upstream False zero_clock
     (rtc_request [(''access_token'', [''acme:b''])] []) sample_gate_state)) = 1"
  by code_simp

theorem rtc_no_cross_tenant_forward_witness:
  "\<exists>vt. validate_token (sample_lib 0) sample_validator 0 0 ''acme:b'' = Inr vt \<and>
     EnforceRoom \<lparr>tenant_sep = CHR '':''\<rparr> (cg_name (vt_grants vt)) (vt_full_room vt) = None"
proof -
  have "gs_upstream (snd (handleRTC (sample_lib 0) sample_gate counting_upstream False zero_clock
     (rtc_request [(''access_token'', [''acme:b''])] []) sample_gate_state)) \<noteq> gs_upstream sample_gate_state"
    unfolding sample_request_forwarded by (simp add: sample_gate_state_def)
  from rtc_no_cross_tenant_forward [OF this] show ?thesis
    by (simp add: sample_gate_def sample_validator_def zero_clock_def extractTokenFromRequest_def
        rtc_request_def values_get_def)
qed

text \<open>
  C16. The room ceiling holds for serialised joins: starting from at most the ceiling of rooms, no
  sequence of joins exceeds it, while a join to a room that exists is always admitted and changes
  nothing.
\<close>

theorem room_ceiling_holds:
  assumes "0 < max'" "go_map rooms" "int (length rooms) \<le> max'"
  shows "int (length (fold (\<lambda>room rs. snd (join_room max' room rs)) joins rooms)) \<le> max' \<and>
    (room \<in> keys rooms \<longrightarrow> join_room max' room rooms = (True, rooms))"
proof -
  have "go_map (fold (\<lambda>room rs. snd (join_room max' room rs)) joins rs) \<and>
      int (length (fold (\<lambda>room rs. snd (join_room max' room rs)) joins rs)) \<le> max'"
    if "go_map rs" "int (length rs) \<le> max'" for rs
    using that
    by (induction joins arbitrary: rs) (simp_all add: join_room_bound [OF assms(1)])
  then show ?thesis using assms by (simp add: join_room_eq)
qed

theorem room_ceiling_holds_witness:
  "int (length (fold (\<lambda>room rs. snd (join_room 2 room rs)) [''a:1'', ''a:2'', ''b:1'', ''a:1''] [])) \<le> 2"
  using room_ceiling_holds [of 2 "[]" "[''a:1'', ''a:2'', ''b:1'', ''a:1'']"] by simp

text \<open>
  The ceiling does not survive a race: two joins that are both checked before either room exists
  are both admitted, and the box then holds more rooms than the ceiling.
\<close>

theorem room_ceiling_race:
  "let cap = \<lparr>rc_max = 2, rc_lister = Some memory_lister\<rparr>; rooms = [(''acme:a'', 0)] in
     fst (enforceRoomCap cap ''acme:b'' None rooms) \<and> fst (enforceRoomCap cap ''acme:c'' None rooms) \<and>
     2 < length (CreateRoom ''acme:c'' (CreateRoom ''acme:b'' rooms))"
  by code_simp

text \<open>
  A token in the \<open>Authorization\<close> header is accepted by the gate but not forwarded: the request
  the SFU receives carries no token at all, so it cannot authenticate the session.
\<close>

theorem header_token_not_forwarded:
  "gs_upstream (snd (handleRTC (sample_lib 0) sample_gate counting_upstream False zero_clock
     (rtc_request [] [(''Authorization'', [''Bearer acme:b''])]) sample_gate_state)) = 1 \<and>
   extractTokenFromRequest (gate_director (rtc_request [] [(''Authorization'', [''Bearer acme:b''])])) = []"
  by code_simp

end
