(* ===== verification/Storage_Seam.thy ===== *)
theory Storage_Seam
  imports Go_Url Egress_Receiver
begin

text \<open>
  The storage seam of the egress proxy (\<^verbatim>\<open>internal/wrap/storage_seam.go\<close>,
  \<^verbatim>\<open>internal/wrap/egress_storage.go\<close>): the destination injected by the gateway's headers, the broker
  secret that gates it, the endpoints it may name, and the rewriting of an egress request so that every
  artifact lands in the injected bucket. The protobuf messages are the library's: of each the model has
  the fields the code reads or writes and an opaque remainder, and their codec is a parameter.
\<close>

section \<open>The injected destination\<close>

definition StorageEndpointHeader :: string where "StorageEndpointHeader = ''X-Vulos-Storage-Endpoint''"
definition StorageBucketHeader :: string where "StorageBucketHeader = ''X-Vulos-Storage-Bucket''"
definition StoragePrefixHeader :: string where "StoragePrefixHeader = ''X-Vulos-Storage-Prefix''"
definition StorageRegionHeader :: string where "StorageRegionHeader = ''X-Vulos-Storage-Region''"
definition StorageAccessKeyHeader :: string where "StorageAccessKeyHeader = ''X-Vulos-Storage-Access-Key''"
definition StorageSecretKeyHeader :: string where "StorageSecretKeyHeader = ''X-Vulos-Storage-Secret-Key''"
definition StorageSessionTokenHeader :: string where "StorageSessionTokenHeader = ''X-Vulos-Storage-Session-Token''"
definition StorageBrokerAuthHeader :: string where "StorageBrokerAuthHeader = ''X-Vulos-Storage-Broker-Auth''"
definition StorageBrokerSecretEnv :: string where "StorageBrokerSecretEnv = ''VULOS_STORAGE_BROKER_SECRET''"

type_synonym headers = "(string, string list) go_map"

definition storageBrokerAuthorized :: "string \<Rightarrow> headers \<Rightarrow> bool" where
  "storageBrokerAuthorized secret h =
     (if secret = [] then False
      else let presented = trim_space (values_get h StorageBrokerAuthHeader)
           in if presented = [] then False else ConstantTimeCompare presented secret = 1)"

definition StorageSpace :: string where "StorageSpace = ''meet/''"

record storage_seam =
  ss_endpoint :: string
  ss_bucket :: string
  ss_prefix :: string
  ss_region :: string
  ss_access_key :: string
  ss_secret_key :: string
  ss_session_token :: string

definition StorageSeamFromHeader :: "headers \<Rightarrow> storage_seam option" where
  "StorageSeamFromHeader h =
     (let endpoint = trim_space (values_get h StorageEndpointHeader)
      in if endpoint = [] then None
         else Some \<lparr>ss_endpoint = endpoint,
           ss_bucket = trim_space (values_get h StorageBucketHeader),
           ss_prefix = trim_space (values_get h StoragePrefixHeader),
           ss_region = trim_space (values_get h StorageRegionHeader),
           ss_access_key = trim_space (values_get h StorageAccessKeyHeader),
           ss_secret_key = trim_space (values_get h StorageSecretKeyHeader),
           ss_session_token = trim_space (values_get h StorageSessionTokenHeader)\<rparr>)"

definition KeyPrefix :: "storage_seam \<Rightarrow> string" where
  "KeyPrefix s = (let p = trim_slashes (ss_prefix s) in if p = [] then StorageSpace else p @ ''/'' @ StorageSpace)"

definition isLoopbackOrPrivateHost :: "string \<Rightarrow> bool" where
  "isLoopbackOrPrivateHost host =
     (if host = ''localhost'' then True
      else case ParseIP host of
        None \<Rightarrow> False
      | Some ip \<Rightarrow> IsLoopback ip \<or> IsPrivate ip \<or> IsLinkLocalUnicast ip)"

definition endpointAllowed :: "storage_seam \<Rightarrow> bool" where
  "endpointAllowed s =
     (case url_Parse (ss_endpoint s) of
        None \<Rightarrow> False
      | Some u \<Rightarrow>
          if u_host u = [] then False
          else if u_scheme u = ''https'' then True
          else if u_scheme u = ''http'' then isLoopbackOrPrivateHost (url_Hostname u)
          else False)"

record s3_upload =
  s3_access_key :: string
  s3_secret :: string
  s3_session_token :: string
  s3_region :: string
  s3_endpoint :: string
  s3_bucket :: string

definition s3Upload :: "storage_seam \<Rightarrow> s3_upload" where
  "s3Upload s = \<lparr>s3_access_key = ss_access_key s, s3_secret = ss_secret_key s,
     s3_session_token = ss_session_token s, s3_region = ss_region s, s3_endpoint = ss_endpoint s,
     s3_bucket = ss_bucket s\<rparr>"

definition prefixKey :: "storage_seam \<Rightarrow> string \<Rightarrow> string" where
  "prefixKey s path = KeyPrefix s @ trim_prefix path ''/''"

section \<open>The egress requests\<close>

text \<open>
  Where an output goes: the S3 upload, or another arm of the message's oneof. \<open>'x\<close> stands for what the
  code does not look at.
\<close>

datatype 'x upload = UploadS3 s3_upload | UploadOther 'x

record 'x encoded_file =
  ef_filepath :: string
  ef_output :: "'x upload"
  ef_other :: 'x

record 'x segmented_file =
  sf_filename_prefix :: string
  sf_playlist_name :: string
  sf_live_playlist_name :: string
  sf_output :: "'x upload"
  sf_other :: 'x

record 'x image_output =
  io_filename_prefix :: string
  io_output :: "'x upload"
  io_other :: 'x

record 'x direct_file =
  df_filepath :: string
  df_output :: "'x upload"
  df_other :: 'x

text \<open>The outputs of a request; a pointer is an option, and elements of a repeated field may be nil.\<close>

record 'x egress_outputs =
  eo_file :: "'x encoded_file option"
  eo_segments :: "'x segmented_file option"
  eo_file_outputs :: "'x encoded_file option list"
  eo_segment_outputs :: "'x segmented_file option list"
  eo_image_outputs :: "'x image_output option list"

datatype 'x egress_request =
    RoomCompositeEgress string "'x egress_outputs" 'x
  | WebEgress "'x egress_outputs" 'x
  | ParticipantEgress string "'x egress_outputs" 'x
  | TrackCompositeEgress string "'x egress_outputs" 'x
  | TrackEgress string "'x direct_file option" 'x

section \<open>Rewriting\<close>

definition applyEncodedFile :: "storage_seam \<Rightarrow> 'x encoded_file option \<Rightarrow> bool \<times> 'x encoded_file option" where
  "applyEncodedFile s f =
     (case f of
        None \<Rightarrow> (False, None)
      | Some f \<Rightarrow> (True, Some (f\<lparr>ef_filepath := prefixKey s (ef_filepath f), ef_output := UploadS3 (s3Upload s)\<rparr>)))"

definition applySegmented :: "storage_seam \<Rightarrow> 'x segmented_file option \<Rightarrow> bool \<times> 'x segmented_file option" where
  "applySegmented s f =
     (case f of
        None \<Rightarrow> (False, None)
      | Some f \<Rightarrow>
          let f = f\<lparr>sf_filename_prefix := prefixKey s (sf_filename_prefix f)\<rparr>;
              f = (if sf_playlist_name f = [] then f
                   else f\<lparr>sf_playlist_name := prefixKey s (sf_playlist_name f)\<rparr>);
              f = (if sf_live_playlist_name f = [] then f
                   else f\<lparr>sf_live_playlist_name := prefixKey s (sf_live_playlist_name f)\<rparr>)
          in (True, Some (f\<lparr>sf_output := UploadS3 (s3Upload s)\<rparr>)))"

definition applyImage :: "storage_seam \<Rightarrow> 'x image_output option \<Rightarrow> bool \<times> 'x image_output option" where
  "applyImage s f =
     (case f of
        None \<Rightarrow> (False, None)
      | Some f \<Rightarrow> (True, Some (f\<lparr>io_filename_prefix := prefixKey s (io_filename_prefix f),
                                 io_output := UploadS3 (s3Upload s)\<rparr>)))"

definition applyDirectFile :: "storage_seam \<Rightarrow> 'x direct_file option \<Rightarrow> bool \<times> 'x direct_file option" where
  "applyDirectFile s f =
     (case f of
        None \<Rightarrow> (False, None)
      | Some f \<Rightarrow> (True, Some (f\<lparr>df_filepath := prefixKey s (df_filepath f), df_output := UploadS3 (s3Upload s)\<rparr>)))"

text \<open>The loops over the repeated fields.\<close>

fun apply_all :: "('f option \<Rightarrow> bool \<times> 'f option) \<Rightarrow> 'f option list \<Rightarrow> bool \<times> 'f option list" where
  "apply_all f [] = (False, [])"
| "apply_all f (x # xs) =
     (let (c, y) = f x; (cs, ys) = apply_all f xs in (c \<or> cs, y # ys))"

definition applyEncodedFiles :: "storage_seam \<Rightarrow> 'x encoded_file option list \<Rightarrow> bool \<times> 'x encoded_file option list" where
  "applyEncodedFiles s = apply_all (applyEncodedFile s)"

definition applySegments :: "storage_seam \<Rightarrow> 'x segmented_file option list \<Rightarrow> bool \<times> 'x segmented_file option list" where
  "applySegments s = apply_all (applySegmented s)"

definition applyImages :: "storage_seam \<Rightarrow> 'x image_output option list \<Rightarrow> bool \<times> 'x image_output option list" where
  "applyImages s = apply_all (applyImage s)"

text \<open>
  The outputs of one request. A participant request has no single file or segments field
  (\<open>single = False\<close>).
\<close>

definition apply_outputs :: "bool \<Rightarrow> storage_seam \<Rightarrow> 'x egress_outputs \<Rightarrow> bool \<times> 'x egress_outputs" where
  "apply_outputs single s eo =
     (let (c1, f) = (if single then applyEncodedFile s (eo_file eo) else (False, eo_file eo));
          (c2, g) = (if single then applySegmented s (eo_segments eo) else (False, eo_segments eo));
          (c3, fs) = applyEncodedFiles s (eo_file_outputs eo);
          (c4, gs) = applySegments s (eo_segment_outputs eo);
          (c5, ims) = applyImages s (eo_image_outputs eo)
      in (c1 \<or> c2 \<or> c3 \<or> c4 \<or> c5,
          \<lparr>eo_file = f, eo_segments = g, eo_file_outputs = fs, eo_segment_outputs = gs, eo_image_outputs = ims\<rparr>))"

fun applySeamToEgress :: "storage_seam \<Rightarrow> 'x egress_request \<Rightarrow> bool \<times> 'x egress_request" where
  "applySeamToEgress s (RoomCompositeEgress room eo x) =
     (let (c, eo) = apply_outputs True s eo in (c, RoomCompositeEgress room eo x))"
| "applySeamToEgress s (WebEgress eo x) =
     (let (c, eo) = apply_outputs True s eo in (c, WebEgress eo x))"
| "applySeamToEgress s (ParticipantEgress room eo x) =
     (let (c, eo) = apply_outputs False s eo in (c, ParticipantEgress room eo x))"
| "applySeamToEgress s (TrackCompositeEgress room eo x) =
     (let (c, eo) = apply_outputs True s eo in (c, TrackCompositeEgress room eo x))"
| "applySeamToEgress s (TrackEgress room f x) =
     (let (c, f) = applyDirectFile s f in (c, TrackEgress room f x))"

text \<open>
  The codec of the library: \<open>unmarshal discard json kind\<close> decodes a body into a request of a method,
  \<open>marshal json\<close> encodes one.
\<close>

datatype egress_kind = RoomComposite | Web | Participant | TrackComposite | Track

record 'x egress_codec =
  cd_unmarshal :: "bool \<Rightarrow> bool \<Rightarrow> egress_kind \<Rightarrow> string \<Rightarrow> 'x egress_request option"
  cd_marshal :: "bool \<Rightarrow> 'x egress_request \<Rightarrow> string option"

definition egressRequestForMethod :: "string \<Rightarrow> egress_kind option" where
  "egressRequestForMethod method =
     (if method = ''StartRoomCompositeEgress'' then Some RoomComposite
      else if method = ''StartWebEgress'' then Some Web
      else if method = ''StartParticipantEgress'' then Some Participant
      else if method = ''StartTrackCompositeEgress'' then Some TrackComposite
      else if method = ''StartTrackEgress'' then Some Track
      else None)"

definition bodyIsJSON :: "string \<Rightarrow> bool" where
  "bodyIsJSON contentType = contains (to_lower contentType) ''json''"

text \<open>\<open>None\<close> is an error; otherwise the body to send and whether it was changed.\<close>

definition rewriteEgressBodyForSeam ::
  "'x egress_codec \<Rightarrow> string \<Rightarrow> string \<Rightarrow> string \<Rightarrow> storage_seam \<Rightarrow> (string \<times> bool) option" where
  "rewriteEgressBodyForSeam C method contentType body seam =
     (case egressRequestForMethod method of
        None \<Rightarrow> Some (body, False)
      | Some kind \<Rightarrow>
          (case cd_unmarshal C False (bodyIsJSON contentType) kind body of
             None \<Rightarrow> None
           | Some msg \<Rightarrow>
               (case applySeamToEgress seam msg of
                  (False, _) \<Rightarrow> Some (body, False)
                | (True, msg') \<Rightarrow>
                    map_option (\<lambda>out. (out, True)) (cd_marshal C (bodyIsJSON contentType) msg'))))"

section \<open>Artifacts\<close>

text \<open>
  The specification of the rewriting: the artifacts a request names, each a key and the place it is
  uploaded to, in the order of the fields.
\<close>

definition file_artifacts :: "'x encoded_file option \<Rightarrow> (string \<times> 'x upload) list" where
  "file_artifacts f = (case f of None \<Rightarrow> [] | Some f \<Rightarrow> [(ef_filepath f, ef_output f)])"

definition segment_artifacts :: "'x segmented_file option \<Rightarrow> (string \<times> 'x upload) list" where
  "segment_artifacts f =
     (case f of
        None \<Rightarrow> []
      | Some f \<Rightarrow> map (\<lambda>p. (p, sf_output f))
          (sf_filename_prefix f # filter (\<lambda>p. p \<noteq> []) [sf_playlist_name f, sf_live_playlist_name f]))"

definition image_artifacts :: "'x image_output option \<Rightarrow> (string \<times> 'x upload) list" where
  "image_artifacts f = (case f of None \<Rightarrow> [] | Some f \<Rightarrow> [(io_filename_prefix f, io_output f)])"

definition direct_artifacts :: "'x direct_file option \<Rightarrow> (string \<times> 'x upload) list" where
  "direct_artifacts f = (case f of None \<Rightarrow> [] | Some f \<Rightarrow> [(df_filepath f, df_output f)])"

definition output_artifacts :: "bool \<Rightarrow> 'x egress_outputs \<Rightarrow> (string \<times> 'x upload) list" where
  "output_artifacts single eo =
     (if single then file_artifacts (eo_file eo) @ segment_artifacts (eo_segments eo) else []) @
     concat (map file_artifacts (eo_file_outputs eo)) @ concat (map segment_artifacts (eo_segment_outputs eo)) @
     concat (map image_artifacts (eo_image_outputs eo))"

fun artifacts :: "'x egress_request \<Rightarrow> (string \<times> 'x upload) list" where
  "artifacts (RoomCompositeEgress room eo x) = output_artifacts True eo"
| "artifacts (WebEgress eo x) = output_artifacts True eo"
| "artifacts (ParticipantEgress room eo x) = output_artifacts False eo"
| "artifacts (TrackCompositeEgress room eo x) = output_artifacts True eo"
| "artifacts (TrackEgress room f x) = direct_artifacts f"

fun request_room :: "'x egress_request \<Rightarrow> string" where
  "request_room (RoomCompositeEgress room eo x) = room"
| "request_room (WebEgress eo x) = []"
| "request_room (ParticipantEgress room eo x) = room"
| "request_room (TrackCompositeEgress room eo x) = room"
| "request_room (TrackEgress room f x) = room"

definition redirected :: "storage_seam \<Rightarrow> string \<times> 'x upload \<Rightarrow> string \<times> 'x upload" where
  "redirected s a = (prefixKey s (fst a), UploadS3 (s3Upload s))"

text \<open>
  What rewriting must leave alone: the request with every key and every destination blanked out, so that
  the kind of request, its room, which outputs it has, which of their optional playlists are named and
  everything the code does not look at remain. Of a participant request only the repeated fields count as outputs.
\<close>

definition blank_upload :: "'x upload" where
  "blank_upload = UploadS3 \<lparr>s3_access_key = [], s3_secret = [], s3_session_token = [], s3_region = [],
     s3_endpoint = [], s3_bucket = []\<rparr>"

definition blank_name :: "string \<Rightarrow> string" where
  "blank_name p = (if p = [] then [] else ''-'')"

definition file_rest :: "'x encoded_file option \<Rightarrow> 'x encoded_file option" where
  "file_rest = map_option (\<lambda>f. f\<lparr>ef_filepath := [], ef_output := blank_upload\<rparr>)"

definition segment_rest :: "'x segmented_file option \<Rightarrow> 'x segmented_file option" where
  "segment_rest = map_option (\<lambda>f. f\<lparr>sf_filename_prefix := [], sf_playlist_name := blank_name (sf_playlist_name f),
     sf_live_playlist_name := blank_name (sf_live_playlist_name f), sf_output := blank_upload\<rparr>)"

definition image_rest :: "'x image_output option \<Rightarrow> 'x image_output option" where
  "image_rest = map_option (\<lambda>f. f\<lparr>io_filename_prefix := [], io_output := blank_upload\<rparr>)"

definition direct_rest :: "'x direct_file option \<Rightarrow> 'x direct_file option" where
  "direct_rest = map_option (\<lambda>f. f\<lparr>df_filepath := [], df_output := blank_upload\<rparr>)"

definition output_rest :: "bool \<Rightarrow> 'x egress_outputs \<Rightarrow> 'x egress_outputs" where
  "output_rest single eo =
     \<lparr>eo_file = (if single then file_rest (eo_file eo) else eo_file eo),
      eo_segments = (if single then segment_rest (eo_segments eo) else eo_segments eo),
      eo_file_outputs = map file_rest (eo_file_outputs eo),
      eo_segment_outputs = map segment_rest (eo_segment_outputs eo),
      eo_image_outputs = map image_rest (eo_image_outputs eo)\<rparr>"

fun request_rest :: "'x egress_request \<Rightarrow> 'x egress_request" where
  "request_rest (RoomCompositeEgress room eo x) = RoomCompositeEgress room (output_rest True eo) x"
| "request_rest (WebEgress eo x) = WebEgress (output_rest True eo) x"
| "request_rest (ParticipantEgress room eo x) = ParticipantEgress room (output_rest False eo) x"
| "request_rest (TrackCompositeEgress room eo x) = TrackCompositeEgress room (output_rest True eo) x"
| "request_rest (TrackEgress room f x) = TrackEgress room (direct_rest f) x"

text \<open>
  Every kind of output follows one contract: rewriting redirects its artifacts, reports a change exactly
  when there are any, and leaves an output without artifacts alone. The contract passes to the loops over
  repeated fields.
\<close>

locale seam_rewrite =
  fixes rewrite :: "'f \<Rightarrow> bool \<times> 'f" and arts :: "'f \<Rightarrow> (string \<times> 'x upload) list"
    and redirect :: "string \<times> 'x upload \<Rightarrow> string \<times> 'x upload"
  assumes arts_rewrite: "arts (snd (rewrite f)) = map redirect (arts f)"
    and changed_iff: "fst (rewrite f) \<longleftrightarrow> arts f \<noteq> []"
    and unchanged: "\<not> fst (rewrite f) \<Longrightarrow> snd (rewrite f) = f"
begin

lemma no_arts: "arts f = [] \<Longrightarrow> rewrite f = (False, f)"
  using changed_iff [of f] unchanged [of f] by (metis prod.collapse)

end

lemma KeyPrefix_nonempty [simp]: "KeyPrefix s \<noteq> []"
  by (simp add: KeyPrefix_def StorageSpace_def Let_def)

lemma prefixKey_nonempty [simp]: "prefixKey s p \<noteq> []"
  by (simp add: prefixKey_def)

interpretation file_seam: seam_rewrite "applyEncodedFile s" file_artifacts "redirected s" for s
  by unfold_locales (auto simp: applyEncodedFile_def file_artifacts_def redirected_def split: option.splits)

interpretation segment_seam: seam_rewrite "applySegmented s" segment_artifacts "redirected s" for s
  by unfold_locales
    (auto simp: applySegmented_def segment_artifacts_def redirected_def Let_def split: option.splits)

interpretation image_seam: seam_rewrite "applyImage s" image_artifacts "redirected s" for s
  by unfold_locales (auto simp: applyImage_def image_artifacts_def redirected_def split: option.splits)

interpretation direct_seam: seam_rewrite "applyDirectFile s" direct_artifacts "redirected s" for s
  by unfold_locales (auto simp: applyDirectFile_def direct_artifacts_def redirected_def split: option.splits)

lemma apply_all_contract:
  assumes "\<And>f. arts (snd (r f)) = map red (arts f)" "\<And>f. fst (r f) \<longleftrightarrow> arts f \<noteq> []"
    "\<And>f. \<not> fst (r f) \<Longrightarrow> snd (r f) = f"
  shows "concat (map arts (snd (apply_all r xs))) = map red (concat (map arts xs)) \<and>
    (fst (apply_all r xs) \<longleftrightarrow> concat (map arts xs) \<noteq> []) \<and>
    (fst (apply_all r xs) \<or> snd (apply_all r xs) = xs)"
  using assms by (induction xs) (auto simp: case_prod_beta Let_def)

lemmas files_contract = apply_all_contract [of file_artifacts "applyEncodedFile s" "redirected s" for s,
    OF file_seam.arts_rewrite file_seam.changed_iff file_seam.unchanged, folded applyEncodedFiles_def]
lemmas segments_contract = apply_all_contract [of segment_artifacts "applySegmented s" "redirected s" for s,
    OF segment_seam.arts_rewrite segment_seam.changed_iff segment_seam.unchanged, folded applySegments_def]
lemmas images_contract = apply_all_contract [of image_artifacts "applyImage s" "redirected s" for s,
    OF image_seam.arts_rewrite image_seam.changed_iff image_seam.unchanged, folded applyImages_def]

interpretation outputs_seam: seam_rewrite "apply_outputs single s" "output_artifacts single" "redirected s" for single s
proof
  fix eo :: "'b egress_outputs"
  note c = files_contract [of s "eo_file_outputs eo"] segments_contract [of s "eo_segment_outputs eo"]
    images_contract [of s "eo_image_outputs eo"]
  show "output_artifacts single (snd (apply_outputs single s eo)) = map (redirected s) (output_artifacts single eo)"
    using c by (simp add: apply_outputs_def output_artifacts_def case_prod_beta Let_def
        file_seam.arts_rewrite segment_seam.arts_rewrite)
  show ch: "fst (apply_outputs single s eo) \<longleftrightarrow> output_artifacts single eo \<noteq> []"
    using c by (auto simp: apply_outputs_def output_artifacts_def case_prod_beta Let_def
        file_seam.changed_iff segment_seam.changed_iff)
  assume "\<not> fst (apply_outputs single s eo)"
  then show "snd (apply_outputs single s eo) = eo"
    using c by (auto simp: apply_outputs_def case_prod_beta Let_def file_seam.unchanged segment_seam.unchanged
        split: if_splits)
qed

interpretation request_seam: seam_rewrite "applySeamToEgress s" artifacts "redirected s" for s
proof
  fix m :: "'b egress_request"
  show "artifacts (snd (applySeamToEgress s m)) = map (redirected s) (artifacts m)"
    by (cases m) (simp_all add: case_prod_beta Let_def outputs_seam.arts_rewrite direct_seam.arts_rewrite)
  show "fst (applySeamToEgress s m) \<longleftrightarrow> artifacts m \<noteq> []"
    by (cases m) (simp_all add: case_prod_beta Let_def outputs_seam.changed_iff direct_seam.changed_iff)
  assume "\<not> fst (applySeamToEgress s m)"
  then show "snd (applySeamToEgress s m) = m"
    by (cases m) (simp_all add: case_prod_beta Let_def outputs_seam.unchanged direct_seam.unchanged)
qed

text \<open>The frame of every rewriting.\<close>

lemma file_frame: "file_rest (snd (applyEncodedFile s f)) = file_rest f"
  by (simp add: applyEncodedFile_def file_rest_def split: option.split)

lemma segment_frame: "segment_rest (snd (applySegmented s f)) = segment_rest f"
  by (auto simp: applySegmented_def segment_rest_def blank_name_def Let_def split: option.split)

lemma image_frame: "image_rest (snd (applyImage s f)) = image_rest f"
  by (simp add: applyImage_def image_rest_def split: option.split)

lemma direct_frame: "direct_rest (snd (applyDirectFile s f)) = direct_rest f"
  by (simp add: applyDirectFile_def direct_rest_def split: option.split)

lemma apply_all_frame: "(\<And>f. rest (snd (r f)) = rest f) \<Longrightarrow> map rest (snd (apply_all r xs)) = map rest xs"
  by (induction xs) (simp_all add: case_prod_beta Let_def)

lemma outputs_frame: "output_rest single (snd (apply_outputs single s eo)) = output_rest single eo"
  by (simp add: apply_outputs_def output_rest_def case_prod_beta Let_def file_frame segment_frame image_frame
      applyEncodedFiles_def applySegments_def applyImages_def apply_all_frame)

lemma request_frame: "request_rest (snd (applySeamToEgress s m)) = request_rest m"
  by (cases m) (simp_all add: case_prod_beta Let_def outputs_frame direct_frame)

lemma request_room_seam [simp]: "request_room (snd (applySeamToEgress s m)) = request_room m"
  by (cases m) (simp_all add: case_prod_beta Let_def)

lemma hd_trim_slashes: "trim_slashes p \<noteq> [] \<Longrightarrow> hd (trim_slashes p) \<noteq> slash"
proof -
  let ?l = "trim_left_slashes p"
  assume ne: "trim_slashes p \<noteq> []"
  obtain zs where "rev ?l = zs @ dropWhile (\<lambda>c. c = slash) (rev ?l)"
    by (metis takeWhile_dropWhile_id)
  then have "?l = trim_slashes p @ rev zs"
    by (metis rev_append rev_rev_ident trim_left_slashes_def trim_right_slashes_def trim_slashes_def)
  with ne have "hd (trim_slashes p) = hd ?l" and "?l \<noteq> []" by (metis hd_append2, simp)
  then show ?thesis using hd_dropWhile [of "\<lambda>c. c = slash" p] by (simp add: trim_left_slashes_def)
qed

section \<open>Lemmas on addresses\<close>

definition show_v4 :: "nat \<Rightarrow> nat \<Rightarrow> nat \<Rightarrow> nat \<Rightarrow> string" where
  "show_v4 a b c d = show_nat a @ dot # show_nat b @ dot # show_nat c @ dot # show_nat d"

lemma dot_not_digit [simp]: "\<not> is_digit dot"
  by (simp add: dot_def is_digit_def)

lemma show_nat_not_in: "\<not> is_digit c \<Longrightarrow> c \<notin> set (show_nat n)"
  using show_nat_digits by blast

lemma show_nat_small:
  "n < 10 \<Longrightarrow> show_nat n = [digit n]"
  "10 \<le> n \<Longrightarrow> n < 100 \<Longrightarrow> show_nat n = [digit (n div 10), digit (n mod 10)]"
  "100 \<le> n \<Longrightarrow> n < 1000 \<Longrightarrow> show_nat n = [digit (n div 100), digit (n div 10 mod 10), digit (n mod 10)]"
proof -
  show 1: "show_nat n = [digit n]" if "n < 10" for n using that by (subst show_nat.simps) simp
  show 2: "show_nat n = [digit (n div 10), digit (n mod 10)]" if "10 \<le> n" "n < 100" for n
    using that 1 [of "n div 10"] by (subst show_nat.simps) simp
  show "show_nat n = [digit (n div 100), digit (n div 10 mod 10), digit (n mod 10)]" if "100 \<le> n" "n < 1000" for n
    using that 2 [of "n div 10"] by (subst show_nat.simps) (simp add: div_mult2_eq [of n 10 10, simplified])
qed

lemma digit_not_zero: "0 < k \<Longrightarrow> k < 10 \<Longrightarrow> digit k \<noteq> CHR ''0''"
  using digit_value_digit [of k] by (auto simp: digit_value_def)

lemma octet_field: "n < 256 \<Longrightarrow> v4_field (show_nat n)"
proof -
  assume n: "n < 256"
  have "length (show_nat n) \<le> 3 \<and> \<not> (1 < length (show_nat n) \<and> hd (show_nat n) = CHR ''0'')"
  proof (cases "n < 10"; cases "n < 100")
    assume "\<not> n < 10" "n < 100"
    then show ?thesis using digit_not_zero [of "n div 10"] by (simp add: show_nat_small(2))
  next
    assume "\<not> n < 10" "\<not> n < 100"
    then show ?thesis using n digit_not_zero [of "n div 100"] by (simp add: show_nat_small(3))
  qed (simp_all add: show_nat_small(1))
  then show ?thesis using n show_nat_digits by (auto simp: v4_field_def list_all_iff)
qed

lemma split_show_v4: "split_on dot (show_v4 a b c d) = [show_nat a, show_nat b, show_nat c, show_nat d]"
  by (simp add: show_v4_def split_on_line split_on_char_free show_nat_not_in)

lemma find_first: "\<forall>x \<in> set xs. \<not> P x \<Longrightarrow> P y \<Longrightarrow> find P (xs @ y # ys) = Some y"
  by (induction xs) auto

lemma ParseIP_show_v4:
  assumes "a < 256" "b < 256" "c < 256" "d < 256"
  shows "ParseIP (show_v4 a b c d) =
    Some [0, 0, 0, 0, 0, 65535, 256 * int a + int b, 256 * int c + int d]"
proof -
  have "find (\<lambda>c. c = dot \<or> c = CHR '':'' \<or> c = CHR ''%'') (show_v4 a b c d) = Some dot"
  proof -
    have "dot \<notin> set (show_nat a)" "CHR '':'' \<notin> set (show_nat a)" "CHR ''%'' \<notin> set (show_nat a)"
      by (simp_all add: show_nat_not_in is_digit_def dot_def)
    then show ?thesis unfolding show_v4_def by (intro find_first) auto
  qed
  moreover have "parse_v4 (show_v4 a b c d) = Some [int a, int b, int c, int d]"
    using assms by (simp add: parse_v4_def split_show_v4 octet_field)
  ultimately show ?thesis by (simp add: ParseIP_def)
qed

text \<open>The text of an IPv4 address is a host without port, escapes or brackets.\<close>

lemma show_v4_chars: "x \<in> set (show_v4 a b c d) \<Longrightarrow> is_digit x \<or> x = dot"
  by (auto simp: show_v4_def dest: show_nat_digits)

lemma show_v4_not_in [simp]:
  "CHR ''#'' \<notin> set (show_v4 a b c d)" "CHR ''?'' \<notin> set (show_v4 a b c d)" "slash \<notin> set (show_v4 a b c d)"
  "CHR ''@'' \<notin> set (show_v4 a b c d)" "CHR ''['' \<notin> set (show_v4 a b c d)" "CHR '']'' \<notin> set (show_v4 a b c d)"
  "CHR '':'' \<notin> set (show_v4 a b c d)"
  using show_v4_chars by (fastforce simp: is_digit_def dot_def slash_def)+

lemma show_v4_nonempty [simp]: "show_v4 a b c d \<noteq> []"
  by (simp add: show_v4_def)

lemma plain_host_ok: "(\<And>x. x \<in> set s \<Longrightarrow> is_digit x \<or> x = dot) \<Longrightarrow> escapes_ok PartHost s \<and> unescape s = Some s"
proof (induction s)
  case (Cons x s)
  then have "is_digit x \<or> x = dot" and IH: "escapes_ok PartHost s \<and> unescape s = Some s" by auto
  then have "x \<noteq> CHR ''%''" and "\<not> shouldEscape PartHost x"
    by (auto simp: is_digit_def dot_def shouldEscape_def alphanumeric_def)
  with IH show ?case by simp
qed simp

lemma no_index [simp]: "c \<notin> set s \<Longrightarrow> last_index c s = None" "c \<notin> set s \<Longrightarrow> index_of s [c] = None"
  by (simp_all add: last_index_def)

lemma cut_None: "c \<notin> set s \<Longrightarrow> cut c s = (s, None)"
  by (simp add: cut_def index_of_char)

lemma parseHost_v4 [simp]: "parseHost (show_v4 a b c d) = Some (show_v4 a b c d)"
  using plain_host_ok [OF show_v4_chars] by (simp add: parseHost_def url_unescape_def)

lemma url_Parse_http_v4:
  "url_Parse (''http://'' @ show_v4 a b c d) = Some \<lparr>u_scheme = ''http'', u_opaque = [], u_user = None,
     u_host = show_v4 a b c d, u_path = [], u_raw_path = [], u_query = [], u_force_query = False,
     u_raw_fragment = []\<rparr>"
proof -
  let ?s = "''http://'' @ show_v4 a b c d"
  have ctl: "\<not> list_ex ctl_byte (show_v4 a b c d)"
    by (auto simp: list_ex_iff dest!: show_v4_chars) (auto simp: ctl_byte_def is_digit_def dot_def Let_def)
  have sch: "getScheme ?s = Some (''http'', ''//'' @ show_v4 a b c d)"
    by (simp add: getScheme_def char_between_def less_eq_char_def is_digit_def to_lower_def lower_char_def Let_def)
  show ?thesis
    using ctl sch
    by (simp add: url_Parse_def cut_None ctl_byte_def url_unescape_def parse_hier_def
        parseAuthority_def Let_def)
qed

lemma url_Hostname_v4:
  "u_host u = show_v4 a b c d \<Longrightarrow> url_Hostname u = show_v4 a b c d"
  using show_v4_chars [of "hd (show_v4 a b c d)" a b c d]
  by (auto simp: url_Hostname_def Let_def is_digit_def dot_def hd_in_set)

section \<open>Properties\<close>

text \<open>
  C28. Under the seam every artifact of an egress request lands in the injected bucket and nothing else
  changes: whatever files, segments, playlists, images or direct files the request names, after rewriting
  each is uploaded with the injected destination under the injected key prefix, none is added or lost;
  with keys and destinations blanked out the request is the one that came in (its kind, its room, its
  outputs, its named playlists, everything the code does not look at); and it is reported changed exactly
  when it names an artifact, and is otherwise the same.
\<close>

theorem seam_redirects_every_artifact:
  "case applySeamToEgress s m of (changed, m') \<Rightarrow>
     artifacts m' = map (\<lambda>(key, _). (prefixKey s key, UploadS3 (s3Upload s))) (artifacts m) \<and>
     request_rest m' = request_rest m \<and>
     (changed \<longleftrightarrow> artifacts m \<noteq> []) \<and> (changed \<or> m' = m) \<and> request_room m' = request_room m"
  using request_seam.arts_rewrite [of s m] request_seam.changed_iff [of s m] request_seam.unchanged [of s m]
    request_room_seam [of s m] request_frame [of s m]
  by (auto simp: redirected_def case_prod_beta)

text \<open>
  Keys stay in the product's space: every rewritten key begins with the key prefix, which never
  begins with a slash and ends with \<open>meet/\<close>, and two paths that do not begin with a slash get the same
  key only when they are equal.
\<close>

theorem keys_stay_in_space:
  "prefix (KeyPrefix s) (prefixKey s p) \<and> hd (prefixKey s p) \<noteq> slash \<and> suffix ''meet/'' (KeyPrefix s) \<and>
   (if p \<noteq> [] \<and> hd p = slash \<or> q \<noteq> [] \<and> hd q = slash then True
    else prefixKey s p = prefixKey s q \<longleftrightarrow> p = q)"
proof -
  have "hd (KeyPrefix s) \<noteq> slash"
    using hd_trim_slashes [of "ss_prefix s"] by (auto simp: KeyPrefix_def StorageSpace_def Let_def slash_def)
  moreover have "suffix ''meet/'' (KeyPrefix s)"
    by (auto simp: KeyPrefix_def StorageSpace_def Let_def suffix_def)
  moreover have "trim_prefix r ''/'' = r" if "\<not> (r \<noteq> [] \<and> hd r = slash)" for r
    using that by (cases r) (auto simp: trim_prefix_def slash_def)
  ultimately show ?thesis by (auto simp: prefixKey_def)
qed

text \<open>
  Credentials cross the wire in plaintext only inside the network: a plain \<open>http\<close> endpoint given
  by an IPv4 address is accepted exactly when the address is loopback, private (RFC 1918) or link-local.
\<close>

theorem http_endpoint_private_only:
  assumes "a < 256" "b < 256" "c < 256" "d < 256"
  shows "endpointAllowed (s\<lparr>ss_endpoint := ''http://'' @ show_v4 a b c d\<rparr>) \<longleftrightarrow>
    a = 127 \<or> a = 10 \<or> a = 172 \<and> 16 \<le> b \<and> b < 32 \<or> a = 192 \<and> b = 168 \<or> a = 169 \<and> b = 254"
proof -
  have "show_v4 a b c d \<noteq> ''localhost''"
    using show_v4_not_in(1) [of a b c d] show_v4_chars [of "CHR ''l''" a b c d] by (auto simp: is_digit_def dot_def)
  moreover have "url_Parse (ss_endpoint (s\<lparr>ss_endpoint := ''http://'' @ show_v4 a b c d\<rparr>)) =
      Some \<lparr>u_scheme = ''http'', u_opaque = [], u_user = None, u_host = show_v4 a b c d, u_path = [],
        u_raw_path = [], u_query = [], u_force_query = False, u_raw_fragment = []\<rparr>"
    using url_Parse_http_v4 [of a b c d] by simp
  ultimately show ?thesis
    using assms unfolding endpointAllowed_def
    by (simp add: url_Hostname_v4 isLoopbackOrPrivateHost_def ParseIP_show_v4
        IsLoopback_def IsPrivate_def IsLinkLocalUnicast_def is_v4_def v4_octet_def) linarith
qed

definition sample_seam :: storage_seam where
  "sample_seam = \<lparr>ss_endpoint = ''https://s3'', ss_bucket = ''b'', ss_prefix = ''/u1/'', ss_region = [],
     ss_access_key = ''a'', ss_secret_key = ''k'', ss_session_token = []\<rparr>"

theorem http_endpoint_private_only_witness:
  "endpointAllowed (sample_seam\<lparr>ss_endpoint := ''http://192.168.1.5''\<rparr>) \<and>
   \<not> endpointAllowed (sample_seam\<lparr>ss_endpoint := ''http://8.8.8.8''\<rparr>)"
proof -
  have "''http://'' @ show_v4 192 168 1 5 = ''http://192.168.1.5''"
    and "''http://'' @ show_v4 8 8 8 8 = ''http://8.8.8.8''"
    by code_simp+
  then show ?thesis
    using http_endpoint_private_only [of 192 168 1 5 sample_seam] http_endpoint_private_only [of 8 8 8 8 sample_seam]
    by simp
qed

end
