(* ===== verification/Egress_Proxy.thy ===== *)
theory Egress_Proxy
  imports Storage_Seam Signal_Gate
begin

text \<open>
  The egress proxy (\<^verbatim>\<open>internal/wrap/egress_proxy.go\<close>, \<^verbatim>\<open>internal/wrap/egress_authz.go\<close>): the checks on
  the token, the storage seam, the binding of the request body to the token's tenant, and the forward to
  the SFU. The HTTP client is a parameter acting on the upstream's state, the codec of the protobuf
  messages another. The lemmas show which requests are forwarded, that a forwarded request concerns a
  room of the token's tenant, and what the upstream gets to see.
\<close>

section \<open>The proxy and its environment\<close>

record egress_proxy =
  ep_validator :: validator
  ep_upstream :: url
  ep_broker_secret :: string

datatype egress_proxy_error = ProxyNilValidator | ProxyEmptyUpstream | ProxyBadUpstream

definition NewEgressProxy :: "(string \<Rightarrow> string) \<Rightarrow> validator option \<Rightarrow> string \<Rightarrow> egress_proxy_error + egress_proxy" where
  "NewEgressProxy env v upstreamAddr =
     (case v of
        None \<Rightarrow> Inl ProxyNilValidator
      | Some v \<Rightarrow>
          if upstreamAddr = [] then Inl ProxyEmptyUpstream
          else case url_Parse (''http://'' @ hostFromSignalingAddr upstreamAddr) of
            None \<Rightarrow> Inl ProxyBadUpstream
          | Some u \<Rightarrow> Inr \<lparr>ep_validator = v, ep_upstream = u,
                          ep_broker_secret = trim_space (env StorageBrokerSecretEnv)\<rparr>)"

text \<open>A request to the upstream and the client that performs it: a response, or \<open>None\<close> for an error.\<close>

record up_request =
  up_method :: string
  up_url :: string
  up_header :: headers
  up_body :: string

type_synonym 'u up_client = "up_request \<Rightarrow> 'u \<Rightarrow> http_response option \<times> 'u"

text \<open>
  The rest of the codec: the messages keyed by an egress id, the list request and response. \<open>url_ok\<close> is
  whether \<open>NewRequest\<close> accepts a URL, \<open>read_body\<close> the result of reading a body up to a limit.
\<close>

datatype id_kind = StopRequest | LayoutRequest | StreamRequest

record 'x egress_env2 =
  en_codec :: "'x egress_codec"
  en_id :: "bool \<Rightarrow> id_kind \<Rightarrow> string \<Rightarrow> string option"
  en_list_room :: "bool \<Rightarrow> string \<Rightarrow> string option"
  en_list_by_id :: "string \<Rightarrow> string option"
  en_list_items :: "string \<Rightarrow> (string \<times> string) list option"

section \<open>Binding the body to the tenant\<close>

definition decodeEgressBody :: "'x egress_env2 \<Rightarrow> egress_kind \<Rightarrow> string \<Rightarrow> string \<Rightarrow> 'x egress_request option" where
  "decodeEgressBody N kind contentType body = cd_unmarshal (en_codec N) True (bodyIsJSON contentType) kind body"

definition egressBodyRoomName :: "'x egress_env2 \<Rightarrow> string \<Rightarrow> string \<Rightarrow> string \<Rightarrow> string option" where
  "egressBodyRoomName N method contentType body =
     (if method = ''StartRoomCompositeEgress'' then map_option request_room (decodeEgressBody N RoomComposite contentType body)
      else if method = ''StartParticipantEgress'' then map_option request_room (decodeEgressBody N Participant contentType body)
      else if method = ''StartTrackCompositeEgress'' then map_option request_room (decodeEgressBody N TrackComposite contentType body)
      else if method = ''StartTrackEgress'' then map_option request_room (decodeEgressBody N Track contentType body)
      else if method = ''ListEgress'' then en_list_room N (bodyIsJSON contentType) body
      else None)"

definition egressBodyID :: "'x egress_env2 \<Rightarrow> string \<Rightarrow> string \<Rightarrow> string \<Rightarrow> string option" where
  "egressBodyID N method contentType body =
     (if method = ''StopEgress'' then en_id N (bodyIsJSON contentType) StopRequest body
      else if method = ''UpdateLayout'' then en_id N (bodyIsJSON contentType) LayoutRequest body
      else if method = ''UpdateStream'' then en_id N (bodyIsJSON contentType) StreamRequest body
      else None)"

definition roomTenant :: "egress_proxy \<Rightarrow> string \<Rightarrow> string" where
  "roomTenant p room =
     (case SplitRoom (val_tenant (ep_validator p)) room of Inl _ \<Rightarrow> [] | Inr (tenant, _) \<Rightarrow> tenant)"

definition lookup_request :: "egress_proxy \<Rightarrow> string \<Rightarrow> string \<Rightarrow> up_request" where
  "lookup_request p payload authHeader =
     \<lparr>up_method = ''POST'', up_url = url_String (ep_upstream p) @ EgressTwirpPathPrefix @ ''ListEgress'',
      up_header = [(''Content-Type'', [''application/json''])] @
        (if authHeader = [] then [] else [(''Authorization'', [authHeader])]),
      up_body = payload\<rparr>"

definition max_egress_body :: nat where "max_egress_body = 2 ^ 20"
definition max_egress_response :: nat where "max_egress_response = 2 ^ 22"

text \<open>\<open>None\<close> is any of the errors of the lookup.\<close>

definition resolveEgressRoom ::
  "'x egress_env2 \<Rightarrow> 'u up_client \<Rightarrow> egress_proxy \<Rightarrow> string \<Rightarrow> string \<Rightarrow> 'u \<Rightarrow> string option \<times> 'u" where
  "resolveEgressRoom N client p egressID authHeader u =
     (case en_list_by_id N egressID of
        None \<Rightarrow> (None, u)
      | Some payload \<Rightarrow>
          let req = lookup_request p payload authHeader in
          if url_Parse (up_url req) = None then (None, u)
          else case client req u of
            (None, u') \<Rightarrow> (None, u')
          | (Some rsp, u') \<Rightarrow>
              if rsp_status rsp \<noteq> StatusOK then (None, u')
              else (case en_list_items N (take max_egress_body (rsp_body rsp)) of
                  None \<Rightarrow> (None, u')
                | Some items \<Rightarrow> (map_option snd (find (\<lambda>it. fst it = egressID) items), u')))"

definition start_methods :: "string set" where
  "start_methods = {''StartRoomCompositeEgress'', ''StartParticipantEgress'', ''StartTrackCompositeEgress'', ''StartTrackEgress''}"

definition id_methods :: "string set" where
  "id_methods = {''StopEgress'', ''UpdateLayout'', ''UpdateStream''}"

definition authorizeEgressTenant ::
  "'x egress_env2 \<Rightarrow> 'u up_client \<Rightarrow> egress_proxy \<Rightarrow> string \<Rightarrow> string \<Rightarrow> string \<Rightarrow> validated_token \<Rightarrow> string \<Rightarrow> 'u \<Rightarrow>
     bool \<times> 'u" where
  "authorizeEgressTenant N client p method contentType body vt authHeader u =
     (if method \<in> start_methods
      then (case egressBodyRoomName N method contentType body of
          None \<Rightarrow> (False, u)
        | Some room \<Rightarrow> (room \<noteq> [] \<and> room = vt_full_room vt, u))
      else if method = ''StartWebEgress'' then (False, u)
      else if method = ''ListEgress'' then
        (case egressBodyRoomName N method contentType body of
           None \<Rightarrow> (False, u)
         | Some room \<Rightarrow> if room = [] then (False, u) else (roomTenant p room = vt_tenant vt, u))
      else if method \<in> id_methods then
        (case egressBodyID N method contentType body of
           None \<Rightarrow> (False, u)
         | Some i \<Rightarrow>
             if i = [] then (False, u)
             else case resolveEgressRoom N client p i authHeader u of
               (None, u') \<Rightarrow> (False, u')
             | (Some room, u') \<Rightarrow> (room \<noteq> [] \<and> roomTenant p room = vt_tenant vt, u'))
      else (False, u))"

section \<open>Forwarding\<close>

definition hop_header :: "string \<Rightarrow> bool" where
  "hop_header k \<longleftrightarrow>
     to_lower k \<in> {''connection'', ''keep-alive'', ''proxy-authenticate'', ''proxy-authorization'', ''te'', ''trailer'',
       ''transfer-encoding'', ''upgrade'', ''host'', ''content-length'', ''x-vulos-broker-auth''} \<or>
     has_prefix (to_lower k) ''x-vulos-storage-''"

text \<open>\<open>Header.Add\<close> of every value of the source headers that are not skipped; keys are canonical.\<close>

definition header_add :: "string \<Rightarrow> string \<Rightarrow> headers \<Rightarrow> headers" where
  "header_add k v h = put k ((case map_of h k of None \<Rightarrow> [] | Some vs \<Rightarrow> vs) @ [v]) h"

definition copyForwardableHeaders :: "headers \<Rightarrow> headers \<Rightarrow> headers" where
  "copyForwardableHeaders dst src =
     foldl (\<lambda>dst (k, vs). if hop_header k then dst else foldl (\<lambda>dst v. header_add k v dst) dst vs) dst src"

record ('u) proxy_state =
  ps_metrics :: "metrics option"
  ps_upstream :: 'u

definition proxy_reply :: "egress_outcome \<Rightarrow> string \<Rightarrow> int \<Rightarrow> 'u proxy_state \<Rightarrow> http_response \<times> 'u proxy_state" where
  "proxy_reply oc msg code st = (http_error msg code, st\<lparr>ps_metrics := ObserveEgress oc (ps_metrics st)\<rparr>)"

definition egress_response :: "http_response \<Rightarrow> http_response" where
  "egress_response rsp =
     \<lparr>rsp_status = rsp_status rsp, rsp_header = copyForwardableHeaders [] (rsp_header rsp),
      rsp_body = take max_egress_response (rsp_body rsp)\<rparr>"

text \<open>\<open>URL.Path\<close>: the decoded path of the request line.\<close>

definition url_path :: "http_request \<Rightarrow> string" where
  "url_path r = path_unescape (req_path r)"

text \<open>The request that is sent on: the path is the decoded one, \<open>rawQuery\<close> the query as it was given.\<close>

definition forwarded_request :: "egress_proxy \<Rightarrow> string \<Rightarrow> http_request \<Rightarrow> string \<Rightarrow> up_request" where
  "forwarded_request p rawQuery r body =
     \<lparr>up_method = ''POST'',
      up_url = url_String (ep_upstream p) @ url_path r @ (if rawQuery = [] then [] else ''?'' @ rawQuery),
      up_header = copyForwardableHeaders [] (req_header r), up_body = body\<rparr>"

definition egress_forward ::
  "'x egress_env2 \<Rightarrow> 'u up_client \<Rightarrow> egress_proxy \<Rightarrow> string \<Rightarrow> http_request \<Rightarrow> string option \<Rightarrow> validated_token \<Rightarrow>
     storage_seam option \<Rightarrow> 'u proxy_state \<Rightarrow> http_response \<times> 'u proxy_state" where
  "egress_forward N client p rawQuery r body_read vt seam st =
     (case body_read of
        None \<Rightarrow> proxy_reply EgressOutcomeRejected ''bad request'' StatusBadRequest st
      | Some whole \<Rightarrow>
          let body = take max_egress_body whole;
              method = trim_prefix (url_path r) EgressTwirpPathPrefix;
              contentType = header_get r ''Content-Type'';
              (ok, u) = authorizeEgressTenant N client p method contentType body vt
                          (header_get r ''Authorization'') (ps_upstream st);
              st = st\<lparr>ps_upstream := u\<rparr>
          in if \<not> ok then proxy_reply EgressOutcomeForbidden ''forbidden'' StatusForbidden st
             else case (case seam of
                 None \<Rightarrow> Some (body, False)
               | Some s \<Rightarrow> rewriteEgressBodyForSeam (en_codec N) method contentType body s) of
               None \<Rightarrow> proxy_reply EgressOutcomeRejected ''bad request'' StatusBadRequest st
             | Some (rewritten, changed) \<Rightarrow>
                 let body = (if changed then rewritten else body);
                     req = forwarded_request p rawQuery r body
                 in if url_Parse (up_url req) = None
                    then proxy_reply EgressOutcomeBadGateway ''bad gateway'' StatusBadGateway st
                    else case client req (ps_upstream st) of
                      (None, u) \<Rightarrow>
                        proxy_reply EgressOutcomeBadGateway ''bad gateway'' StatusBadGateway (st\<lparr>ps_upstream := u\<rparr>)
                    | (Some rsp, u) \<Rightarrow>
                        (egress_response rsp,
                         st\<lparr>ps_upstream := u, ps_metrics := ObserveEgress EgressOutcomeOK (ps_metrics st)\<rparr>))"

definition record_grant :: "validated_token \<Rightarrow> bool" where
  "record_grant vt \<longleftrightarrow> (case cg_video (vt_grants vt) of None \<Rightarrow> False | Some v \<Rightarrow> vg_room_record v)"

text \<open>The seam a request is served under: none unless the headers prove they are the gateway's.\<close>

definition effective_seam :: "egress_proxy \<Rightarrow> headers \<Rightarrow> storage_seam option" where
  "effective_seam p h =
     (case StorageSeamFromHeader h of
        None \<Rightarrow> None
      | Some s \<Rightarrow> if storageBrokerAuthorized (ep_broker_secret p) h then Some s else None)"

definition egress_serve ::
  "'tok token_lib \<Rightarrow> 'x egress_env2 \<Rightarrow> 'u up_client \<Rightarrow> egress_proxy \<Rightarrow> time \<Rightarrow> time \<Rightarrow> string \<Rightarrow> string option \<Rightarrow>
     http_request \<Rightarrow> 'u proxy_state \<Rightarrow> http_response \<times> 'u proxy_state" where
  "egress_serve L N client p now now' rawQuery body_read r st =
     (if req_method r \<noteq> ''POST''
      then proxy_reply EgressOutcomeRejected ''method not allowed'' StatusMethodNotAllowed st
      else
        let raw = extractTokenFromRequest r in
        if raw = [] then proxy_reply EgressOutcomeUnauthorized ''unauthorized'' StatusUnauthorized st
        else case Validate L (ep_validator p) now now' raw (ps_metrics st) of
          (Inl ErrTokenWrongTenant, m) \<Rightarrow> proxy_reply EgressOutcomeForbidden ''forbidden'' StatusForbidden (st\<lparr>ps_metrics := m\<rparr>)
        | (Inl _, m) \<Rightarrow> proxy_reply EgressOutcomeUnauthorized ''unauthorized'' StatusUnauthorized (st\<lparr>ps_metrics := m\<rparr>)
        | (Inr vt, m) \<Rightarrow>
            let st = st\<lparr>ps_metrics := m\<rparr>; seam = effective_seam p (req_header r) in
            if \<not> record_grant vt then proxy_reply EgressOutcomeForbidden ''forbidden'' StatusForbidden st
            else if (case seam of None \<Rightarrow> False | Some s \<Rightarrow> \<not> endpointAllowed s)
            then proxy_reply EgressOutcomeRejected ''bad request'' StatusBadRequest st
            else egress_forward N client p rawQuery r body_read vt seam st)"

section \<open>Lemmas on headers\<close>

lemma header_adds:
  "foldl (\<lambda>d v. header_add k v d) dst vs =
     (if vs = [] then dst else put k ((case map_of dst k of None \<Rightarrow> [] | Some ws \<Rightarrow> ws) @ vs) dst)"
  by (induction vs arbitrary: dst) (simp_all add: header_add_def update_update_same)

lemma copy_Cons:
  "copyForwardableHeaders dst ((k, vs) # src) =
     copyForwardableHeaders (if hop_header k \<or> vs = [] then dst
       else put k ((case map_of dst k of None \<Rightarrow> [] | Some ws \<Rightarrow> ws) @ vs) dst) src"
  by (simp add: copyForwardableHeaders_def header_adds)

lemma copy_Nil [simp]: "copyForwardableHeaders dst [] = dst"
  by (simp add: copyForwardableHeaders_def)

lemma copy_lookup:
  assumes "go_map src" "keys src \<inter> keys dst = {}"
  shows "map_of (copyForwardableHeaders dst src) k =
    (case map_of src k of
       Some vs \<Rightarrow> if hop_header k \<or> vs = [] then map_of dst k else Some vs
     | None \<Rightarrow> map_of dst k)"
  using assms
proof (induction src arbitrary: dst)
  case (Cons x src)
  obtain j vs where x: "x = (j, vs)" by fastforce
  let ?dst = "if hop_header j \<or> vs = [] then dst
       else put j ((case map_of dst j of None \<Rightarrow> [] | Some ws \<Rightarrow> ws) @ vs) dst"
  have j: "map_of dst j = None" "j \<notin> keys src"
    using Cons.prems by (auto simp: x map_of_eq_None_iff)
  have "keys src \<inter> keys ?dst = {}" using Cons.prems by (auto simp: x)
  from Cons.IH [OF _ this] Cons.prems(1)
  have IH: "map_of (copyForwardableHeaders ?dst src) k =
      (case map_of src k of Some ws \<Rightarrow> if hop_header k \<or> ws = [] then map_of ?dst k else Some ws | None \<Rightarrow> map_of ?dst k)"
    by (simp add: x)
  have "map_of src j = None" using j(2) by (simp add: map_of_eq_None_iff)
  then show ?case
    using IH j(1) by (auto simp: x copy_Cons split: option.split)
qed simp

lemma copy_filter: "(\<And>k. \<not> P k \<Longrightarrow> hop_header k) \<Longrightarrow>
    copyForwardableHeaders dst (filter (\<lambda>(k, _). P k) src) = copyForwardableHeaders dst src"
  by (induction src arbitrary: dst) (auto simp: copy_Cons)

section \<open>Lemmas on the body guard\<close>

text \<open>A client that keeps the requests it was sent and answers from them.\<close>

definition up_log :: "(up_request list \<Rightarrow> up_request \<Rightarrow> http_response option) \<Rightarrow> up_request list up_client" where
  "up_log answers req sent = (answers sent req, sent @ [req])"

text \<open>
  The room a request is about: the one its body names, or for a method keyed by an egress id the one the
  upstream gives for that id.
\<close>

definition target_room ::
  "'x egress_env2 \<Rightarrow> 'u up_client \<Rightarrow> egress_proxy \<Rightarrow> string \<Rightarrow> string \<Rightarrow> string \<Rightarrow> string \<Rightarrow> 'u \<Rightarrow> string option" where
  "target_room N client p method contentType body authHeader u =
     (case egressBodyRoomName N method contentType body of
        Some room \<Rightarrow> Some room
      | None \<Rightarrow>
          (case egressBodyID N method contentType body of
             None \<Rightarrow> None
           | Some i \<Rightarrow> fst (resolveEgressRoom N client p i authHeader u)))"

lemma roomTenant_owner:
  "t \<noteq> [] \<Longrightarrow> roomTenant p room = t \<longleftrightarrow> EnforceRoom (val_tenant (ep_validator p)) t room = None"
  by (auto simp: roomTenant_def EnforceRoom_None_split split: sum.splits)

lemma authorize_target:
  assumes "fst (authorizeEgressTenant N client p method ct body vt auth u)"
    and "vt_tenant vt \<noteq> []" "EnforceRoom (val_tenant (ep_validator p)) (vt_tenant vt) (vt_full_room vt) = None"
  shows "\<exists>room. target_room N client p method ct body auth u = Some room \<and>
    EnforceRoom (val_tenant (ep_validator p)) (vt_tenant vt) room = None \<and>
    (method \<in> start_methods \<longrightarrow> room = vt_full_room vt)"
proof -
  note owner = roomTenant_owner [OF assms(2), of p]
  consider "method \<in> start_methods" | "method = ''ListEgress''" | "method \<in> id_methods" "method \<notin> start_methods"
    using assms(1) by (auto simp: authorizeEgressTenant_def split: if_splits)
  then show ?thesis
  proof cases
    case 1
    then obtain room where "egressBodyRoomName N method ct body = Some room" "room = vt_full_room vt"
      using assms(1) by (auto simp: authorizeEgressTenant_def split: option.splits)
    then show ?thesis using assms(3) by (simp add: target_room_def)
  next
    case 2
    then have "method \<notin> start_methods" by (simp add: start_methods_def)
    with 2 obtain room where "egressBodyRoomName N method ct body = Some room" "roomTenant p room = vt_tenant vt"
      using assms(1) by (auto simp: authorizeEgressTenant_def split: option.splits if_splits)
    then show ?thesis using \<open>method \<notin> start_methods\<close> owner by (simp add: target_room_def)
  next
    case 3
    then have m: "egressBodyRoomName N method ct body = None" "method \<noteq> ''StartWebEgress''" "method \<noteq> ''ListEgress''"
      by (auto simp: egressBodyRoomName_def id_methods_def)
    with 3 obtain i room u' where "egressBodyID N method ct body = Some i"
      "resolveEgressRoom N client p i auth u = (Some room, u')" "roomTenant p room = vt_tenant vt"
      using assms(1) by (auto simp: authorizeEgressTenant_def split: option.splits if_splits prod.splits)
    then show ?thesis using m 3 owner by (simp add: target_room_def)
  qed
qed

lemma resolve_log:
  "\<exists>lookups. snd (resolveEgressRoom N (up_log answers) p i auth u) = u @ lookups \<and>
     (lookups = [] \<or> (\<exists>payload. lookups = [lookup_request p payload auth]))"
  by (auto simp: resolveEgressRoom_def up_log_def Let_def split: option.split)

lemma authorize_upstream:
  "snd (authorizeEgressTenant N client p method ct body vt auth u) =
     (if method \<in> id_methods \<and> method \<notin> start_methods \<and> method \<noteq> ''StartWebEgress'' \<and> method \<noteq> ''ListEgress'' then
        (case egressBodyID N method ct body of
           None \<Rightarrow> u | Some i \<Rightarrow> if i = [] then u else snd (resolveEgressRoom N client p i auth u))
      else u)"
  by (auto simp: authorizeEgressTenant_def split: option.split prod.split)

lemma authorize_log:
  "\<exists>lookups. snd (authorizeEgressTenant N (up_log answers) p method ct body vt auth u) = u @ lookups \<and>
     (lookups = [] \<or> (\<exists>payload. lookups = [lookup_request p payload auth]))"
  using resolve_log [of N answers p "the (egressBodyID N method ct body)" auth u]
  by (cases "egressBodyID N method ct body") (simp_all add: authorize_upstream)

lemma ps_upstream_reply [simp]: "ps_upstream (snd (proxy_reply oc msg code st)) = ps_upstream st"
  by (simp add: proxy_reply_def)

definition egress_method :: "http_request \<Rightarrow> string" where
  "egress_method r = trim_prefix (url_path r) EgressTwirpPathPrefix"

lemma forward_log:
  "\<exists>lookups forwards.
     ps_upstream (snd (egress_forward N (up_log answers) p rq r body_read vt seam st)) =
       ps_upstream st @ lookups @ forwards \<and>
     (lookups = [] \<or> (\<exists>payload. lookups = [lookup_request p payload (header_get r ''Authorization'')])) \<and>
     (forwards = [] \<or> (\<exists>whole b. body_read = Some whole \<and> forwards = [forwarded_request p rq r b] \<and>
        fst (authorizeEgressTenant N (up_log answers) p (egress_method r) (header_get r ''Content-Type'')
          (take max_egress_body whole) vt (header_get r ''Authorization'') (ps_upstream st))))"
proof (cases body_read)
  case None
  then show ?thesis by (simp add: egress_forward_def)
next
  case (Some whole)
  obtain ok u where a: "authorizeEgressTenant N (up_log answers) p (egress_method r) (header_get r ''Content-Type'')
      (take max_egress_body whole) vt (header_get r ''Authorization'') (ps_upstream st) = (ok, u)"
    by fastforce
  with authorize_log obtain lookups where l: "u = ps_upstream st @ lookups"
      "lookups = [] \<or> (\<exists>payload. lookups = [lookup_request p payload (header_get r ''Authorization'')])"
    by (metis snd_conv)
  let ?st = "snd (egress_forward N (up_log answers) p rq r body_read vt seam st)"
  have "ps_upstream ?st = u \<or> (ok \<and> (\<exists>b. ps_upstream ?st = u @ [forwarded_request p rq r b]))"
    using a by (auto simp: egress_forward_def Some egress_method_def up_log_def Let_def case_prod_beta
        split: option.split)
  then show ?thesis
    using l a Some by (elim disjE conjE exE) (rule exI [of _ lookups]; force)+
qed

lemma serve_cases:
  assumes "raw = extractTokenFromRequest r"
  obtains "ps_upstream (snd (egress_serve L N client p now now' rq body_read r st)) = ps_upstream st"
      "rsp_status (fst (egress_serve L N client p now now' rq body_read r st)) \<in> {400, 401, 403, 405}"
  | vt m where "Validate L (ep_validator p) now now' raw (ps_metrics st) = (Inr vt, m)" "record_grant vt"
      "case effective_seam p (req_header r) of None \<Rightarrow> True | Some s \<Rightarrow> endpointAllowed s"
      "req_method r = ''POST''" "raw \<noteq> []"
      "egress_serve L N client p now now' rq body_read r st =
         egress_forward N client p rq r body_read vt (effective_seam p (req_header r)) (st\<lparr>ps_metrics := m\<rparr>)"
proof -
  let ?res = "egress_serve L N client p now now' rq body_read r st"
  obtain v m where v: "Validate L (ep_validator p) now now' raw (ps_metrics st) = (v, m)" by fastforce
  consider (bad) "req_method r \<noteq> ''POST'' \<or> raw = []" | (err) e where "req_method r = ''POST''" "raw \<noteq> []" "v = Inl e"
    | (ok) vt where "req_method r = ''POST''" "raw \<noteq> []" "v = Inr vt" by (cases v) auto
  then show thesis
  proof cases
    case bad
    then show ?thesis by (intro that(1)) (auto simp: egress_serve_def proxy_reply_def Let_def assms status_defs)
  next
    case err
    then show ?thesis using v
      by (intro that(1); cases e) (simp_all add: egress_serve_def proxy_reply_def Let_def assms status_defs)
  next
    case ok
    show ?thesis
    proof (cases "record_grant vt \<and> (case effective_seam p (req_header r) of None \<Rightarrow> True | Some s \<Rightarrow> endpointAllowed s)")
      case True
      then show ?thesis using ok v
        by (intro that(2) [of vt m]) (auto simp: egress_serve_def Let_def assms split: option.splits)
    next
      case False
      then show ?thesis using ok v
        by (intro that(1)) (auto simp: egress_serve_def proxy_reply_def Let_def assms status_defs split: option.splits)
    qed
  qed
qed

section \<open>Lemmas on the seam\<close>

definition storage_header :: "string \<Rightarrow> bool" where
  "storage_header k \<longleftrightarrow> has_prefix (to_lower k) ''x-vulos-storage-''"

definition without_storage_headers :: "http_request \<Rightarrow> http_request" where
  "without_storage_headers r = r\<lparr>req_header := filter (\<lambda>(k, _). \<not> storage_header k) (req_header r)\<rparr>"

lemma map_of_filter_key: "map_of (filter (\<lambda>(k, _). P k) m) k = (if P k then map_of m k else None)"
  by (induction m) auto

lemma without_storage_get [simp]:
  "values_get (filter (\<lambda>(k, _). \<not> storage_header k) h) k = (if storage_header k then [] else values_get h k)"
  by (simp add: values_get_def map_of_filter_key)

lemma storage_header_names:
  "storage_header StorageEndpointHeader" "\<not> storage_header ''Authorization''" "\<not> storage_header ''Content-Type''"
  by code_simp+

lemma without_storage_extract [simp]: "extractTokenFromRequest (without_storage_headers r) = extractTokenFromRequest r"
  by (simp add: extractTokenFromRequest_def without_storage_headers_def storage_header_names Let_def)

lemma without_storage_forwarded [simp]:
  "forwarded_request p rq (without_storage_headers r) b = forwarded_request p rq r b"
proof -
  have "\<not> \<not> storage_header k \<Longrightarrow> hop_header k" for k by (simp add: storage_header_def hop_header_def)
  from copy_filter [of "\<lambda>k. \<not> storage_header k", OF this]
  show ?thesis by (simp add: forwarded_request_def without_storage_headers_def url_path_def)
qed

lemma without_storage_forward:
  "egress_forward N client p rq (without_storage_headers r) body_read vt seam st =
     egress_forward N client p rq r body_read vt seam st"
proof -
  have "url_path (without_storage_headers r) = url_path r"
    and "header_get (without_storage_headers r) ''Content-Type'' = header_get r ''Content-Type''"
    and "header_get (without_storage_headers r) ''Authorization'' = header_get r ''Authorization''"
    by (simp_all add: without_storage_headers_def storage_header_names url_path_def)
  then show ?thesis by (simp only: egress_forward_def without_storage_forwarded)
qed

lemma effective_seam_iff:
  "effective_seam p h =
     (if ep_broker_secret p \<noteq> [] \<and> trim_space (values_get h StorageBrokerAuthHeader) = ep_broker_secret p
      then StorageSeamFromHeader h else None)"
  by (auto simp: effective_seam_def storageBrokerAuthorized_def Let_def split: option.split)

lemma without_storage_seam: "effective_seam p (req_header (without_storage_headers r)) = None"
  by (simp add: effective_seam_def StorageSeamFromHeader_def without_storage_headers_def storage_header_names Let_def)

section \<open>Lemmas on the metric\<close>

text \<open>The status that goes with an outcome counted for a request with method \<open>meth\<close>.\<close>

definition outcome_status :: "string \<Rightarrow> egress_outcome \<Rightarrow> int \<Rightarrow> bool" where
  "outcome_status meth oc status \<longleftrightarrow>
     (case oc of
        EgressOutcomeOK \<Rightarrow> True
      | EgressOutcomeUnauthorized \<Rightarrow> status = 401
      | EgressOutcomeForbidden \<Rightarrow> status = 403
      | EgressOutcomeBadGateway \<Rightarrow> status = 502
      | EgressOutcomeRejected \<Rightarrow> status = (if meth = ''POST'' then 400 else 405))"

definition counted_once :: "string \<Rightarrow> metrics \<Rightarrow> http_response \<times> 'u proxy_state \<Rightarrow> bool" where
  "counted_once meth m res \<longleftrightarrow>
     (\<exists>oc m'. ps_metrics (snd res) = Some m' \<and>
        m_egressRequests m' = bump (egress_outcome_label oc) (m_egressRequests m) \<and>
        outcome_status meth oc (rsp_status (fst res)))"

lemma counted_reply:
  assumes "ps_metrics st = Some m'" "m_egressRequests m' = m_egressRequests m" "outcome_status meth oc code"
  shows "counted_once meth m (proxy_reply oc msg code st)"
  using assms by (auto simp: counted_once_def proxy_reply_def ObserveEgress_def)

lemma counted_forward:
  assumes "ps_metrics st = Some m'" "m_egressRequests m' = m_egressRequests m"
  shows "counted_once ''POST'' m (egress_forward N client p rq r body_read vt seam st)"
proof -
  have ok: "counted_once ''POST'' m (rsp, st\<lparr>ps_upstream := u, ps_metrics := ObserveEgress EgressOutcomeOK (Some m')\<rparr>)"
    for rsp u
    using assms unfolding counted_once_def
    by (intro exI [of _ EgressOutcomeOK]) (simp add: ObserveEgress_def outcome_status_def)
  show ?thesis
    unfolding egress_forward_def
    by (auto simp: Let_def case_prod_beta outcome_status_def status_defs assms ok
        intro!: counted_reply [OF _ assms(2)] split: option.split)
qed

lemma counted_serve:
  assumes "ps_metrics st = Some m"
  shows "counted_once (req_method r) m (egress_serve L N client p now now' rq body_read r st)"
proof -
  obtain v m' where v: "Validate L (ep_validator p) now now' (extractTokenFromRequest r) (ps_metrics st) = (v, Some m')"
    and m': "m_egressRequests m' = m_egressRequests m"
    by (simp add: Validate_def Let_def ObserveTokenValidation_def ObserveTokenOutcome_def assms)
  note reply = counted_reply [OF _ m'] counted_reply [OF assms refl]
  show ?thesis
  proof (cases "req_method r = ''POST'' \<and> extractTokenFromRequest r \<noteq> []")
    case False
    then show ?thesis
      by (auto simp: egress_serve_def Let_def outcome_status_def status_defs intro!: reply)
  next
    case True
    then show ?thesis
    proof (cases v)
      case (Inl e)
      then show ?thesis using True v
        by (cases e) (auto simp: egress_serve_def outcome_status_def status_defs intro!: reply)
    next
      case (Inr vt)
      then show ?thesis using True v counted_forward [OF _ m', of "st\<lparr>ps_metrics := Some m'\<rparr>"]
        by (auto simp: egress_serve_def Let_def outcome_status_def status_defs intro!: reply)
    qed
  qed
qed

section \<open>Properties\<close>

text \<open>
  C5. The proxy only acts on rooms of the token's tenant: for any request, besides at most one read-only
  lookup nothing is sent to the upstream unless a token validates, carries the recording grant, and the
  room the request is about, named by its body or looked up for its egress id, belongs to that token's
  tenant; for a start it is the very room of the token. At most one request is forwarded.
\<close>

theorem egress_forwards_own_rooms_only:
  "\<exists>lookups forwards.
     ps_upstream (snd (egress_serve L N (up_log answers) p now now' rq body_read r st)) =
       ps_upstream st @ lookups @ forwards \<and>
     (lookups = [] \<or> (\<exists>payload. lookups = [lookup_request p payload (header_get r ''Authorization'')])) \<and>
     (forwards = [] \<or> (\<exists>whole b vt room.
        body_read = Some whole \<and> forwards = [forwarded_request p rq r b] \<and>
        fst (Validate L (ep_validator p) now now' (extractTokenFromRequest r) (ps_metrics st)) = Inr vt \<and>
        record_grant vt \<and>
        target_room N (up_log answers) p (egress_method r) (header_get r ''Content-Type'')
          (take max_egress_body whole) (header_get r ''Authorization'') (ps_upstream st) = Some room \<and>
        EnforceRoom (val_tenant (ep_validator p)) (vt_tenant vt) room = None \<and>
        (if egress_method r \<in> start_methods then room = vt_full_room vt else True)))"
proof (rule serve_cases [of "extractTokenFromRequest r" r L N "up_log answers" p now now' rq body_read st])
  fix vt m
  let ?seam = "effective_seam p (req_header r)"
  assume v: "Validate L (ep_validator p) now now' (extractTokenFromRequest r) (ps_metrics st) = (Inr vt, m)"
    and g: "record_grant vt"
    and fw: "egress_serve L N (up_log answers) p now now' rq body_read r st =
      egress_forward N (up_log answers) p rq r body_read vt ?seam (st\<lparr>ps_metrics := m\<rparr>)"
  have "validate_token L (ep_validator p) now now' (extractTokenFromRequest r) = Inr vt"
    using v by (simp add: Validate_def Let_def)
  note vt = validate_accepts_room(1,4) [OF this]
  obtain lookups forwards where log:
    "ps_upstream (snd (egress_serve L N (up_log answers) p now now' rq body_read r st)) = ps_upstream st @ lookups @ forwards"
    "lookups = [] \<or> (\<exists>payload. lookups = [lookup_request p payload (header_get r ''Authorization'')])"
    "forwards = [] \<or> (\<exists>whole b. body_read = Some whole \<and> forwards = [forwarded_request p rq r b] \<and>
        fst (authorizeEgressTenant N (up_log answers) p (egress_method r) (header_get r ''Content-Type'')
          (take max_egress_body whole) vt (header_get r ''Authorization'') (ps_upstream st)))"
    using forward_log [of N answers p rq r body_read vt ?seam "st\<lparr>ps_metrics := m\<rparr>"] unfolding fw by auto
  from log(3) show ?thesis
  proof
    assume "forwards = []"
    with log(1,2) show ?thesis by (intro exI [of _ lookups] exI [of _ forwards]) simp
  next
    assume "\<exists>whole b. body_read = Some whole \<and> forwards = [forwarded_request p rq r b] \<and>
        fst (authorizeEgressTenant N (up_log answers) p (egress_method r) (header_get r ''Content-Type'')
          (take max_egress_body whole) vt (header_get r ''Authorization'') (ps_upstream st))"
    then obtain whole b where b: "body_read = Some whole" "forwards = [forwarded_request p rq r b]"
      and auth: "fst (authorizeEgressTenant N (up_log answers) p (egress_method r) (header_get r ''Content-Type'')
          (take max_egress_body whole) vt (header_get r ''Authorization'') (ps_upstream st))" by blast
    from authorize_target [OF auth vt(2) vt(1)] log(1,2) b v g show ?thesis
      by (intro exI [of _ lookups] exI [of _ forwards]) auto
  qed
qed auto

text \<open>
  No header of the storage seam, no broker secret and no hop-by-hop header is sent upstream, and
  every other header of the request is, with its values in their order.
\<close>

theorem forwarded_headers_exact:
  assumes "go_map (req_header r)"
  shows "map_of (up_header (forwarded_request p rq r b)) k =
    (if hop_header k then None
     else case map_of (req_header r) k of Some (v # vs) \<Rightarrow> Some (v # vs) | _ \<Rightarrow> None)"
  using copy_lookup [OF assms, of "[]" k]
  by (auto simp: forwarded_request_def split: option.split list.split)

text \<open>
  C27. Spoofed storage headers have no effect: unless the broker secret is configured and presented, the
  answer, the metrics and everything sent upstream are the same as if the request carried none of the
  storage headers.
\<close>

theorem spoofed_storage_headers_ignored:
  assumes "ep_broker_secret p = [] \<or> trim_space (header_get r StorageBrokerAuthHeader) \<noteq> ep_broker_secret p"
  shows "egress_serve L N client p now now' rq body_read r st =
    egress_serve L N client p now now' rq body_read (without_storage_headers r) st"
proof -
  have seam: "effective_seam p (req_header r) = None"
    using assms by (auto simp: effective_seam_iff)
  have m: "req_method (without_storage_headers r) = req_method r"
    by (simp add: without_storage_headers_def)
  show ?thesis
    by (simp only: egress_serve_def seam without_storage_seam without_storage_forward without_storage_extract m)
qed

text \<open>A codec, proxy and request for the witnesses.\<close>

definition sample_request :: "unit egress_request" where
  "sample_request = RoomCompositeEgress ''acme:a''
     \<lparr>eo_file = None, eo_segments = None,
      eo_file_outputs = [Some \<lparr>ef_filepath = ''rec.mp4'', ef_output = UploadOther (), ef_other = ()\<rparr>],
      eo_segment_outputs = [], eo_image_outputs = []\<rparr> ()"

definition sample_codec :: "unit egress_codec" where
  "sample_codec =
     \<lparr>cd_unmarshal = (\<lambda>discard js kind body.
        if body = ''plain'' then Some sample_request
        else if body = ''redirected'' then Some (snd (applySeamToEgress sample_seam sample_request)) else None),
      cd_marshal = (\<lambda>js m. if m = snd (applySeamToEgress sample_seam sample_request) then Some ''redirected'' else None)\<rparr>"

definition sample_env :: "unit egress_env2" where
  "sample_env = \<lparr>en_codec = sample_codec, en_id = (\<lambda>js k b. None), en_list_room = (\<lambda>js b. None),
     en_list_by_id = (\<lambda>i. None), en_list_items = (\<lambda>b. None)\<rparr>"

definition sample_proxy :: egress_proxy where
  "sample_proxy = \<lparr>ep_validator = sample_validator, ep_upstream = the (url_Parse ''http://127.0.0.1:7880''),
     ep_broker_secret = ''shh''\<rparr>"

definition sample_start :: http_request where
  "sample_start = \<lparr>req_method = ''POST'', req_path = ''/twirp/livekit.Egress/StartRoomCompositeEgress'', req_query = [],
     req_header = [(''Authorization'', [''Bearer acme:a'']), (''Content-Type'', [''application/json'']),
       (''X-Vulos-Storage-Endpoint'', [''https://evil''])],
     req_remote_addr = [], req_body = []\<rparr>"

theorem forwarded_headers_exact_witness:
  "map_of (up_header (forwarded_request sample_proxy [] sample_start [])) ''X-Vulos-Storage-Endpoint'' = None \<and>
   map_of (up_header (forwarded_request sample_proxy [] sample_start [])) ''Content-Type'' = Some [''application/json'']"
proof -
  have "go_map (req_header sample_start)" by (simp add: sample_start_def)
  moreover have "hop_header ''X-Vulos-Storage-Endpoint''" "\<not> hop_header ''Content-Type''" by code_simp+
  ultimately show ?thesis using forwarded_headers_exact [of sample_start sample_proxy "[]" "[]"]
    by (simp add: sample_start_def)
qed

theorem spoofed_storage_headers_ignored_witness:
  "egress_serve (sample_lib 0) sample_env (up_log (\<lambda>_ _. None)) sample_proxy 0 0 [] (Some ''plain'') sample_start
     \<lparr>ps_metrics = None, ps_upstream = []\<rparr> =
   egress_serve (sample_lib 0) sample_env (up_log (\<lambda>_ _. None)) sample_proxy 0 0 [] (Some ''plain'')
     (without_storage_headers sample_start) \<lparr>ps_metrics = None, ps_upstream = []\<rparr>"
  by (rule spoofed_storage_headers_ignored)
    (simp add: sample_proxy_def sample_start_def values_get_def StorageBrokerAuthHeader_def)

text \<open>
  Under the seam what is forwarded is bound to the injected bucket: with a codec that decodes what it
  encodes, the body that results from the rewriting decodes to a request for the same room of which every
  artifact is uploaded to the injected destination under the injected key prefix.
\<close>

theorem rewritten_body_stays_in_bucket:
  assumes "\<And>m out d k. cd_marshal C j m = Some out \<Longrightarrow> cd_unmarshal C d j k out = Some m"
    and "j = bodyIsJSON ct" and "egressRequestForMethod method = Some kind"
    and "cd_unmarshal C False j kind body = Some m"
    and "rewriteEgressBodyForSeam C method ct body s = Some (out, changed)"
  shows "\<exists>m'. cd_unmarshal C False j kind (if changed then out else body) = Some m' \<and>
    request_room m' = request_room m \<and> length (artifacts m') = length (artifacts m) \<and>
    list_all (\<lambda>(key, up). up = UploadS3 (s3Upload s) \<and> prefix (KeyPrefix s) key) (artifacts m')"
proof -
  obtain c m' where m': "applySeamToEgress s m = (c, m')" by fastforce
  have arts: "artifacts m' = map (redirected s) (artifacts m)" and room: "request_room m' = request_room m"
    and same: "c \<or> m' = m"
    using request_seam.arts_rewrite [of s m] request_room_seam [of s m] request_seam.unchanged [of s m] m' by auto
  have "cd_unmarshal C False j kind (if changed then out else body) = Some m'"
    using assms m' same by (auto simp: rewriteEgressBodyForSeam_def split: bool.splits)
  then show ?thesis
    using arts room by (auto simp: list_all_iff redirected_def prefixKey_def)
qed

theorem rewritten_body_stays_in_bucket_witness:
  "\<exists>m'. cd_unmarshal sample_codec False True RoomComposite ''redirected'' = Some m' \<and>
    request_room m' = ''acme:a'' \<and>
    list_all (\<lambda>(key, up). up = UploadS3 (s3Upload sample_seam) \<and> prefix (KeyPrefix sample_seam) key) (artifacts m')"
proof -
  have rt: "cd_unmarshal sample_codec d True k out = Some m" if "cd_marshal sample_codec True m = Some out" for m out d k
    using that by (auto simp: sample_codec_def split: if_splits)
  have j: "True = bodyIsJSON ''application/json''" by code_simp
  have k: "egressRequestForMethod ''StartRoomCompositeEgress'' = Some RoomComposite"
    by (simp add: egressRequestForMethod_def)
  have u: "cd_unmarshal sample_codec False True RoomComposite ''plain'' = Some sample_request"
    by (simp add: sample_codec_def)
  have c: "fst (applySeamToEgress sample_seam sample_request)"
    by (simp add: request_seam.changed_iff) (simp add: sample_request_def output_artifacts_def file_artifacts_def)
  then have r: "rewriteEgressBodyForSeam sample_codec ''StartRoomCompositeEgress'' ''application/json'' ''plain'' sample_seam =
      Some (''redirected'', True)"
    using j by (cases "applySeamToEgress sample_seam sample_request")
      (simp add: rewriteEgressBodyForSeam_def k sample_codec_def)
  have "request_room sample_request = ''acme:a''" by (simp add: sample_request_def)
  then show ?thesis using rewritten_body_stays_in_bucket [OF rt j k u r] by auto
qed

text \<open>
  Which encoding the guard reads is decided by the text \<open>json\<close> anywhere in the content type: a
  protobuf content type with a parameter that mentions it is decided on the JSON reading of the body,
  while the content type is forwarded as it was given.
\<close>

theorem content_type_parameter_selects_json:
  "bodyIsJSON ''application/protobuf; x=json'' \<and>
   authorizeEgressTenant N client p method ''application/protobuf; x=json'' body vt auth u =
     authorizeEgressTenant N client p method ''application/json'' body vt auth u \<and>
   map_of (up_header (forwarded_request p rq (sample_start\<lparr>req_header :=
     [(''Content-Type'', [''application/protobuf; x=json''])]\<rparr>) b)) ''Content-Type'' = Some [''application/protobuf; x=json'']"
proof -
  have j: "bodyIsJSON ''application/protobuf; x=json''" "bodyIsJSON ''application/json''" by code_simp+
  then have "egressBodyRoomName N meth ''application/protobuf; x=json'' body = egressBodyRoomName N meth ''application/json'' body"
    and "egressBodyID N meth ''application/protobuf; x=json'' body = egressBodyID N meth ''application/json'' body" for meth
    by (simp_all add: egressBodyRoomName_def egressBodyID_def decodeEgressBody_def)
  moreover have "\<not> hop_header ''Content-Type''" by code_simp
  ultimately show ?thesis
    using j copy_lookup [of "[(''Content-Type'', [''application/protobuf; x=json''])]" "[]" "''Content-Type''"]
    by (simp add: authorizeEgressTenant_def forwarded_request_def)
qed

text \<open>
  Every request is counted once in the egress metric, under the outcome its status tells: forwarded
  with the upstream's answer as \<open>ok\<close>, refused as \<open>forbidden\<close> (403), \<open>unauthorized\<close> (401) or \<open>rejected\<close>
  (400, 405), and \<open>bad_gateway\<close> (502).
\<close>

theorem egress_requests_counted_once:
  "case egress_serve L N client p now now' rq body_read r \<lparr>ps_metrics = Some m, ps_upstream = u\<rparr> of (rsp, st') \<Rightarrow>
     \<exists>oc m'. ps_metrics st' = Some m' \<and> m_egressRequests m' = bump (egress_outcome_label oc) (m_egressRequests m) \<and>
       outcome_status (req_method r) oc (rsp_status rsp)"
  using counted_serve [of "\<lparr>ps_metrics = Some m, ps_upstream = u\<rparr>" m r L N client p now now' rq body_read]
  by (simp add: counted_once_def case_prod_beta)

end
