(* ===== verification/Cp_Client.thy ===== *)
theory Cp_Client
  imports Egress_Receiver
begin

text \<open>
  The control-plane usage client (\<^verbatim>\<open>internal/cp/usage.go\<close>): a bounded queue filled by \<open>Report\<close>,
  one background worker that posts the events with bounded retries, and \<open>Close\<close>. The HTTP client is a
  parameter; whether the configured URL parses is a flag. Calls and the steps of the worker interleave
  in any order. The lemmas show that the caller is never blocked, that events are settled in order and
  none disappears uncounted, and how a shutdown ends.
\<close>

section \<open>Configuration\<close>

definition Product :: string where "Product = ''meet''"
definition KindMeetMinutes :: string where "KindMeetMinutes = ''meet_minutes''"

record usage_event =
  ue_product :: string
  ue_account_id :: string
  ue_kind :: string
  ue_count :: int
  ue_idempotency_key :: string

record cp_config =
  cp_url :: string
  cp_shared_secret :: string
  cp_max_attempts :: int
  cp_base_backoff :: duration
  cp_queue_size :: int

datatype cp_error = CpMissingURL

text \<open>
  The client: its queue (a buffered channel), whether \<open>Close\<close> has closed it, the event the worker is
  posting, the drop counter and the state of the HTTP client.
\<close>

record 'c usage_client =
  uc_cfg :: cp_config
  uc_queue :: "usage_event list"
  uc_closed :: bool
  uc_busy :: "usage_event option"
  uc_dropped :: int
  uc_net :: 'c

definition NewUsageClient :: "cp_config \<Rightarrow> 'c \<Rightarrow> cp_error + 'c usage_client" where
  "NewUsageClient cfg net =
     (if cp_url cfg = [] then Inl CpMissingURL
      else
        let cfg = (if cp_max_attempts cfg \<le> 0 then cfg\<lparr>cp_max_attempts := 4\<rparr> else cfg);
            cfg = (if cp_base_backoff cfg \<le> 0 then cfg\<lparr>cp_base_backoff := 250 * millisecond\<rparr> else cfg);
            cfg = (if cp_queue_size cfg \<le> 0 then cfg\<lparr>cp_queue_size := 1024\<rparr> else cfg)
        in Inr \<lparr>uc_cfg = cfg, uc_queue = [], uc_closed = False, uc_busy = None, uc_dropped = 0, uc_net = net\<rparr>)"

section \<open>Reporting\<close>

text \<open>
  A send on a closed channel panics, also inside a \<open>select\<close> with a default: \<open>None\<close> is the panic.
\<close>

definition enqueue :: "usage_event \<Rightarrow> 'c usage_client \<Rightarrow> 'c usage_client option" where
  "enqueue ev c =
     (if uc_closed c then None
      else if int (length (uc_queue c)) < cp_queue_size (uc_cfg c) then Some (c\<lparr>uc_queue := uc_queue c @ [ev]\<rparr>)
      else Some (c\<lparr>uc_dropped := uc_dropped c + 1\<rparr>))"

text \<open>The outer option of the client is Go's nil pointer.\<close>

definition Report ::
  "string \<Rightarrow> string \<Rightarrow> int \<Rightarrow> string \<Rightarrow> 'c usage_client option \<Rightarrow> 'c usage_client option option" where
  "Report account kind count key c =
     (case c of
        None \<Rightarrow> Some None
      | Some cl \<Rightarrow>
          if account = [] \<or> count \<le> 0 then Some c
          else map_option Some (enqueue
            \<lparr>ue_product = Product, ue_account_id = account, ue_kind = kind, ue_count = count,
              ue_idempotency_key = key\<rparr> cl))"

definition ReportMeetMinutes ::
  "string \<Rightarrow> int \<Rightarrow> string \<Rightarrow> 'c usage_client option \<Rightarrow> 'c usage_client option option" where
  "ReportMeetMinutes accountID minutes key c =
     (case c of
        None \<Rightarrow> Some None
      | Some cl \<Rightarrow>
          if accountID = [] \<or> minutes \<le> 0 then Some c
          else map_option Some (enqueue
            \<lparr>ue_product = Product, ue_account_id = accountID, ue_kind = KindMeetMinutes, ue_count = minutes,
              ue_idempotency_key = key\<rparr> cl))"

definition Dropped :: "'c usage_client option \<Rightarrow> int" where
  "Dropped c = (case c of None \<Rightarrow> 0 | Some cl \<Rightarrow> uc_dropped cl)"

section \<open>Posting\<close>

definition event_json :: "usage_event \<Rightarrow> string" where
  "event_json ev =
     ''{'' @ join_with '',''
       (map (\<lambda>(k, v). json_quote k @ '':'' @ v)
         ([(''product'', json_quote (ue_product ev)), (''account_id'', json_quote (ue_account_id ev)),
           (''kind'', json_quote (ue_kind ev)), (''count'', show_int (ue_count ev))] @
          (if ue_idempotency_key ev = [] then []
           else [(''idempotency_key'', json_quote (ue_idempotency_key ev))]))) @ ''}''"

definition usage_request :: "cp_config \<Rightarrow> usage_event \<Rightarrow> out_request" where
  "usage_request cfg ev =
     \<lparr>or_method = ''POST'', or_url = cp_url cfg @ ''/api/usage'',
      or_header = [(''Content-Type'', ''application/json'')] @
        (if cp_shared_secret cfg = [] then [] else [(''X-Relay-Auth'', cp_shared_secret cfg)]) @
        (if ue_idempotency_key ev = [] then [] else [(''Idempotency-Key'', ue_idempotency_key ev)]),
      or_body = event_json ev\<rparr>"

datatype post_result = PostDelivered | PostUnbuildable | PostRejected | PostGaveUp

text \<open>
  The attempts from number \<open>k\<close>, \<open>n\<close> of them left, with the waits that were started. \<open>closing k\<close> says
  whether the wait before attempt \<open>k\<close> ends because the client is closing; the attempt is made anyway.
\<close>

fun post_loop ::
  "'c http_client \<Rightarrow> out_request \<Rightarrow> (nat \<Rightarrow> bool) \<Rightarrow> bool \<Rightarrow> nat \<Rightarrow> nat \<Rightarrow> duration \<Rightarrow> 'c \<Rightarrow>
     post_result \<times> duration list \<times> 'c" where
  "post_loop client req closing url_ok 0 k backoff net = (PostGaveUp, [], net)"
| "post_loop client req closing url_ok (Suc n) k backoff net =
     (let waits = (if 0 < k \<and> \<not> closing k then [backoff] else []);
          backoff = (if 0 < k then wrap64 (2 * backoff) else backoff)
      in if \<not> url_ok then (PostUnbuildable, waits, net)
         else case client req net of
           (Inl e, net) \<Rightarrow>
             (let (r, ws, net) = post_loop client req closing url_ok n (Suc k) backoff net in (r, waits @ ws, net))
         | (Inr status, net) \<Rightarrow>
             if 200 \<le> status \<and> status < 300 then (PostDelivered, waits, net)
             else if 400 \<le> status \<and> status < 500 then (PostRejected, waits, net)
             else (let (r, ws, net) = post_loop client req closing url_ok n (Suc k) backoff net
                   in (r, waits @ ws, net)))"

definition post_event ::
  "'c http_client \<Rightarrow> (nat \<Rightarrow> bool) \<Rightarrow> bool \<Rightarrow> usage_event \<Rightarrow> cp_config \<Rightarrow> 'c \<Rightarrow> post_result \<times> duration list \<times> 'c" where
  "post_event client closing url_ok ev cfg net =
     post_loop client (usage_request cfg ev) closing url_ok (nat (cp_max_attempts cfg)) 0 (cp_base_backoff cfg) net"

text \<open>\<open>post\<close> and what it adds to the drop counter.\<close>

fun counts_drop :: "post_result \<Rightarrow> int" where
  "counts_drop PostDelivered = 0"
| "counts_drop PostUnbuildable = 0"
| "counts_drop PostRejected = 1"
| "counts_drop PostGaveUp = 1"

definition post ::
  "'c http_client \<Rightarrow> (nat \<Rightarrow> bool) \<Rightarrow> bool \<Rightarrow> usage_event \<Rightarrow> 'c usage_client \<Rightarrow> post_result \<times> 'c usage_client" where
  "post client closing url_ok ev c =
     (case post_event client closing url_ok ev (uc_cfg c) (uc_net c) of
        (r, _, net) \<Rightarrow> (r, c\<lparr>uc_net := net, uc_dropped := uc_dropped c + counts_drop r\<rparr>))"

section \<open>Calls and the worker\<close>

text \<open>
  The body of \<open>drain\<close> as two steps, taking the next event and posting it, so that calls can fall in
  between; \<open>Close\<close> closes the queue once.
\<close>

definition drain_take :: "'c usage_client \<Rightarrow> 'c usage_client" where
  "drain_take c =
     (case (uc_busy c, uc_queue c) of
        (None, ev # q) \<Rightarrow> c\<lparr>uc_busy := Some ev, uc_queue := q\<rparr>
      | _ \<Rightarrow> c)"

definition drain_post ::
  "'c http_client \<Rightarrow> (nat \<Rightarrow> bool) \<Rightarrow> bool \<Rightarrow> 'c usage_client \<Rightarrow> (usage_event \<times> post_result) option \<times> 'c usage_client" where
  "drain_post client closing url_ok c =
     (case uc_busy c of
        None \<Rightarrow> (None, c)
      | Some ev \<Rightarrow>
          let (r, c') = post client closing url_ok ev c in (Some (ev, r), c'\<lparr>uc_busy := None\<rparr>))"

definition Close_begin :: "'c usage_client \<Rightarrow> 'c usage_client" where
  "Close_begin c = c\<lparr>uc_closed := True\<rparr>"

text \<open>\<open>drain\<close> without interruption: every queued event in turn.\<close>

fun drain_queue ::
  "'c http_client \<Rightarrow> (nat \<Rightarrow> bool) \<Rightarrow> bool \<Rightarrow> usage_event list \<Rightarrow> 'c usage_client \<Rightarrow>
     (usage_event \<times> post_result) list \<times> 'c usage_client" where
  "drain_queue client closing url_ok [] c = ([], c)"
| "drain_queue client closing url_ok (ev # q) c =
     (let (r, c) = post client closing url_ok ev (c\<lparr>uc_queue := q\<rparr>);
          (rs, c) = drain_queue client closing url_ok q c
      in ((ev, r) # rs, c))"

text \<open>
  \<open>Close\<close>: the worker finishes the event it is posting, drains the queue and exits before \<open>Close\<close>
  returns.
\<close>

definition Close ::
  "'c http_client \<Rightarrow> (nat \<Rightarrow> bool) \<Rightarrow> bool \<Rightarrow> 'c usage_client \<Rightarrow> (usage_event \<times> post_result) list \<times> 'c usage_client" where
  "Close client closing url_ok c =
     (let (first, c) = drain_post client closing url_ok (Close_begin c);
          (rs, c) = drain_queue client closing url_ok (uc_queue c) c
      in ((case first of None \<Rightarrow> [] | Some x \<Rightarrow> [x]) @ rs, c))"

section \<open>Histories\<close>

text \<open>
  A history of the client: the events given to \<open>enqueue\<close> that found room, those that did not, and the
  events settled by the worker with their results.
\<close>

record cp_history =
  h_accepted :: "usage_event list"
  h_refused :: "usage_event list"
  h_settled :: "(usage_event \<times> post_result) list"

definition no_history :: cp_history where
  "no_history = \<lparr>h_accepted = [], h_refused = [], h_settled = []\<rparr>"

inductive cp_step ::
  "'c http_client \<Rightarrow> bool \<Rightarrow> 'c usage_client \<times> cp_history \<Rightarrow> 'c usage_client \<times> cp_history \<Rightarrow> bool"
  for client url_ok where
  enqueue_accept: "enqueue ev c = Some c' \<Longrightarrow> uc_queue c' \<noteq> uc_queue c \<Longrightarrow>
     cp_step client url_ok (c, h) (c', h\<lparr>h_accepted := h_accepted h @ [ev]\<rparr>)"
| enqueue_refuse: "enqueue ev c = Some c' \<Longrightarrow> uc_queue c' = uc_queue c \<Longrightarrow>
     cp_step client url_ok (c, h) (c', h\<lparr>h_refused := h_refused h @ [ev]\<rparr>)"
| worker_take: "cp_step client url_ok (c, h) (drain_take c, h)"
| worker_post: "drain_post client closing url_ok c = (Some x, c') \<Longrightarrow>
     cp_step client url_ok (c, h) (c', h\<lparr>h_settled := h_settled h @ [x]\<rparr>)"
| close: "cp_step client url_ok (c, h) (Close_begin c, h)"

inductive cp_reaches ::
  "'c http_client \<Rightarrow> bool \<Rightarrow> 'c usage_client \<Rightarrow> 'c usage_client \<times> cp_history \<Rightarrow> bool"
  for client url_ok c0 where
  start: "cp_reaches client url_ok c0 (c0, no_history)"
| more: "cp_reaches client url_ok c0 s \<Longrightarrow> cp_step client url_ok s s' \<Longrightarrow> cp_reaches client url_ok c0 s'"

inductive_cases cp_stepE: "cp_step client url_ok (c, h) (c', h')"

section \<open>Lemmas on the queue\<close>

definition total_drops :: "(usage_event \<times> post_result) list \<Rightarrow> int" where
  "total_drops xs = sum_list (map (\<lambda>x. counts_drop (snd x)) xs)"

lemma total_drops_simps [simp]:
  "total_drops [] = 0" "total_drops (x # xs) = counts_drop (snd x) + total_drops xs"
  "total_drops (xs @ ys) = total_drops xs + total_drops ys"
  by (simp_all add: total_drops_def)

definition cp_inv :: "'c usage_client \<times> cp_history \<Rightarrow> bool" where
  "cp_inv s \<longleftrightarrow> (let (c, h) = s in
     h_accepted h = map fst (h_settled h) @ (case uc_busy c of None \<Rightarrow> [] | Some ev \<Rightarrow> [ev]) @ uc_queue c \<and>
     uc_dropped c = int (length (h_refused h)) + total_drops (h_settled h) \<and>
     0 < cp_queue_size (uc_cfg c) \<and> int (length (uc_queue c)) \<le> cp_queue_size (uc_cfg c))"

lemma post_simps [simp]:
  "uc_queue (snd (post client closing ok ev c)) = uc_queue c"
  "uc_busy (snd (post client closing ok ev c)) = uc_busy c"
  "uc_closed (snd (post client closing ok ev c)) = uc_closed c"
  "uc_cfg (snd (post client closing ok ev c)) = uc_cfg c"
  "uc_dropped (snd (post client closing ok ev c)) = uc_dropped c + counts_drop (fst (post client closing ok ev c))"
  by (simp_all add: post_def split: prod.split)

lemma cp_inv_new: "NewUsageClient cfg net = Inr c \<Longrightarrow> cp_inv (c, no_history)"
  by (auto simp: NewUsageClient_def cp_inv_def no_history_def Let_def split: if_splits)

lemma cp_inv_step [keeps]:
  assumes "cp_step client url_ok s s'" "cp_inv s" shows "cp_inv s'"
  using assms
proof cases
  case (enqueue_accept ev c c' h)
  then show ?thesis using assms(2)
    by (auto simp: cp_inv_def enqueue_def split: if_splits)
next
  case (enqueue_refuse ev c c' h)
  then show ?thesis using assms(2)
    by (auto simp: cp_inv_def enqueue_def split: if_splits)
next
  case (worker_take c h)
  then show ?thesis using assms(2)
    by (auto simp: cp_inv_def drain_take_def split: option.split list.split)
next
  case (worker_post closing c x c' h)
  then show ?thesis using assms(2)
    by (auto simp: cp_inv_def drain_post_def case_prod_beta split: option.splits)
next
  case (close c h)
  then show ?thesis using assms(2)
    by (simp add: cp_inv_def Close_begin_def)
qed

lemma cp_inv_reaches [keeps]: "cp_reaches client url_ok c0 s \<Longrightarrow> cp_inv (c0, no_history) \<Longrightarrow> cp_inv s"
  by (induction rule: cp_reaches.induct) (auto intro: cp_inv_step)

lemma drain_queue_simps:
  "map fst (fst (drain_queue client closing ok q c)) = q"
  "uc_dropped (snd (drain_queue client closing ok q c)) = uc_dropped c + total_drops (fst (drain_queue client closing ok q c))"
  "uc_busy (snd (drain_queue client closing ok q c)) = uc_busy c"
  "uc_closed (snd (drain_queue client closing ok q c)) = uc_closed c"
  by (induction q arbitrary: c) (simp_all add: case_prod_beta Let_def)

lemma drain_queue_empties: "uc_queue c = q \<Longrightarrow> uc_queue (snd (drain_queue client closing ok q c)) = []"
  by (induction q arbitrary: c) (simp_all add: case_prod_beta Let_def)

text \<open>The retry loop of the client is the forward loop of the egress receiver, seen through its result.\<close>

fun as_forward_result :: "post_result \<Rightarrow> bool" where
  "as_forward_result PostDelivered = True"
| "as_forward_result _ = False"

lemma post_loop_forward_loop:
  "case forward_loop client req (\<lambda>_. False) url_ok n k backoff e net of (r, ws, net') \<Rightarrow>
     (case post_loop client req (\<lambda>_. False) url_ok n k backoff net of (r', ws', net'') \<Rightarrow>
        net'' = net' \<and> ws' = ws \<and> (as_forward_result r' \<longleftrightarrow> r = None))"
proof (induction n arbitrary: k backoff e net)
  case (Suc n)
  obtain a net' where step: "client req net = (a, net')" by fastforce
  show ?case
    using Suc.IH [where k = "Suc k" and backoff = "if 0 < k then wrap64 (2 * backoff) else backoff" and net = net']
    by (cases a; cases "k = 0"; cases url_ok) (simp_all add: step Let_def case_prod_beta)
qed (simp split: option.split)

lemma post_loop_closing_irrelevant:
  "(let (r, _, net') = post_loop client req closing url_ok n k backoff net in (r, net')) =
   (let (r, _, net') = post_loop client req (\<lambda>_. False) url_ok n k backoff net in (r, net'))"
proof (induction n arbitrary: k backoff net)
  case (Suc n)
  obtain a net' where step: "client req net = (a, net')" by fastforce
  show ?case
    using Suc.IH [where k = "Suc k" and backoff = "if 0 < k then wrap64 (2 * backoff) else backoff" and net = net']
    by (cases a; cases "k = 0"; cases url_ok) (simp_all add: step Let_def case_prod_beta)
qed simp

section \<open>Lemmas on shutdown\<close>

lemma drain_first:
  assumes "drain_post client closing url_ok (Close_begin c) = (first, c1)"
  shows "uc_busy c1 = None \<and> uc_closed c1 \<and> uc_queue c1 = uc_queue c \<and> uc_cfg c1 = uc_cfg c \<and>
    uc_dropped c1 = uc_dropped c + (case first of None \<Rightarrow> 0 | Some x \<Rightarrow> counts_drop (snd x)) \<and>
    map_option fst first = uc_busy c"
  using assms by (auto simp: drain_post_def Close_begin_def case_prod_beta split: option.splits)

lemma Close_closed: "uc_closed (snd (Close client closing url_ok c))"
  using drain_first [OF prod.collapse [symmetric], of client closing url_ok c]
  by (auto simp: Close_def case_prod_beta drain_queue_simps)

lemma post_unbuildable:
  assumes "0 < cp_max_attempts (uc_cfg c)"
  shows "post client closing False ev c = (PostUnbuildable, c)"
proof -
  obtain n where "nat (cp_max_attempts (uc_cfg c)) = Suc n"
    using assms by (metis gr0_implies_Suc zero_less_nat_eq)
  then show ?thesis by (simp add: post_def post_event_def)
qed

lemma drain_unbuildable:
  assumes "0 < cp_max_attempts (uc_cfg c)"
  shows "drain_queue client closing False q c =
    (map (\<lambda>ev. (ev, PostUnbuildable)) q, if q = [] then c else c\<lparr>uc_queue := []\<rparr>)"
  using assms by (induction q arbitrary: c) (simp_all add: post_unbuildable)

section \<open>What the drop counter counts\<close>

text \<open>The settled events that did not reach the control plane, whatever was counted for them.\<close>

definition undelivered :: "(usage_event \<times> post_result) list \<Rightarrow> nat" where
  "undelivered xs = length (filter (\<lambda>x. snd x \<noteq> PostDelivered) xs)"

lemma undelivered_simps [simp]:
  "undelivered [] = 0" "undelivered (x # xs) = (if snd x = PostDelivered then 0 else 1) + undelivered xs"
  "undelivered (xs @ ys) = undelivered xs + undelivered ys"
  by (simp_all add: undelivered_def)

lemma post_loop_result:
  "fst (post_loop client req closing True n k backoff net) \<noteq> PostUnbuildable"
proof (induction n arbitrary: k backoff net)
  case (Suc n)
  then show ?case by (simp add: Let_def case_prod_beta split: sum.split prod.split)
qed simp

text \<open>With a URL that parses a failure is counted; with one that does not, a failed post costs nothing.\<close>

definition failures_counted :: "bool \<Rightarrow> 'c usage_client \<Rightarrow> bool" where
  "failures_counted url_ok c \<longleftrightarrow> url_ok \<or> cp_max_attempts (uc_cfg c) \<le> 0"

lemma post_counts:
  "counts_drop (fst (post client closing url_ok ev c)) =
     (if failures_counted url_ok c \<and> fst (post client closing url_ok ev c) \<noteq> PostDelivered then 1 else 0)"
proof (cases "failures_counted url_ok c")
  case True
  have "fst (post client closing url_ok ev c) \<noteq> PostUnbuildable"
  proof (cases url_ok)
    case True
    then show ?thesis using post_loop_result by (simp add: post_def post_event_def case_prod_beta)
  next
    case False
    with True show ?thesis by (simp add: failures_counted_def post_def post_event_def)
  qed
  with True show ?thesis by (cases "fst (post client closing url_ok ev c)") simp_all
next
  case False
  then show ?thesis by (simp add: failures_counted_def post_unbuildable)
qed

lemma failures_counted_cfg: "uc_cfg c' = uc_cfg c \<Longrightarrow> failures_counted url_ok c' = failures_counted url_ok c"
  by (simp add: failures_counted_def)

lemma drain_queue_counts:
  "uc_dropped (snd (drain_queue client closing url_ok q c)) = uc_dropped c +
     (if failures_counted url_ok c then int (undelivered (fst (drain_queue client closing url_ok q c))) else 0)"
proof (induction q arbitrary: c)
  case (Cons ev q)
  have "failures_counted url_ok (snd (post client closing url_ok ev (c\<lparr>uc_queue := q\<rparr>))) = failures_counted url_ok c"
    "failures_counted url_ok (c\<lparr>uc_queue := q\<rparr>) = failures_counted url_ok c"
    by (simp_all add: failures_counted_def)
  then show ?case by (simp add: Cons.IH case_prod_beta Let_def post_counts)
qed simp

lemma drain_post_counts:
  assumes "drain_post client closing url_ok c = (first, c')"
  shows "uc_dropped c' = uc_dropped c + (if failures_counted url_ok c
      then int (undelivered (case first of None \<Rightarrow> [] | Some x \<Rightarrow> [x])) else 0) \<and>
    failures_counted url_ok c' = failures_counted url_ok c"
  using assms
  by (auto simp: drain_post_def case_prod_beta Let_def post_counts failures_counted_def split: option.splits)

text \<open>The account of a made client, in every history.\<close>

definition drop_inv :: "bool \<Rightarrow> 'c usage_client \<times> cp_history \<Rightarrow> bool" where
  "drop_inv url_ok s \<longleftrightarrow> (let (c, h) = s in
     0 < cp_max_attempts (uc_cfg c) \<and>
     (if url_ok then uc_dropped c = int (length (h_refused h) + undelivered (h_settled h))
      else uc_dropped c = int (length (h_refused h)) \<and> undelivered (h_settled h) = length (h_settled h)))"

lemma drop_inv_new: "NewUsageClient cfg net = Inr c \<Longrightarrow> drop_inv url_ok (c, no_history)"
  by (auto simp: NewUsageClient_def drop_inv_def no_history_def Let_def split: if_splits)

lemma drop_inv_step [keeps]:
  assumes "cp_step client url_ok s s'" "drop_inv url_ok s" shows "drop_inv url_ok s'"
  using assms
proof cases
  case (enqueue_accept ev c c' h)
  then show ?thesis using assms(2) by (auto simp: drop_inv_def enqueue_def split: if_splits)
next
  case (enqueue_refuse ev c c' h)
  then show ?thesis using assms(2) by (auto simp: drop_inv_def enqueue_def split: if_splits)
next
  case (worker_take c h)
  then show ?thesis using assms(2) by (auto simp: drop_inv_def drain_take_def split: option.split list.split)
next
  case (worker_post closing c x c' h)
  obtain ev where x: "x = (ev, fst (post client closing url_ok ev c))"
      "c' = (snd (post client closing url_ok ev c))\<lparr>uc_busy := None\<rparr>"
    using worker_post(3) by (auto simp: drain_post_def case_prod_beta Let_def split: option.splits)
  have a: "0 < cp_max_attempts (uc_cfg c)" using assms(2) worker_post(1) by (simp add: drop_inv_def)
  show ?thesis
  proof (cases url_ok)
    case True
    then show ?thesis using assms(2) worker_post(1,2) x
      by (simp add: drop_inv_def post_counts failures_counted_def)
  next
    case False
    then show ?thesis using assms(2) worker_post(1,2) x a
      by (simp add: drop_inv_def post_unbuildable)
  qed
next
  case (close c h)
  then show ?thesis using assms(2) by (simp add: drop_inv_def Close_begin_def)
qed

lemma drop_inv_reaches [keeps]:
  "cp_reaches client url_ok c0 s \<Longrightarrow> drop_inv url_ok (c0, no_history) \<Longrightarrow> drop_inv url_ok s"
  by (induction rule: cp_reaches.induct) (auto intro: drop_inv_step)

section \<open>A sample client\<close>

definition sample_cp :: "cp_config" where
  "sample_cp = \<lparr>cp_url = ''https://cp'', cp_shared_secret = ''s'', cp_max_attempts = 4,
     cp_base_backoff = 250 * millisecond, cp_queue_size = 1\<rparr>"

definition sample_usage :: "string \<Rightarrow> usage_event" where
  "sample_usage key = \<lparr>ue_product = Product, ue_account_id = ''acme'', ue_kind = KindMeetMinutes,
     ue_count = 2, ue_idempotency_key = key\<rparr>"

definition sample_client :: "out_request list usage_client" where
  "sample_client = \<lparr>uc_cfg = sample_cp, uc_queue = [], uc_closed = False, uc_busy = None, uc_dropped = 0, uc_net = []\<rparr>"

lemma sample_client_new: "NewUsageClient sample_cp [] = Inr sample_client"
  by (simp add: NewUsageClient_def sample_cp_def sample_client_def millisecond_def)

section \<open>Properties\<close>

text \<open>
  C19. No usage event disappears uncounted while the URL parses, and events are settled in the order in
  which they were accepted: in every reachable state the accepted events are the settled ones, the one
  in flight and the queued ones, in this order; the queue never exceeds its bound; and the drop counter is
  the number of refused events plus the number of settled ones that were not delivered. With a URL that
  does not parse nothing is delivered and the counter shows the refused events only: what was settled is
  lost uncounted.
\<close>

theorem cp_conservation:
  assumes "NewUsageClient cfg net = Inr c0" "cp_reaches client url_ok c0 (c, h)"
  shows "h_accepted h = map fst (h_settled h) @ (case uc_busy c of None \<Rightarrow> [] | Some ev \<Rightarrow> [ev]) @ uc_queue c \<and>
    int (length (uc_queue c)) \<le> cp_queue_size (uc_cfg c) \<and>
    (if url_ok
     then uc_dropped c = int (length (h_refused h) + length (filter (\<lambda>x. snd x \<noteq> PostDelivered) (h_settled h)))
     else uc_dropped c = int (length (h_refused h)) \<and> PostDelivered \<notin> set (map snd (h_settled h)))"
proof -
  have "undelivered xs = length xs \<Longrightarrow> PostDelivered \<notin> set (map snd xs)" for xs
    using length_filter_less [of _ xs "\<lambda>x. snd x \<noteq> PostDelivered"] by (fastforce simp: undelivered_def)
  then show ?thesis
    using cp_inv_reaches [OF assms(2) cp_inv_new [OF assms(1)]]
      drop_inv_reaches [OF assms(2) drop_inv_new [OF assms(1)]]
    by (simp add: cp_inv_def drop_inv_def undelivered_def split: if_splits)
qed

theorem cp_conservation_witness:
  "uc_dropped (sample_client\<lparr>uc_queue := [sample_usage ''a''], uc_dropped := 1\<rparr>) =
     int (length [sample_usage ''b''])"
proof -
  let ?c1 = "sample_client\<lparr>uc_queue := [sample_usage ''a'']\<rparr>"
  let ?h1 = "no_history\<lparr>h_accepted := [sample_usage ''a'']\<rparr>"
  have "cp_step (log_client (\<lambda>_. Inr 204)) True (sample_client, no_history) (?c1, no_history\<lparr>h_accepted := h_accepted no_history @ [sample_usage ''a'']\<rparr>)"
    by (rule enqueue_accept) (simp_all add: enqueue_def sample_client_def sample_cp_def)
  then have 1: "cp_reaches (log_client (\<lambda>_. Inr 204)) True sample_client (?c1, ?h1)"
    by (intro more [OF start]) (simp add: no_history_def)
  have "cp_step (log_client (\<lambda>_. Inr 204)) True (?c1, ?h1) (?c1\<lparr>uc_dropped := 1\<rparr>, ?h1\<lparr>h_refused := h_refused ?h1 @ [sample_usage ''b'']\<rparr>)"
    by (rule enqueue_refuse) (simp_all add: enqueue_def sample_client_def sample_cp_def)
  from cp_conservation [OF sample_client_new more [OF 1 this]]
  show ?thesis by (simp add: no_history_def)
qed

text \<open>
  C39. Shutdown settles everything: when \<open>Close\<close> returns, the event in flight and every queued event
  has been posted, in order; the queue is empty, the worker idle and the queue closed. The drop counter
  has grown by exactly the number of events that were not delivered when the URL parses (or no attempt is
  configured, which a made client excludes); when it does not parse every one of them is lost and the
  counter stays.
\<close>

theorem close_settles_everything:
  "case Close client closing url_ok c of (settled, c') \<Rightarrow>
     map fst settled = (case uc_busy c of None \<Rightarrow> [] | Some ev \<Rightarrow> [ev]) @ uc_queue c \<and>
     uc_queue c' = [] \<and> uc_busy c' = None \<and> uc_closed c' \<and>
     uc_dropped c' = uc_dropped c +
       (if url_ok \<or> cp_max_attempts (uc_cfg c) \<le> 0
        then int (length (filter (\<lambda>x. snd x \<noteq> PostDelivered) settled)) else 0)"
proof -
  obtain first c1 where first: "drain_post client closing url_ok (Close_begin c) = (first, c1)"
    by fastforce
  have "failures_counted url_ok (Close_begin c) = (url_ok \<or> cp_max_attempts (uc_cfg c) \<le> 0)"
    "uc_dropped (Close_begin c) = uc_dropped c"
    by (simp_all add: failures_counted_def Close_begin_def)
  then show ?thesis
    using drain_first [OF first] drain_queue_empties [OF refl, of client closing url_ok c1]
      drain_post_counts [OF first]
    by (auto simp: Close_def first case_prod_beta drain_queue_simps(1,3,4) drain_queue_counts
        simp flip: undelivered_def split: option.splits)
qed

text \<open>
  C40. The event of one report is attempted at most the configured number of times, every attempt is the
  same request and so carries the same idempotency key in its header and its body, attempts stop at the
  first success or client error, and the event counts as delivered exactly when that answer is a
  success. Closing shortens the waits and nothing else.
\<close>

theorem cp_post_attempts:
  "case post_event (log_client answers) closing True ev cfg [] of (r, waits, sent) \<Rightarrow>
     (case first_final answers 0 (nat (cp_max_attempts cfg)) of
        Some i \<Rightarrow> sent = replicate (Suc i) (usage_request cfg ev) \<and> (r = PostDelivered \<longleftrightarrow> attempt_ok (answers i))
      | None \<Rightarrow> sent = replicate (nat (cp_max_attempts cfg)) (usage_request cfg ev) \<and> r \<noteq> PostDelivered) \<and>
     map_of (or_header (usage_request cfg ev)) ''Idempotency-Key'' =
       (if ue_idempotency_key ev = [] then None else Some (ue_idempotency_key ev))"
proof -
  let ?n = "nat (cp_max_attempts cfg)" and ?req = "usage_request cfg ev"
  have res: "as_forward_result r \<longleftrightarrow> r = PostDelivered" for r by (cases r) simp_all
  have hdr: "map_of (or_header ?req) ''Idempotency-Key'' =
      (if ue_idempotency_key ev = [] then None else Some (ue_idempotency_key ev))"
    by (simp add: usage_request_def)
  show ?thesis
    using forward_loop_outcome [where sent = "[]" and k = 0 and answers = answers and req = ?req and n = ?n
        and backoff = "cp_base_backoff cfg" and e = None]
      post_loop_forward_loop [where client = "log_client answers" and req = ?req and url_ok = True and n = ?n
        and k = 0 and backoff = "cp_base_backoff cfg" and e = None and net = "[]"]
      post_loop_closing_irrelevant [where client = "log_client answers" and req = ?req and url_ok = True
        and n = ?n and k = 0 and backoff = "cp_base_backoff cfg" and net = "[]" and closing = closing]
    by (simp add: post_event_def case_prod_beta Let_def res hdr split: option.splits)
qed

text \<open>
  Reporting never waits: on a client that is not closed it returns at once with the event queued or
  the drop counted, whatever the worker is doing; an empty account or a count that is not positive
  changes nothing, and so does a nil client. After \<open>Close\<close>, however, it panics.
\<close>

theorem report_total_until_close:
  "Report account kind count key (Some c) =
     (if account = [] \<or> count \<le> 0 then Some (Some c)
      else if uc_closed c then None
      else Some (Some (if int (length (uc_queue c)) < cp_queue_size (uc_cfg c)
        then c\<lparr>uc_queue := uc_queue c @ [\<lparr>ue_product = Product, ue_account_id = account, ue_kind = kind,
               ue_count = count, ue_idempotency_key = key\<rparr>]\<rparr>
        else c\<lparr>uc_dropped := uc_dropped c + 1\<rparr>))) \<and>
   Report account kind count key (None :: 'c usage_client option) = Some None \<and>
   Report ''acme'' KindMeetMinutes 1 key (Some (snd (Close client closing url_ok c))) = None"
  by (simp add: Report_def enqueue_def Close_closed)

text \<open>
  With a URL that does not parse, every event is lost without being counted: nothing is sent and
  the drop counter does not move.
\<close>

theorem bad_url_loses_uncounted:
  assumes "0 < cp_max_attempts (uc_cfg c)" "uc_busy c = None"
  shows "case Close client closing False c of (settled, c') \<Rightarrow>
    uc_dropped c' = uc_dropped c \<and> uc_net c' = uc_net c \<and> map snd settled = replicate (length (uc_queue c)) PostUnbuildable"
  using assms by (auto simp: Close_def drain_post_def Close_begin_def drain_unbuildable case_prod_beta comp_def map_replicate_const)

theorem bad_url_loses_uncounted_witness:
  "uc_dropped (snd (Close (log_client (\<lambda>_. Inr 204)) (\<lambda>_. False) False (sample_client\<lparr>uc_queue := [sample_usage ''a'']\<rparr>))) = 0"
  using bad_url_loses_uncounted [of "sample_client\<lparr>uc_queue := [sample_usage ''a'']\<rparr>" "log_client (\<lambda>_. Inr 204)" "\<lambda>_. False"]
  by (simp add: sample_client_def sample_cp_def case_prod_beta)

end
