(* ===== verification/Meet_Main.thy ===== *)
theory Meet_Main
  imports Livekit_Supervisor Apps_Adapter Signal_Gate Egress_Proxy Cp_Client Retention_Driver
begin

text \<open>
  The composition root (\<^verbatim>\<open>cmd/vulos-meet/main.go\<close>), up to the start of the servers: \<open>run_setup\<close> builds
  every component from the configuration and the environment in the order of \<open>run\<close>, and the public
  listener's handler is the shared rate limiter around the signaling gate. The lemmas say exactly when the
  set-up succeeds and how the parts are wired, that all surfaces agree on who owns a room, that an outage of the media server reaches every surface the
  same way, and what the doubly mounted limiter admits.
\<close>

section \<open>One room service behind every surface\<close>

text \<open>
  The service with the clock it reads: the \<open>i\<close>th reading is \<open>clk i\<close>, every call takes two.
\<close>

type_synonym rooms_state = "lk_service \<times> nat"

definition with_clock ::
  "(nat \<Rightarrow> time) \<Rightarrow> (time \<Rightarrow> time \<Rightarrow> lk_service \<Rightarrow> 'a \<times> lk_service) \<Rightarrow> rooms_state \<Rightarrow> 'a \<times> rooms_state" where
  "with_clock clk f s = (let (l, i) = s; (r, l') = f (clk i) (clk (Suc i)) l in (r, (l', i + 2)))"

definition error_of :: "'e + 'a \<Rightarrow> 'e option" where
  "error_of r = (case r of Inl e \<Rightarrow> Some e | Inr _ \<Rightarrow> None)"

definition admin_rooms :: "'ctx lk_lib \<Rightarrow> (nat \<Rightarrow> time) \<Rightarrow> rooms_state room_service" where
  "admin_rooms L clk =
     \<lparr>rs_list = with_clock clk (ListRoomIDs L),
      rs_delete = (\<lambda>room s. map_prod error_of id (with_clock clk (DeleteRoom L room) s)),
      rs_participants = Some (with_clock clk (ListRoomParticipants L))\<rparr>"

definition apps_rooms :: "'ctx lk_lib \<Rightarrow> (nat \<Rightarrow> time) \<Rightarrow> rooms_state meet_sfu" where
  "apps_rooms L clk =
     \<lparr>sfu_list_room_ids = with_clock clk (ListRoomIDs L),
      sfu_list_participants = (\<lambda>room. with_clock clk (ListParticipants L room)),
      sfu_send_data = (\<lambda>room data topic s. map_prod error_of id (with_clock clk (SendData L room data topic) s))\<rparr>"

section \<open>Set-up\<close>

definition appsDBEnv :: string where "appsDBEnv = ''MEET_APPS_DB''"
definition appsCloudURLEnv :: string where "appsCloudURLEnv = ''MEET_APPS_CLOUD_URL''"
definition mcpGatewayEnv :: string where "mcpGatewayEnv = ''MEET_APPS_MCP_GATEWAY_URL''"
definition CloudTokenEnv :: string where "CloudTokenEnv = ''MEET_RECORDING_CLOUD_TOKEN''"
definition EnvCPURL :: string where "EnvCPURL = ''CP_URL''"
definition EnvCPSharedSecret :: string where "EnvCPSharedSecret = ''CP_SHARED_SECRET''"
definition Version :: string where "Version = ''dev''"

datatype 'e boot_error =
    BootConfig config_error
  | BootTenantPanic
  | BootGeo geo_error
  | BootRooms room_service_config_error
  | BootAdmin admin_error
  | BootValidator validator_config_error
  | BootGate gate_config_error
  | BootProxy egress_proxy_error
  | BootEgress egress_config_error
  | BootCp cp_error
  | BootUsage usage_config_error
  | BootAppsCloud
  | BootRegistry
  | BootApps "'e mount_error"
  | BootMcpGateway
  | BootMcp "'e mount_error"
  | BootDeleter cloud_deleter_error
  | BootDriver driver_error

text \<open>What surrounds the process: the configuration file, the decoder, the environment, the app platform.\<close>

record ('ctx, 'reg, 'scopes, 'disp, 'emit, 'e, 'ah, 'mh, 'k, 'c, 'd) host_env =
  he_read_file :: "string \<Rightarrow> string option"
  he_yaml :: "string \<Rightarrow> config option"
  he_env :: "string \<Rightarrow> string"
  he_lk :: "'ctx lk_lib"
  he_clock :: "nat \<Rightarrow> time"
  he_platform :: "('reg, 'scopes, 'disp) platform_lib"
  he_open_registry :: "string \<Rightarrow> 'scopes \<Rightarrow> 'reg option"
  he_memory_registry :: "'scopes \<Rightarrow> 'reg"
  he_emit :: "'disp \<Rightarrow> 'emit"
  he_new_apps :: "('reg, rooms_state, 'disp) mount_config \<Rightarrow> 'e + 'ah"
  he_new_mcp :: "('reg, rooms_state, 'emit) mcp_mount \<Rightarrow> 'e + 'mh"
  he_key_net :: 'k
  he_cp_net :: 'c
  he_cloud_client :: "'d http_client"

text \<open>What \<open>run\<close> has built when it starts its servers.\<close>

record ('ah, 'mh, 'k, 'c, 'd) boot =
  bt_config :: config
  bt_metrics_addr :: string
  bt_metrics :: "metrics option"
  bt_rooms :: lk_service
  bt_admin :: "rooms_state admin_server"
  bt_admin_limiter :: rate_limiter
  bt_introspector :: "'k introspector option"
  bt_gate :: "rooms_state signal_gate"
  bt_rtc_limiter :: rate_limiter
  bt_proxy :: egress_proxy
  bt_egress :: "mem_store egress_config"
  bt_cp :: "'c usage_client option"
  bt_usage :: "tenant \<times> 'c usage_client option usage_state"
  bt_apps :: 'ah
  bt_mcp :: 'mh
  bt_driver :: "(mem_store, 'd) retention_driver"

definition and_then :: "'e + 'a \<Rightarrow> ('a \<Rightarrow> 'e + 'b) \<Rightarrow> 'e + 'b" where
  "and_then r f = (case r of Inl e \<Rightarrow> Inl e | Inr a \<Rightarrow> f a)"

definition failing :: "('d \<Rightarrow> 'e) \<Rightarrow> 'd + 'a \<Rightarrow> 'e + 'a" where
  "failing e r = map_sum e id r"

definition of_nil :: "'e \<Rightarrow> 'a option \<Rightarrow> 'e + 'a" where
  "of_nil e r = (case r of None \<Rightarrow> Inl e | Some a \<Rightarrow> Inr a)"

definition room_client :: "config \<Rightarrow> lk_config" where
  "room_client cfg = \<lparr>lkc_signaling_addr = lc_signaling_addr (cf_livekit cfg),
     lkc_api_key = lc_api_key (cf_livekit cfg), lkc_api_secret = lc_api_secret (cf_livekit cfg),
     lkc_call_timeout = 0, lkc_breaker_cooldown = 0, lkc_breaker_threshold = 0, lkc_http_scheme = []\<rparr>"

definition egress_receiver_config :: "(string \<Rightarrow> string) \<Rightarrow> tenant \<Rightarrow> config \<Rightarrow> mem_store egress_config" where
  "egress_receiver_config env T cfg = \<lparr>ec_tenant = T, ec_api_key = lc_api_key (cf_livekit cfg),
     ec_api_secret = lc_api_secret (cf_livekit cfg), ec_cloud_url = rc_egress_endpoint (cf_recording cfg),
     ec_cloud_auth_tok = env CloudTokenEnv, ec_max_attempts = 0, ec_base_backoff = 0, ec_store = Some Upsert\<rparr>"

definition cp_from_env :: "(string \<Rightarrow> string) \<Rightarrow> 'c \<Rightarrow> cp_error + 'c usage_client option" where
  "cp_from_env env net =
     (if env EnvCPURL = [] then Inr None
      else map_sum id Some (NewUsageClient \<lparr>cp_url = env EnvCPURL, cp_shared_secret = env EnvCPSharedSecret,
             cp_max_attempts = 0, cp_base_backoff = 0, cp_queue_size = 0\<rparr> net))"

definition app_registry ::
  "('ctx, 'reg, 'scopes, 'disp, 'emit, 'e, 'ah, 'mh, 'k, 'c, 'd) host_env \<Rightarrow> 'reg option" where
  "app_registry H =
     (if he_env H appsDBEnv \<noteq> [] then he_open_registry H (he_env H appsDBEnv) (MeetAppScopeSet (he_platform H))
      else Some (he_memory_registry H (MeetAppScopeSet (he_platform H))))"

definition apps_handler_of ::
  "('ctx, 'reg, 'scopes, 'disp, 'emit, 'e, 'ah, 'mh, 'k, 'c, 'd) host_env \<Rightarrow> config \<Rightarrow> 'reg \<Rightarrow> 'e mount_error + 'ah" where
  "apps_handler_of H cfg reg = NewAppsHandler (he_platform H) (he_new_apps H)
     \<lparr>apc_registry = Some reg, apc_sfu = Some (apps_rooms (he_lk H) (he_clock H)),
      apc_admin_token = ac_token (cf_admin cfg), apc_base_path = []\<rparr>"

definition mcp_handler_of ::
  "('ctx, 'reg, 'scopes, 'disp, 'emit, 'e, 'ah, 'mh, 'k, 'c, 'd) host_env \<Rightarrow> 'reg \<Rightarrow> 'e mount_error + 'mh" where
  "mcp_handler_of H reg = NewMCPHandler (he_platform H) (he_emit H) (he_new_mcp H)
     \<lparr>mcc_registry = Some reg, mcc_sfu = Some (apps_rooms (he_lk H) (he_clock H)), mcc_base_path = []\<rparr>"

definition blob_deleter_from ::
  "('ctx, 'reg, 'scopes, 'disp, 'emit, 'e, 'ah, 'mh, 'k, 'c, 'd) host_env \<Rightarrow> config \<Rightarrow>
     cloud_deleter_error + 'd blob_deleter option" where
  "blob_deleter_from H cfg =
     (if rc_cloud_delete_base_url (cf_recording cfg) = [] then Inr None
      else map_sum id (\<lambda>d. Some (cloud_delete d (he_cloud_client H) (\<lambda>u. url_Parse u \<noteq> None)))
        (NewCloudBlobDeleter (rc_cloud_delete_base_url (cf_recording cfg)) (he_env H CloudTokenEnv)))"

definition override_addr :: "string \<Rightarrow> config \<Rightarrow> config" where
  "override_addr addr cfg = (if addr = [] then cfg else cfg\<lparr>cf_admin := (cf_admin cfg)\<lparr>ac_addr := addr\<rparr>\<rparr>)"

definition run_setup ::
  "('ctx, 'reg, 'scopes, 'disp, 'emit, 'e, 'ah, 'mh, 'k, 'c, 'd) host_env \<Rightarrow> string \<Rightarrow> string \<Rightarrow> string \<Rightarrow>
     'e boot_error + ('ah, 'mh, 'k, 'c, 'd) boot" where
  "run_setup H configPath adminAddr metricsAddr =
     and_then (failing BootConfig (LoadConfig (he_read_file H) (he_yaml H) (he_env H) configPath)) (\<lambda>cfg0.
     let cfg = override_addr adminAddr cfg0; lk = cf_livekit cfg; env = he_env H in
     and_then (of_nil BootTenantPanic (NewTenant (cf_tenant_separator cfg))) (\<lambda>T.
     and_then (failing BootGeo (NewGeoRouter (cf_region cfg))) (\<lambda>geo.
     and_then (failing BootRooms (NewLiveKitRoomService (room_client cfg))) (\<lambda>rooms.
     and_then (failing BootAdmin (NewAdminServer (Some T) (Some (admin_rooms (he_lk H) (he_clock H))) (Some geo)
         (ac_token (cf_admin cfg)) Version)) (\<lambda>admin.
     let m = SetRoomLimits (rm_max_participants (cf_room cfg)) (rm_max_rooms (cf_room cfg)) (Some NewMetrics) in
     and_then (failing BootValidator (NewValidator env (lc_api_key lk) (lc_api_secret lk) (Some T))) (\<lambda>v.
     and_then (failing BootGate (NewSignalGate (\<lambda>u. map_option u_host (url_Parse u)) (Some v) (lc_signaling_addr lk)))
       (\<lambda>gate.
     and_then (failing BootProxy (NewEgressProxy env (Some v) (lc_egress_upstream_addr lk))) (\<lambda>proxy.
     and_then (failing BootEgress (NewEgressReceiver (Some T) (egress_receiver_config env T cfg))) (\<lambda>egress.
     and_then (failing BootCp (cp_from_env env (he_cp_net H))) (\<lambda>cp.
     and_then (failing BootUsage (NewUsageReceiver (Some T) (lc_api_key lk) (lc_api_secret lk) m cp)) (\<lambda>usage.
     if env appsCloudURLEnv \<noteq> [] then Inl BootAppsCloud else
     and_then (of_nil BootRegistry (app_registry H)) (\<lambda>reg.
     and_then (failing BootApps (apps_handler_of H cfg reg)) (\<lambda>apps.
     if env mcpGatewayEnv \<noteq> [] then Inl BootMcpGateway else
     and_then (failing BootMcp (mcp_handler_of H reg)) (\<lambda>mcp.
     and_then (failing BootDeleter (blob_deleter_from H cfg)) (\<lambda>del.
     and_then (failing BootDriver (NewRetentionDriver (Some (List_recordings, SetState)) (config_RetentionPolicy cfg) del))
       (\<lambda>driver.
       Inr \<lparr>bt_config = cfg, bt_metrics_addr = (if metricsAddr = [] then ''127.0.0.1:7882'' else metricsAddr),
            bt_metrics = m, bt_rooms = rooms, bt_admin = admin,
            bt_admin_limiter = NewRateLimiter 2 5 (10 * minute),
            bt_introspector = NewIntrospector (FromEnv env) (he_key_net H),
            bt_gate = SetRoomCap (Some (rs_list (admin_rooms (he_lk H) (he_clock H)))) (rm_max_rooms (cf_room cfg)) gate,
            bt_rtc_limiter = NewRateLimiter 10 20 (10 * minute),
            bt_proxy = proxy, bt_egress = egress, bt_cp = cp, bt_usage = usage, bt_apps = apps, bt_mcp = mcp,
            bt_driver = driver\<rparr>))))))))))))))))"

section \<open>When it succeeds\<close>

lemma and_then_Inr: "and_then r f = Inr b \<longleftrightarrow> (\<exists>a. r = Inr a \<and> f a = Inr b)"
  by (simp add: and_then_def split: sum.split)

lemma and_then_ex: "(\<exists>b. and_then r f = Inr b) \<longleftrightarrow> (\<exists>a. r = Inr a \<and> (\<exists>b. f a = Inr b))"
  by (auto simp: and_then_Inr)

lemma and_then_ok: "and_then (Inr a) f = f a"
  by (simp add: and_then_def)

lemma of_nil_ok: "of_nil e (Some a) = Inr a"
  by (simp add: of_nil_def)

lemma failing_ok: "failing e (Inr a) = Inr a"
  by (simp add: failing_def)

lemma failing_Inr [simp]: "failing e r = Inr a \<longleftrightarrow> r = Inr a"
  by (cases r) (simp_all add: failing_def)

lemma of_nil_Inr [simp]: "of_nil e r = Inr a \<longleftrightarrow> r = Some a"
  by (simp add: of_nil_def split: option.split)

lemma override_simps [simp]:
  "cf_livekit (override_addr a cfg) = cf_livekit cfg" "cf_region (override_addr a cfg) = cf_region cfg"
  "cf_room (override_addr a cfg) = cf_room cfg" "cf_recording (override_addr a cfg) = cf_recording cfg"
  "cf_tenant_separator (override_addr a cfg) = cf_tenant_separator cfg"
  "ac_token (cf_admin (override_addr a cfg)) = ac_token (cf_admin cfg)"
  by (simp_all add: override_addr_def)

lemma override_parts:
  "apps_handler_of H (override_addr adminAddr cfg) = apps_handler_of H cfg"
  "blob_deleter_from H (override_addr adminAddr cfg) = blob_deleter_from H cfg"
  "config_RetentionPolicy (override_addr adminAddr cfg) = config_RetentionPolicy cfg"
  "egress_receiver_config env T (override_addr adminAddr cfg) = egress_receiver_config env T cfg"
  "room_client (override_addr adminAddr cfg) = room_client cfg"
  by (simp_all add: fun_eq_iff apps_handler_of_def blob_deleter_from_def egress_receiver_config_def room_client_def
      config_RetentionPolicy_def)

text \<open>What an accepted configuration guarantees the constructors.\<close>

lemma loaded_config:
  assumes "LoadConfig readFile yaml env path = Inr c"
  shows "cf_region c \<noteq> []" "length (cf_tenant_separator c) = 1" "cf_tenant_separator c \<noteq> []"
    "lc_api_key (cf_livekit c) \<noteq> []" "lc_api_secret (cf_livekit c) \<noteq> []" "ac_token (cf_admin c) \<noteq> []"
    "lc_signaling_addr (cf_livekit c) \<noteq> []" "lc_egress_upstream_addr (cf_livekit c) \<noteq> []"
    "0 < rm_max_rooms (cf_room c)" "0 < rm_max_participants (cf_room c)"
proof -
  obtain raw where "ParseConfig yaml env raw = Inr c"
    using assms by (auto simp: LoadConfig_def split: if_splits option.splits)
  then obtain c0 where c: "c = finish_config env c0" "config_Validate c = None"
    using ParseConfig_InrD by blast
  show "cf_region c \<noteq> []" "length (cf_tenant_separator c) = 1" "lc_api_key (cf_livekit c) \<noteq> []"
    "lc_api_secret (cf_livekit c) \<noteq> []" "ac_token (cf_admin c) \<noteq> []"
    using validated [OF c(2)] by simp_all
  then show "cf_tenant_separator c \<noteq> []" by auto
  show "lc_signaling_addr (cf_livekit c) \<noteq> []" "lc_egress_upstream_addr (cf_livekit c) \<noteq> []"
    by (simp_all add: c(1) finish_fields livekit_defaults_def Let_def)
  have "rm_max_rooms (cf_room c) \<noteq> 0" "rm_max_participants (cf_room c) \<noteq> 0"
    by (simp_all add: c(1) finish_fields room_defaults_def DefaultMaxRooms_def DefaultMaxParticipants_def)
  then show "0 < rm_max_rooms (cf_room c)" "0 < rm_max_participants (cf_room c)"
    using validated [OF c(2)] by simp_all
qed

text \<open>The constructors that can no longer fail.\<close>

lemma settled_parts:
  assumes "LoadConfig readFile yaml env path = Inr c"
  defines "T \<equiv> \<lparr>tenant_sep = hd (cf_tenant_separator c)\<rparr>"
  shows "NewTenant (cf_tenant_separator c) = Some T" "NewGeoRouter (cf_region c) = Inr \<lparr>geo_region = cf_region c\<rparr>"
    "\<exists>l. NewLiveKitRoomService (room_client c) = Inr l"
    "NewAdminServer (Some T) (Some rs) (Some g) (ac_token (cf_admin c)) v =
       Inr \<lparr>as_tenant = T, as_room_ops = rs, as_geo = g, as_admin_token = ac_token (cf_admin c),
            as_version = (if v = [] then unknown_version else v)\<rparr>"
    "NewValidator env' (lc_api_key (cf_livekit c)) (lc_api_secret (cf_livekit c)) (Some T) =
       Inr \<lparr>val_api_key = lc_api_key (cf_livekit c), val_api_secret = lc_api_secret (cf_livekit c), val_tenant = T,
            val_max_ttl = max_token_ttl env'\<rparr>"
    "NewUsageReceiver (Some T) (lc_api_key (cf_livekit c)) (lc_api_secret (cf_livekit c)) m q =
       Inr (T, \<lparr>us_rooms = [], us_metrics = m, us_reports = q\<rparr>)"
  using loaded_config [OF assms(1)]
  by (simp_all add: T_def NewTenant_def NewGeoRouter_def NewLiveKitRoomService_def room_client_def NewAdminServer_def
      NewValidator_def NewUsageReceiver_def Let_def)

lemma driver_succeeds: "NewRetentionDriver (Some (l, f)) p del =
    Inr \<lparr>dr_list = l, dr_set_state = f, dr_policy = p, dr_deleter = driver_deleter del\<rparr>"
  by (simp add: NewRetentionDriver_def)

lemma cp_from_env_succeeds: "\<exists>c. cp_from_env env net = Inr c"
  by (simp add: cp_from_env_def NewUsageClient_def Let_def)

text \<open>The stages that can fail, one lemma each.\<close>

lemma gate_stage:
  "(\<exists>g. NewSignalGate f (Some v) addr = Inr g) \<longleftrightarrow> addr \<noteq> [] \<and> f (''http://'' @ hostFromSignalingAddr addr) \<noteq> None"
  by (simp add: NewSignalGate_def split: option.split)

lemma gate_stage_D: "NewSignalGate f (Some v) addr = Inr g \<Longrightarrow> sg_validator g = v"
  by (auto simp: NewSignalGate_def split: if_splits option.splits)

lemma proxy_stage:
  "(\<exists>g. NewEgressProxy env (Some v) addr = Inr g) \<longleftrightarrow> addr \<noteq> [] \<and> url_Parse (''http://'' @ hostFromSignalingAddr addr) \<noteq> None"
  by (simp add: NewEgressProxy_def split: option.split)

lemma proxy_stage_D: "NewEgressProxy env (Some v) addr = Inr g \<Longrightarrow> ep_validator g = v"
  by (auto simp: NewEgressProxy_def split: if_splits option.splits)

lemma egress_stage:
  "lc_api_key (cf_livekit c) \<noteq> [] \<Longrightarrow> lc_api_secret (cf_livekit c) \<noteq> [] \<Longrightarrow>
     (\<exists>g. NewEgressReceiver (Some T) (egress_receiver_config env T c) = Inr g) \<longleftrightarrow>
     (if rc_egress_endpoint (cf_recording c) = [] then True else env CloudTokenEnv \<noteq> [])"
  by (simp add: NewEgressReceiver_def egress_receiver_config_def Let_def)

lemma egress_stage_D:
  "NewEgressReceiver (Some T) (egress_receiver_config env T c) = Inr g \<Longrightarrow>
     ec_tenant g = T \<and> ec_api_key g = lc_api_key (cf_livekit c) \<and> ec_api_secret g = lc_api_secret (cf_livekit c) \<and>
     ec_cloud_url g = rc_egress_endpoint (cf_recording c) \<and> ec_max_attempts g = 4 \<and> ec_store g = Some Upsert"
  by (auto simp: NewEgressReceiver_def egress_receiver_config_def Let_def split: if_splits)

lemma deleter_stage:
  "(\<exists>d. blob_deleter_from H c = Inr d) \<longleftrightarrow>
     (if rc_cloud_delete_base_url (cf_recording c) = [] then True else he_env H CloudTokenEnv \<noteq> [])"
  by (simp add: blob_deleter_from_def NewCloudBlobDeleter_def)

text \<open>
  C25. When the server starts: the set-up succeeds exactly when the configuration loads, both upstream
  addresses make parsable URLs, a cloud token is set if recordings are forwarded to or deleted from a cloud
  endpoint, neither of the cloud-only gateways is requested, and the app registry and its two mounts come
  up. No other constructor can refuse an accepted configuration.
\<close>

theorem boot_succeeds_exactly:
  "(\<exists>b. run_setup H path adminAddr metricsAddr = Inr b) =
   (case LoadConfig (he_read_file H) (he_yaml H) (he_env H) path of
      Inl _ \<Rightarrow> False
    | Inr cfg \<Rightarrow>
        url_Parse (''http://'' @ hostFromSignalingAddr (lc_signaling_addr (cf_livekit cfg))) \<noteq> None \<and>
        url_Parse (''http://'' @ hostFromSignalingAddr (lc_egress_upstream_addr (cf_livekit cfg))) \<noteq> None \<and>
        (if rc_egress_endpoint (cf_recording cfg) = [] \<and> rc_cloud_delete_base_url (cf_recording cfg) = []
         then True else he_env H CloudTokenEnv \<noteq> []) \<and>
        he_env H appsCloudURLEnv = [] \<and> he_env H mcpGatewayEnv = [] \<and>
        (case app_registry H of
           None \<Rightarrow> False
         | Some reg \<Rightarrow> \<not> isl (apps_handler_of H cfg reg) \<and> \<not> isl (mcp_handler_of H reg)))"
proof (cases "LoadConfig (he_read_file H) (he_yaml H) (he_env H) path")
  case (Inl e)
  then show ?thesis by (simp add: run_setup_def and_then_def failing_def)
next
  case (Inr cfg)
  note ok = loaded_config [OF Inr] and parts = settled_parts [OF Inr]
  have right: "\<not> isl r \<longleftrightarrow> (\<exists>a. r = Inr a)" for r :: "'x + 'y" by (cases r) simp_all
  note same = override_parts
  show ?thesis
    by (auto simp: run_setup_def Inr and_then_ex and_then_ok failing_ok parts same Let_def gate_stage proxy_stage egress_stage
        ok deleter_stage cp_from_env_succeeds driver_succeeds right split: option.split if_splits)
qed

text \<open>The errors an accepted configuration excludes.\<close>

fun excluded_error :: "'e boot_error \<Rightarrow> bool" where
  "excluded_error (BootEgress e) \<longleftrightarrow> e \<noteq> EgressMissingCloudToken"
| "excluded_error (BootGate e) \<longleftrightarrow> e \<noteq> BadUpstreamURL"
| "excluded_error (BootProxy e) \<longleftrightarrow> e \<noteq> ProxyBadUpstream"
| "excluded_error (BootApps e) \<longleftrightarrow> e \<in> {MountNoRegistry, MountNoSFU}"
| "excluded_error (BootMcp e) \<longleftrightarrow> e \<in> {MountNoRegistry, MountNoSFU}"
| "excluded_error (BootDeleter e) \<longleftrightarrow> e \<noteq> CloudDeleterNoToken"
| "excluded_error (BootConfig _) \<longleftrightarrow> False"
| "excluded_error BootAppsCloud \<longleftrightarrow> False"
| "excluded_error BootMcpGateway \<longleftrightarrow> False"
| "excluded_error BootRegistry \<longleftrightarrow> False"
| "excluded_error _ \<longleftrightarrow> True"

lemma and_then_Inl: "and_then r f = Inl e \<longleftrightarrow> r = Inl e \<or> (\<exists>a. r = Inr a \<and> f a = Inl e)"
  by (simp add: and_then_def split: sum.split)

lemma failing_Inl: "failing g r = Inl e \<longleftrightarrow> (\<exists>d. r = Inl d \<and> e = g d)"
  by (cases r) (auto simp: failing_def)

lemma of_nil_Inl: "of_nil d r = Inl e \<longleftrightarrow> r = None \<and> e = d"
  by (auto simp: of_nil_def split: option.split)

lemma stage_errors:
  "lc_signaling_addr l \<noteq> [] \<Longrightarrow> NewSignalGate f (Some v) (lc_signaling_addr l) = Inl ge \<Longrightarrow> ge = BadUpstreamURL"
  "lc_egress_upstream_addr l \<noteq> [] \<Longrightarrow> NewEgressProxy env (Some v) (lc_egress_upstream_addr l) = Inl pe \<Longrightarrow> pe = ProxyBadUpstream"
  "lc_api_key (cf_livekit c) \<noteq> [] \<Longrightarrow> lc_api_secret (cf_livekit c) \<noteq> [] \<Longrightarrow>
     NewEgressReceiver (Some T) (egress_receiver_config env T c) = Inl ee \<Longrightarrow> ee = EgressMissingCloudToken"
  "cp_from_env env net = Inl ce \<Longrightarrow> False"
  "blob_deleter_from H c = Inl de \<Longrightarrow> de = CloudDeleterNoToken"
  "apps_handler_of H c reg = Inl ae \<Longrightarrow> ae \<notin> {MountNoRegistry, MountNoSFU}"
  "mcp_handler_of H reg = Inl me \<Longrightarrow> me \<notin> {MountNoRegistry, MountNoSFU}"
  by (auto simp: NewSignalGate_def NewEgressProxy_def NewEgressReceiver_def egress_receiver_config_def Let_def
      cp_from_env_def NewUsageClient_def blob_deleter_from_def NewCloudBlobDeleter_def apps_handler_of_def
      NewAppsHandler_def mcp_handler_of_def NewMCPHandler_def split: if_splits option.splits sum.splits)

text \<open>Both results of the set-up, from one case analysis.\<close>

lemma setup_result:
  shows setup_error: "run_setup H path adminAddr metricsAddr = Inl e \<Longrightarrow> \<not> excluded_error e"
    and boot_wiring: "run_setup H path adminAddr metricsAddr = Inr b \<Longrightarrow>
      Separator (as_tenant (bt_admin b)) = cf_tenant_separator (bt_config b) \<and>
      sg_validator (bt_gate b) = \<lparr>val_api_key = lc_api_key (cf_livekit (bt_config b)),
        val_api_secret = lc_api_secret (cf_livekit (bt_config b)), val_tenant = as_tenant (bt_admin b),
        val_max_ttl = max_token_ttl (he_env H)\<rparr> \<and>
      ep_validator (bt_proxy b) = sg_validator (bt_gate b) \<and>
      ec_api_key (bt_egress b) = lc_api_key (cf_livekit (bt_config b)) \<and>
      ec_api_secret (bt_egress b) = lc_api_secret (cf_livekit (bt_config b)) \<and>
      ec_tenant (bt_egress b) = as_tenant (bt_admin b) \<and> fst (bt_usage b) = as_tenant (bt_admin b) \<and>
      as_admin_token (bt_admin b) = ac_token (cf_admin (bt_config b)) \<and> as_admin_token (bt_admin b) \<noteq> [] \<and>
      rc_max (sg_room_cap (bt_gate b)) = rm_max_rooms (cf_room (bt_config b)) \<and> 0 < rm_max_rooms (cf_room (bt_config b)) \<and>
      rc_lister (sg_room_cap (bt_gate b)) = Some (rs_list (as_room_ops (bt_admin b))) \<and>
      us_reports (snd (bt_usage b)) = bt_cp b \<and> us_metrics (snd (bt_usage b)) = bt_metrics b \<and>
      dr_policy (bt_driver b) = config_RetentionPolicy (bt_config b) \<and>
      dr_list (bt_driver b) = List_recordings \<and> dr_set_state (bt_driver b) = SetState \<and>
      ec_store (bt_egress b) = Some Upsert \<and> us_rooms (snd (bt_usage b)) = [] \<and>
      bt_metrics b = SetRoomLimits (rm_max_participants (cf_room (bt_config b))) (rm_max_rooms (cf_room (bt_config b)))
        (Some NewMetrics) \<and>
      cp_from_env (he_env H) (he_cp_net H) = Inr (bt_cp b)"
      (is "_ \<Longrightarrow> ?wired")
proof -
  have both: "(run_setup H path adminAddr metricsAddr = Inl e \<longrightarrow> \<not> excluded_error e) \<and>
    (run_setup H path adminAddr metricsAddr = Inr b \<longrightarrow> ?wired)"
  proof (cases "LoadConfig (he_read_file H) (he_yaml H) (he_env H) path")
    case (Inl e')
    then show ?thesis by (auto simp: run_setup_def and_then_def failing_def)
  next
    case (Inr cfg)
    note ok = loaded_config [OF Inr] and parts = settled_parts [OF Inr]
    note same = override_parts
    obtain l where l: "NewLiveKitRoomService (room_client cfg) = Inr l" using parts(3) by blast
    have sep: "Separator \<lparr>tenant_sep = hd (cf_tenant_separator cfg)\<rparr> = cf_tenant_separator cfg"
      using ok(2,3) by (cases "cf_tenant_separator cfg") (simp_all add: Separator_def)
    note stages = run_setup_def [of H path adminAddr metricsAddr, unfolded Inr failing_ok and_then_ok, simplified Let_def,
        simplified, unfolded parts same l of_nil_ok failing_ok and_then_ok]
    show ?thesis
    proof (rule conjI; rule impI)
      assume "run_setup H path adminAddr metricsAddr = Inl e"
      then show "\<not> excluded_error e"
        using ok unfolding stages
        by (auto simp: and_then_Inl failing_Inl of_nil_Inl parts driver_succeeds failing_ok and_then_ok
            split: if_splits dest: stage_errors)
    next
      assume "run_setup H path adminAddr metricsAddr = Inr b"
      then show ?wired
        using ok unfolding stages
        by (auto simp: parts driver_succeeds failing_ok and_then_ok same and_then_Inr SetRoomCap_def sep
            split: if_splits dest!: gate_stage_D proxy_stage_D egress_stage_D)
    qed
  qed
  show "run_setup H path adminAddr metricsAddr = Inl e \<Longrightarrow> \<not> excluded_error e"
    by (rule both [THEN conjunct1, THEN mp])
  show "run_setup H path adminAddr metricsAddr = Inr b \<Longrightarrow> ?wired"
    by (rule both [THEN conjunct2, THEN mp])
qed

text \<open>
  C8. One identity behind every surface: a set-up that fails does so for a reason the configuration check
  leaves open, and one that succeeds gives the gate, the egress proxy and both webhook receivers the same
  key pair and the same tenant gate as the admin surface, whose token is never empty; the join ceiling is
  positive and counts the rooms through the client the admin surface lists with.
\<close>

theorem boot_shares_identity:
  "case run_setup H path adminAddr metricsAddr of
     Inl e \<Rightarrow> \<not> excluded_error e
   | Inr b \<Rightarrow>
       (let cfg = bt_config b; v = sg_validator (bt_gate b); T = as_tenant (bt_admin b) in
        ep_validator (bt_proxy b) = v \<and>
        val_api_key v = lc_api_key (cf_livekit cfg) \<and> val_api_secret v = lc_api_secret (cf_livekit cfg) \<and>
        ec_api_key (bt_egress b) = val_api_key v \<and> ec_api_secret (bt_egress b) = val_api_secret v \<and>
        Separator T = cf_tenant_separator cfg \<and>
        val_tenant v = T \<and> ec_tenant (bt_egress b) = T \<and> fst (bt_usage b) = T \<and>
        as_admin_token (bt_admin b) = ac_token (cf_admin cfg) \<and> as_admin_token (bt_admin b) \<noteq> [] \<and>
        rc_max (sg_room_cap (bt_gate b)) = rm_max_rooms (cf_room cfg) \<and> 0 < rm_max_rooms (cf_room cfg) \<and>
        rc_lister (sg_room_cap (bt_gate b)) = Some (rs_list (as_room_ops (bt_admin b))) \<and>
        us_reports (snd (bt_usage b)) = bt_cp b \<and> us_metrics (snd (bt_usage b)) = bt_metrics b)"
proof (cases "run_setup H path adminAddr metricsAddr")
  case (Inl e)
  then show ?thesis using setup_error [OF Inl] by simp
next
  case (Inr b)
  note w = boot_wiring [OF Inr]
  have "ac_token (cf_admin (bt_config b)) \<noteq> []" using w by metis
  then show ?thesis using w by (simp add: Inr Let_def)
qed

text \<open>
  C9. One ownership relation: on a box that came up, the admin list, the signaling gate, the egress proxy, the
  recording receiver and the usage receiver agree for every room and tenant whether the room is the tenant's,
  and there is at most one tenant for which they say so.
\<close>

theorem surfaces_share_ownership:
  "case run_setup H path adminAddr metricsAddr of
     Inl e \<Rightarrow> \<not> excluded_error e
   | Inr b \<Rightarrow>
       (let owns = (\<lambda>t. EnforceRoom (as_tenant (bt_admin b)) t room = None) in
        (room \<in> set (FilterRooms (as_tenant (bt_admin b)) t [room])) = owns t \<and>
        (EnforceRoom (val_tenant (sg_validator (bt_gate b))) t room = None) = owns t \<and>
        (t \<noteq> [] \<and> roomTenant (bt_proxy b) room = t) = owns t \<and>
        (\<exists>rest. SplitRoom (ec_tenant (bt_egress b)) room = Inr (t, rest)) = owns t \<and>
        (\<exists>rest. SplitRoom (fst (bt_usage b)) room = Inr (t, rest)) = owns t \<and>
        (owns t \<and> owns t' \<and> t \<noteq> t') = False)"
proof (cases "run_setup H path adminAddr metricsAddr")
  case (Inl e)
  then show ?thesis using setup_error [OF Inl] by simp
next
  case (Inr b)
  let ?T = "as_tenant (bt_admin b)"
  have filter: "room \<in> set (FilterRooms ?T t [room]) \<longleftrightarrow> EnforceRoom ?T t room = None"
    using FilterRooms_eq [of ?T t "[room]"] by simp
  have owner: "(EnforceRoom ?T u room = None) = (\<exists>rest. SplitRoom ?T room = Inr (u, rest))" for u
    by (auto simp: EnforceRoom_None_split)
  have proxy: "t \<noteq> [] \<and> roomTenant (bt_proxy b) room = t \<longleftrightarrow> EnforceRoom ?T t room = None"
  proof -
    have "val_tenant (ep_validator (bt_proxy b)) = ?T" using boot_wiring [OF Inr] by simp
    then show ?thesis
      by (auto simp: roomTenant_def EnforceRoom_None_split split: sum.splits dest: SplitRoom_sound valid_tenant_nonempty)
  qed
  show ?thesis
    using boot_wiring [OF Inr] filter proxy by (auto simp: Inr owner Let_def)
qed

section \<open>An outage\<close>

lemma refused_call:
  "\<not> fst (preCall t0 (lk_breaker l)) \<Longrightarrow>
     guarded_call L grant rpc t0 t1 l =
       (Inl ErrRoomServiceBreakerOpen, l\<lparr>lk_requests_total := lk_requests_total l + 1\<rparr>)"
  by (auto simp: guarded_call_def preCall_def Let_def split: option.splits if_splits)

text \<open>
  C35. An outage of the media server looks the same everywhere: while the shared breaker refuses calls, every
  join is refused at the gate, the admin listing and deletion and the broadcast of an app fail with the same
  error, and each of them only counts a request: no RPC is made and the breaker is left as it is.
\<close>

theorem outage_reaches_every_surface:
  assumes "\<not> fst (preCall (clk i) (lk_breaker l))" "room \<noteq> []" "0 < maxRooms"
  shows "fst (enforceRoomCap (sg_room_cap (SetRoomCap (Some (rs_list (admin_rooms L clk))) maxRooms g)) room m (l, i)) = False \<and>
    rs_list (admin_rooms L clk) (l, i) =
      (Inl ErrRoomServiceBreakerOpen, (l\<lparr>lk_requests_total := lk_requests_total l + 1\<rparr>, i + 2)) \<and>
    rs_delete (admin_rooms L clk) room (l, i) =
      (Some ErrRoomServiceBreakerOpen, (l\<lparr>lk_requests_total := lk_requests_total l + 1\<rparr>, i + 2)) \<and>
    sfu_send_data (apps_rooms L clk) room data topic (l, i) =
      (Some ErrRoomServiceBreakerOpen, (l\<lparr>lk_requests_total := lk_requests_total l + 1\<rparr>, i + 2))"
  using assms
  by (simp add: SetRoomCap_def enforceRoomCap_def admin_rooms_def apps_rooms_def with_clock_def ListRoomIDs_def
      DeleteRoom_def SendData_def refused_call error_of_def)

theorem outage_reaches_every_surface_witness:
  "\<forall>L l. rs_list (admin_rooms L (\<lambda>_. 0)) (l\<lparr>lk_breaker := new_breaker\<lparr>br_open_until := Some 1\<rparr>\<rparr>, 0) =
     (Inl ErrRoomServiceBreakerOpen,
      (l\<lparr>lk_breaker := new_breaker\<lparr>br_open_until := Some 1\<rparr>, lk_requests_total := lk_requests_total l + 1\<rparr>, 2))"
proof (intro allI)
  fix L :: "'ctx lk_lib" and l :: lk_service
  have refuses: "\<not> fst (preCall ((\<lambda>_. 0) 0) (lk_breaker (l\<lparr>lk_breaker := new_breaker\<lparr>br_open_until := Some 1\<rparr>\<rparr>)))"
    by (simp add: preCall_def)
  show "rs_list (admin_rooms L (\<lambda>_. 0)) (l\<lparr>lk_breaker := new_breaker\<lparr>br_open_until := Some 1\<rparr>\<rparr>, 0) =
     (Inl ErrRoomServiceBreakerOpen,
      (l\<lparr>lk_breaker := new_breaker\<lparr>br_open_until := Some 1\<rparr>, lk_requests_total := lk_requests_total l + 1\<rparr>, 2))"
    using outage_reaches_every_surface [of "\<lambda>_. 0" 0 "l\<lparr>lk_breaker := new_breaker\<lparr>br_open_until := Some 1\<rparr>\<rparr>"
        "''acme-a''" 1 L, OF refuses] by simp
qed

section \<open>The public listener\<close>

text \<open>The middleware around the signaling gate, which holds the same limiter.\<close>

definition public_handler ::
  "bool \<Rightarrow> time \<Rightarrow> ('r, 'u, 'z) gate_state_scheme handler \<Rightarrow> ('r, 'u, 'z) gate_state_scheme handler" where
  "public_handler trustXFF now inner r s =
     (let (ok, rl) = gate_rate_limit trustXFF now r (gs_limiter s);
          s = s\<lparr>gs_limiter := rl\<rparr>
      in if \<not> ok then (http_error ''rate limit exceeded'' StatusTooManyRequests, s) else inner r s)"

text \<open>The routes behind the gate, \<open>/api/apps\<close> and \<open>/mcp\<close> at the base paths the platform chose.\<close>

definition literal_pattern :: "string option \<Rightarrow> bool \<Rightarrow> string \<Rightarrow> mux_pattern" where
  "literal_pattern method subtree path =
     \<lparr>pat_method = method, pat_segments = map Lit (fst (path_segments path)), pat_subtree = subtree\<rparr>"

definition sibling_patterns :: "string \<Rightarrow> string \<Rightarrow> mux_pattern list" where
  "sibling_patterns appsBase mcpBase =
     [literal_pattern (Some ''GET'') False ''/healthz'', literal_pattern None False WebhookPath,
      literal_pattern None False UsageWebhookPath, literal_pattern None False appsBase,
      literal_pattern None True appsBase, literal_pattern None False mcpBase, literal_pattern None True mcpBase,
      \<lparr>pat_method = None, pat_segments = [], pat_subtree = True\<rparr>]"

definition sibling_handler :: "string \<Rightarrow> string \<Rightarrow> 's handler list \<Rightarrow> 's handler" where
  "sibling_handler appsBase mcpBase hs r s =
     (case mux_find (sibling_patterns appsBase mcpBase) (req_method r) (req_path r) of
        MuxHandler i _ \<Rightarrow> (hs ! i) r s
      | other \<Rightarrow> (mux_fallback other, s))"

text \<open>A join passes both checks of the limiter.\<close>

definition both_limits :: "bool \<Rightarrow> time \<Rightarrow> http_request \<Rightarrow> ('r, 'u) gate_state \<Rightarrow> bool" where
  "both_limits trustXFF now r s =
     (let (ok, rl) = gate_rate_limit trustXFF now r (gs_limiter s)
      in ok \<and> fst (gate_rate_limit trustXFF now r rl))"

lemma rtc_route: "mux_find (gate_patterns egress) method ''/rtc'' = MuxHandler 0 []"
  by (cases egress)
    (simp_all add: mux_find_def gate_patterns_def mux_match_def find_pattern_def match_path_def path_segments_def
      exact_match_def clean_path_def slash_def upt_rec path_unescape_def Let_def)

text \<open>Of the tokens a client has left at an instant, counted in whole tokens.\<close>

definition tokens_left :: "bool \<Rightarrow> time \<Rightarrow> http_request \<Rightarrow> rate_limiter option \<Rightarrow> nat \<Rightarrow> bool" where
  "tokens_left trustXFF now r rl k \<longleftrightarrow>
     (case rl of None \<Rightarrow> False
      | Some l \<Rightarrow> k \<le> 20 \<and> bucket_at l now (clientIP r trustXFF) = \<lparr>tb_tokens = of_nat k, tb_last = now\<rparr>)"

lemma f64_of_nat: "k \<le> 20 \<Longrightarrow> f64 (of_nat k) = of_nat k"
  using f64_exact_fix [OF f64_exact_int [of "int k"]] by simp

lemma take_token_whole:
  "k \<le> 20 \<Longrightarrow> take_token \<lparr>tb_tokens = of_nat k, tb_last = t\<rparr> =
     (0 < k, \<lparr>tb_tokens = of_nat (k - 1), tb_last = t\<rparr>)"
  using f64_of_nat [of "k - 1"] by (cases k) (simp_all add: take_token_def)

lemma limit_whole:
  assumes "tokens_left trustXFF now r rl k"
  shows "fst (gate_rate_limit trustXFF now r rl) \<longleftrightarrow> 0 < k"
    "tokens_left trustXFF now r (snd (gate_rate_limit trustXFF now r rl)) (k - 1)"
proof -
  obtain l where l: "rl = Some l" "k \<le> 20"
    "bucket_at l now (clientIP r trustXFF) = \<lparr>tb_tokens = of_nat k, tb_last = now\<rparr>"
    using assms by (auto simp: tokens_left_def split: option.splits)
  show "fst (gate_rate_limit trustXFF now r rl) \<longleftrightarrow> 0 < k"
    by (simp add: gate_rate_limit_def l Allow_def take_token_whole)
  have "refill rate burst now \<lparr>tb_tokens = x, tb_last = now\<rparr> = \<lparr>tb_tokens = x, tb_last = now\<rparr>" for rate burst x
    by (simp add: refill_def time_sub_def seconds_def min_int64_def max_int64_def)
  then have "bucket_at (snd (Allow now (clientIP r trustXFF) l)) now (clientIP r trustXFF) =
      \<lparr>tb_tokens = of_nat (k - 1), tb_last = now\<rparr>"
    by (simp add: bucket_at_def [of "snd (Allow now (clientIP r trustXFF) l)"] Allow_lookup l(3) take_token_whole [OF l(2)])
  then show "tokens_left trustXFF now r (snd (gate_rate_limit trustXFF now r rl)) (k - 1)"
    using l(2) by (simp add: tokens_left_def gate_rate_limit_def l(1) case_prod_beta)
qed

lemma handleRTC_limiter:
  "gs_limiter (snd (handleRTC L g up trustXFF clk r s)) = snd (gate_rate_limit trustXFF (clk_allow clk) r (gs_limiter s))"
  by (simp add: handleRTC_def case_prod_beta Let_def split: sum.split prod.split)

text \<open>The joins, of \<open>n\<close> equal requests one after the other, that pass both checks.\<close>

fun joins_passing ::
  "('r, 'u) gate_state handler \<Rightarrow> bool \<Rightarrow> time \<Rightarrow> http_request \<Rightarrow> nat \<Rightarrow> ('r, 'u) gate_state \<Rightarrow> nat" where
  "joins_passing h trustXFF now r 0 s = 0"
| "joins_passing h trustXFF now r (Suc n) s =
     (if both_limits trustXFF now r s then 1 else 0) + joins_passing h trustXFF now r n (snd (h r s))"

lemma public_rtc:
  "req_path r = ''/rtc'' \<Longrightarrow>
   public_handler trustXFF now (gate_handler rtc sib egress) r s =
     (let (ok, rl) = gate_rate_limit trustXFF now r (gs_limiter s); s = s\<lparr>gs_limiter := rl\<rparr>
      in if ok then rtc r s else (http_error ''rate limit exceeded'' StatusTooManyRequests, s))"
  by (simp add: public_handler_def gate_handler_def rtc_route Let_def case_prod_beta)

lemma joins_passing_whole:
  assumes "tokens_left trustXFF now r (gs_limiter s) k" "req_path r = ''/rtc''" "clk_allow clk = now"
  shows "joins_passing (public_handler trustXFF now (gate_handler (handleRTC L g up trustXFF clk) sib egress))
    trustXFF now r n s = min n (k div 2)"
  using assms(1)
proof (induction n arbitrary: s k)
  case (Suc n)
  define h where "h = public_handler trustXFF now (gate_handler (handleRTC L g up trustXFF clk) sib egress)"
  note first = limit_whole [OF Suc.prems]
  note second = limit_whole [OF first(2)]
  have both: "both_limits trustXFF now r s \<longleftrightarrow> 2 \<le> k"
    using first(1) second(1) by (auto simp: both_limits_def case_prod_beta)
  have "tokens_left trustXFF now r (gs_limiter (snd (h r s))) (k - 2)"
    using first second assms(2,3)
    by (cases "k = 0") (auto simp: h_def public_rtc case_prod_beta Let_def handleRTC_limiter numeral_2_eq_2)
  from Suc.IH [OF this] show ?case by (auto simp: both h_def [symmetric])
qed simp

text \<open>
  The burst of joins is ten: the limiter is built with a burst of twenty, but a join on the public
  listener takes one token in the middleware and one in the gate, so of any number of simultaneous joins
  from one client exactly the first ten get past both checks.
\<close>

theorem rtc_burst_is_ten:
  "joins_passing (public_handler trustXFF now
      (gate_handler (handleRTC L g up trustXFF (clk\<lparr>clk_allow := now\<rparr>)) sib egress)) trustXFF now
      (r\<lparr>req_path := ''/rtc''\<rparr>) n (s\<lparr>gs_limiter := Some (NewRateLimiter 10 20 (10 * minute))\<rparr>) = min n 10"
proof -
  have "tokens_left trustXFF now (r\<lparr>req_path := ''/rtc''\<rparr>)
      (gs_limiter (s\<lparr>gs_limiter := Some (NewRateLimiter 10 20 (10 * minute))\<rparr>)) 20"
    by (simp add: tokens_left_def bucket_at_def NewRateLimiter_def)
  from joins_passing_whole [OF this, of "clk\<lparr>clk_allow := now\<rparr>"] show ?thesis by simp
qed

text \<open>Where no pattern with a method matches, every method is routed alike.\<close>

definition method_free :: "mux_pattern list \<Rightarrow> string \<Rightarrow> bool" where
  "method_free pats p = list_all (\<lambda>pat. pat_method pat = None \<or> match_path pat p = None) pats"

definition routed_to :: "mux_pattern list \<Rightarrow> string \<Rightarrow> nat \<Rightarrow> bool" where
  "routed_to pats p i =
     (let q = p @ [slash] in clean_path p = p \<and> method_free pats p \<and> method_free pats q \<and>
        find_pattern pats None p = Some (i, []) \<and>
        (exact_match pats (Some (i, [])) p \<or> \<not> exact_match pats (find_pattern pats None q) q))"

lemma mux_match_method_free: "method_free pats p \<Longrightarrow> mux_match pats m p = find_pattern pats None p"
proof -
  assume free: "method_free pats p"
  have "find_pattern pats (Some x) p = None" for x
    using free by (auto simp: find_pattern_def find_None_iff method_free_def list_all_length)
  then show ?thesis by (simp add: mux_match_def)
qed

lemma routed_to: "routed_to pats p i \<Longrightarrow> mux_find pats m p = MuxHandler i []"
  by (auto simp: routed_to_def mux_find_def Let_def mux_match_method_free)

lemma default_routes:
  "routed_to (sibling_patterns ''/api/apps'' ''/mcp'') WebhookPath 1"
  "routed_to (sibling_patterns ''/api/apps'' ''/mcp'') UsageWebhookPath 2"
  "routed_to (sibling_patterns ''/api/apps'' ''/mcp'') ''/api/apps'' 3"
  "routed_to (sibling_patterns ''/api/apps'' ''/mcp'') ''/api/apps/act'' 4"
  "routed_to (sibling_patterns ''/api/apps'' ''/mcp'') ''/mcp'' 5"
  "routed_to (sibling_patterns ''/api/apps'' ''/mcp'') ''/mcp/x'' 6"
  "routed_to (sibling_patterns ''/api/apps'' ''/mcp'') ''/room-1'' 7"
  "mux_find (sibling_patterns ''/api/apps'' ''/mcp'') ''GET'' ''/healthz'' = MuxHandler 0 []"
  "mux_find (sibling_patterns ''/api/apps'' ''/mcp'') ''POST'' ''/healthz'' = MuxHandler 7 []"
  by code_simp+

text \<open>
  No public route is shadowed: with the platform's default base paths the two webhooks, the app and agent
  mounts and their subtrees reach their own handlers for every method, the health probe answers \<open>GET\<close>, and
  what is left goes to the web client.
\<close>

theorem public_routes_unshadowed:
  "mux_find (sibling_patterns ''/api/apps'' ''/mcp'') ''GET'' ''/healthz'' = MuxHandler 0 [] \<and>
   mux_find (sibling_patterns ''/api/apps'' ''/mcp'') method WebhookPath = MuxHandler 1 [] \<and>
   mux_find (sibling_patterns ''/api/apps'' ''/mcp'') method UsageWebhookPath = MuxHandler 2 [] \<and>
   mux_find (sibling_patterns ''/api/apps'' ''/mcp'') method ''/api/apps'' = MuxHandler 3 [] \<and>
   mux_find (sibling_patterns ''/api/apps'' ''/mcp'') method ''/api/apps/act'' = MuxHandler 4 [] \<and>
   mux_find (sibling_patterns ''/api/apps'' ''/mcp'') method ''/mcp'' = MuxHandler 5 [] \<and>
   mux_find (sibling_patterns ''/api/apps'' ''/mcp'') method ''/mcp/x'' = MuxHandler 6 [] \<and>
   mux_find (sibling_patterns ''/api/apps'' ''/mcp'') ''POST'' ''/healthz'' = MuxHandler 7 [] \<and>
   mux_find (sibling_patterns ''/api/apps'' ''/mcp'') method ''/room-1'' = MuxHandler 7 []"
  by (intro conjI routed_to default_routes)

end
