(* ===== verification/Metering_Pipeline.thy ===== *)
theory Metering_Pipeline
  imports Usage_Meter Cp_Client
begin

text \<open>
  The billing pipeline \<^verbatim>\<open>cmd/vulos-meet/main.go\<close> puts together: the usage receiver
  (\<open>Usage_Meter\<close>) with the control-plane client (\<open>Cp_Client\<close>) as its reporter. Webhook deliveries, the two
  steps of the client's worker and \<open>Close\<close> interleave in any order; the minutes on the metrics surface
  are compared with what reached the client.
\<close>

section \<open>The client as the receiver's reporter\<close>

text \<open>The reporter's state: the client and its history, \<open>None\<close> once a report hit the closed queue (a panic).\<close>

type_synonym 'c cp_queue = "('c usage_client \<times> cp_history) option"

definition reported_event :: "usage_report \<Rightarrow> usage_event" where
  "reported_event r = \<lparr>ue_product = Product, ue_account_id = ur_account r, ue_kind = ur_kind r,
     ue_count = ur_count r, ue_idempotency_key = ur_key r\<rparr>"

definition note_report :: "usage_report \<Rightarrow> 'c usage_client \<Rightarrow> 'c usage_client \<Rightarrow> cp_history \<Rightarrow> cp_history" where
  "note_report r c c' h =
     (if ur_account r = [] \<or> ur_count r \<le> 0 then h
      else if uc_queue c' \<noteq> uc_queue c then h\<lparr>h_accepted := h_accepted h @ [reported_event r]\<rparr>
      else h\<lparr>h_refused := h_refused h @ [reported_event r]\<rparr>)"

definition cp_report :: "usage_report \<Rightarrow> 'c cp_queue \<Rightarrow> 'c cp_queue" where
  "cp_report r q =
     (case q of
        None \<Rightarrow> None
      | Some (c, h) \<Rightarrow>
          (case Report (ur_account r) (ur_kind r) (ur_count r) (ur_key r) (Some c) of
             Some (Some c') \<Rightarrow> Some (c', note_report r c c' h)
           | _ \<Rightarrow> None))"

section \<open>The interleaving\<close>

datatype meter_act = Deliver usage_delivery | WorkerTake | WorkerPost "nat \<Rightarrow> bool" | CloseClient

fun meter_step ::
  "tenant \<Rightarrow> (http_request \<Rightarrow> string option) \<Rightarrow> 'c http_client \<Rightarrow> bool \<Rightarrow> meter_act \<Rightarrow>
     'c cp_queue usage_state \<Rightarrow> 'c cp_queue usage_state" where
  "meter_step T receive client url_ok (Deliver d) u = usage_step T receive (Some cp_report) d u"
| "meter_step T receive client url_ok WorkerTake u =
     u\<lparr>us_reports := map_option (\<lambda>(c, h). (drain_take c, h)) (us_reports u)\<rparr>"
| "meter_step T receive client url_ok (WorkerPost closing) u =
     u\<lparr>us_reports := map_option (\<lambda>(c, h).
        (case drain_post client closing url_ok c of
           (None, c') \<Rightarrow> (c', h)
         | (Some x, c') \<Rightarrow> (c', h\<lparr>h_settled := h_settled h @ [x]\<rparr>))) (us_reports u)\<rparr>"
| "meter_step T receive client url_ok CloseClient u =
     u\<lparr>us_reports := map_option (\<lambda>(c, h). (Close_begin c, h)) (us_reports u)\<rparr>"

definition meter_run ::
  "tenant \<Rightarrow> (http_request \<Rightarrow> string option) \<Rightarrow> 'c http_client \<Rightarrow> bool \<Rightarrow> meter_act list \<Rightarrow>
     'c cp_queue usage_state \<Rightarrow> 'c cp_queue usage_state" where
  "meter_run T receive client url_ok acts u = fold (meter_step T receive client url_ok) acts u"

definition meter_start :: "metrics \<Rightarrow> 'c usage_client \<Rightarrow> 'c cp_queue usage_state" where
  "meter_start m c = \<lparr>us_rooms = [], us_metrics = Some m, us_reports = Some (c, no_history)\<rparr>"

definition event_minutes :: "string \<Rightarrow> usage_event list \<Rightarrow> int" where
  "event_minutes t evs = sum_list (map ue_count (filter (\<lambda>e. ue_account_id e = t) evs))"

text \<open>The events the client holds: the one being posted and the queue.\<close>

definition pending_events :: "'c usage_client \<Rightarrow> usage_event list" where
  "pending_events c = (case uc_busy c of None \<Rightarrow> [] | Some ev \<Rightarrow> [ev]) @ uc_queue c"

section \<open>Accounting\<close>

lemma event_minutes_simps [simp]:
  "event_minutes t [] = 0"
  "event_minutes t (e # xs) = (if ue_account_id e = t then ue_count e else 0) + event_minutes t xs" "event_minutes t (xs @ ys) = event_minutes t xs + event_minutes t ys"
  by (simp_all add: event_minutes_def)

definition queue_ok :: "bool \<Rightarrow> metrics option \<Rightarrow> 'c cp_queue \<Rightarrow> bool" where
  "queue_ok closing m q =
     (case q of
        None \<Rightarrow> closing
      | Some (c, h) \<Rightarrow> cp_inv (c, h) \<and> (uc_closed c \<longrightarrow> closing) \<and> m \<noteq> None \<and>
          (\<forall>t. minutes_metric m t = word_of_int (event_minutes t (h_accepted h) + event_minutes t (h_refused h))))"

lemma drain_take_closed [simp]: "uc_closed (drain_take c) = uc_closed c"
  by (auto simp: drain_take_def split: option.split list.split)

lemma queue_ok_cp_step:
  assumes "queue_ok closing m (Some (c, h))" "cp_step client url_ok (c, h) (c', h')"
    "h_accepted h' = h_accepted h" "h_refused h' = h_refused h" "uc_closed c' \<longrightarrow> uc_closed c \<or> closing"
  shows "queue_ok closing m (Some (c', h'))"
  using assms cp_inv_step [OF assms(2)] by (auto simp: queue_ok_def)

lemma queue_ok_closing: "queue_ok False m q \<Longrightarrow> queue_ok closing m q"
  by (cases q) (auto simp: queue_ok_def)

lemma cp_report_Some:
  "ur_account r \<noteq> [] \<Longrightarrow> 0 < ur_count r \<Longrightarrow>
     cp_report r (Some (c, h)) = map_option (\<lambda>c'. (c', note_report r c c' h)) (enqueue (reported_event r) c)"
  by (simp add: cp_report_def Report_def reported_event_def map_option_case split: option.split)

lemma enqueue_None_iff: "enqueue ev c = None \<longleftrightarrow> uc_closed c"
  by (simp add: enqueue_def)

lemma enqueue_closed: "enqueue ev c = Some c' \<Longrightarrow> uc_closed c' = uc_closed c \<and> \<not> uc_closed c"
  by (auto simp: enqueue_def split: if_splits)

text \<open>A report of positive minutes, together with the metric that counts them.\<close>

lemma queue_ok_report:
  assumes q: "queue_ok closing m q" and r: "ur_account r \<noteq> []" "0 < ur_count r"
  shows "queue_ok closing (ObserveMeetMinutes (ur_account r) (ur_count r) m) (cp_report r q)"
proof (cases q)
  case None
  then show ?thesis using q by (simp add: cp_report_def queue_ok_def)
next
  case (Some ch)
  obtain c h where ch: "q = Some (c, h)" using Some by (cases ch) simp
  show ?thesis
  proof (cases "enqueue (reported_event r) c")
    case None
    then have closing using q by (simp add: ch enqueue_None_iff queue_ok_def)
    then show ?thesis by (simp add: ch cp_report_Some [OF r] None) (simp add: queue_ok_def)
  next
    case (Some c')
    define h' where "h' = note_report r c c' h"
    have h': "h' = (if uc_queue c' \<noteq> uc_queue c then h\<lparr>h_accepted := h_accepted h @ [reported_event r]\<rparr>
        else h\<lparr>h_refused := h_refused h @ [reported_event r]\<rparr>)"
      using r by (simp add: h'_def note_report_def)
    have "cp_step undefined True (c, h) (c', h')"
      using Some by (simp add: h' cp_step.enqueue_accept cp_step.enqueue_refuse)
    then have "cp_inv (c', h')" using q by (auto simp: ch queue_ok_def intro: cp_inv_step)
    moreover have "event_minutes t (h_accepted h') + event_minutes t (h_refused h') =
        event_minutes t (h_accepted h) + event_minutes t (h_refused h) + (if ur_account r = t then ur_count r else 0)" for t
      by (simp add: h' reported_event_def)
    ultimately show ?thesis
      using q r enqueue_closed [OF Some]
      by (simp add: ch cp_report_Some [OF r] Some queue_ok_def flip: h'_def of_int_add)
  qed
qed

definition meter_inv :: "tenant \<Rightarrow> bool \<Rightarrow> 'c cp_queue usage_state \<Rightarrow> bool" where
  "meter_inv T closing u \<longleftrightarrow> usage_rooms_ok T (us_rooms u) \<and> queue_ok closing (us_metrics u) (us_reports u)"

lemma queue_ok_metrics:
  "minutes_metric m' = minutes_metric m \<Longrightarrow> (m' = None \<longleftrightarrow> m = None) \<Longrightarrow> queue_ok closing m' q = queue_ok closing m q"
  by (simp add: queue_ok_def split: option.split)

lemma queue_ok_meet_room [simp]: "queue_ok closing (ObserveMeetRoom ev m) q = queue_ok closing m q"
  by (rule queue_ok_metrics) simp_all

lemma queue_ok_no_minutes: "n \<le> 0 \<Longrightarrow> queue_ok closing (ObserveMeetMinutes t n m) q = queue_ok closing m q"
  by (rule queue_ok_metrics) (auto simp: fun_eq_iff)

lemma meter_inv_event:
  assumes inv: "meter_inv T closing u" and split: "SplitRoom T room = Inr (t, r)"
  shows "meter_inv T closing (apply_event (Some cp_report) iter now now' ev room t r i u)"
proof -
  have rooms: "usage_rooms_ok T (us_rooms u)" and q: "queue_ok closing (us_metrics u) (us_reports u)"
    using inv by (simp_all add: meter_inv_def)
  have bill: "queue_ok closing (ObserveMeetMinutes (ru_tenant ru) n (us_metrics u))
      (if 0 < n then cp_report \<lparr>ur_account = ru_tenant ru, ur_kind = k, ur_count = n, ur_key = key\<rparr> (us_reports u)
       else us_reports u)" if "map_of (us_rooms u) room = Some ru" for ru n k key
    using queue_ok_report [OF q, of "\<lparr>ur_account = ru_tenant ru, ur_kind = k, ur_count = n, ur_key = key\<rparr>"]
      tracked_tenant_valid [OF rooms that] q by (simp add: queue_ok_no_minutes)
  have swap: "ObserveMeetMinutes s n (ObserveMeetRoom e m) = ObserveMeetRoom e (ObserveMeetMinutes s n m)" for s n e m
    by (cases m) (auto simp: ObserveMeetMinutes_def ObserveMeetRoom_def)
  show ?thesis
    unfolding meter_inv_def
    using apply_event_rooms [OF rooms split, of "Some cp_report" iter now now' ev i] bill q
    by (simp add: apply_event_def Let_def swap split: option.split)
qed

lemma meter_inv_step:
  assumes "meter_inv T closing u"
  shows "meter_inv T (closing \<or> act = CloseClient) (meter_step T receive client url_ok act u)"
proof (cases act)
  case (Deliver d)
  then show ?thesis
    using assms meter_inv_event [OF assms]
    by (cases rule: usage_handle_cases [of T receive "Some cp_report" "ud_iter d" "ud_now d" "ud_now_room d" "ud_req d" u])
      (auto simp: usage_step_def)
next
  case WorkerTake
  then show ?thesis
    using assms queue_ok_cp_step [OF _ cp_step.worker_take [of undefined True]]
    by (cases "us_reports u") (auto simp: meter_inv_def)
next
  case (WorkerPost closing')
  show ?thesis
  proof (cases "us_reports u")
    case (Some ch)
    obtain c h where ch: "ch = (c, h)" by fastforce
    obtain x c' where p: "drain_post client closing' url_ok c = (x, c')" by fastforce
    have closed: "uc_closed c' = uc_closed c" "x = None \<Longrightarrow> c' = c"
      using p by (auto simp: drain_post_def case_prod_beta Let_def split: option.splits)
    show ?thesis
      using assms queue_ok_cp_step [OF _ cp_step.worker_post [of client closing' url_ok c _ c' h]] p closed
      by (cases x) (auto simp: WorkerPost Some ch meter_inv_def)
  qed (use assms WorkerPost in \<open>simp add: meter_inv_def\<close>)
next
  case CloseClient
  then show ?thesis
    using assms queue_ok_cp_step [OF _ cp_step.close [of undefined True], of True]
    by (cases "us_reports u") (auto simp: meter_inv_def queue_ok_def Close_begin_def cp_inv_def)
qed

lemma meter_inv_run:
  "meter_inv T closing u \<Longrightarrow> meter_inv T (closing \<or> CloseClient \<in> set acts) (meter_run T receive client url_ok acts u)"
proof (induction acts arbitrary: closing u)
  case (Cons act acts)
  have "(closing \<or> act = CloseClient) \<or> CloseClient \<in> set acts \<longleftrightarrow> closing \<or> CloseClient \<in> set (act # acts)" by auto
  then show ?case
    using Cons.IH [OF meter_inv_step [OF Cons.prems, of act receive client url_ok]] by (simp add: meter_run_def)
qed (simp add: meter_run_def)

text \<open>
  C14. Every metered minute is accounted for: however deliveries, the worker and \<open>Close\<close> interleave, the
  minutes counter of a tenant equals (modulo its 64 bits) the minutes the control plane client settled,
  still holds, and refused because its queue was full. A report is lost to a panic only when the client
  was closed first; and the client exists whenever its URL is set.
\<close>

theorem metered_minutes_accounted:
  "case NewUsageClient cfg net of
     Inl _ \<Rightarrow> cp_url cfg = []
   | Inr c0 \<Rightarrow>
       (let u = meter_run T receive client url_ok acts (meter_start NewMetrics c0) in
        case us_reports u of
          None \<Rightarrow> CloseClient \<in> set acts
        | Some (c, h) \<Rightarrow>
            minutes_metric (us_metrics u) t =
              word_of_int (event_minutes t (map fst (h_settled h)) + event_minutes t (pending_events c) +
                event_minutes t (h_refused h)))"
proof (cases "NewUsageClient cfg net")
  case (Inl e)
  then show ?thesis by (auto simp: NewUsageClient_def Let_def split: if_splits)
next
  case (Inr c0)
  have "minutes_metric (Some NewMetrics) t = 0" for t
    by (simp add: minutes_metric_def NewMetrics_def count_at_def)
  then have "meter_inv T (uc_closed c0) (meter_start NewMetrics c0)"
    using cp_inv_new [OF Inr] by (simp add: meter_inv_def queue_ok_def meter_start_def usage_rooms_ok_def no_history_def)
  moreover have "\<not> uc_closed c0" using Inr by (auto simp: NewUsageClient_def Let_def split: if_splits)
  ultimately have "meter_inv T (CloseClient \<in> set acts) (meter_run T receive client url_ok acts (meter_start NewMetrics c0))"
    using meter_inv_run [of T False "meter_start NewMetrics c0" acts receive client url_ok] by simp
  then show ?thesis
    using Inr by (auto simp: Let_def meter_inv_def queue_ok_def cp_inv_def pending_events_def split: option.splits)
qed

end
