(* ===== verification/Metrics_Text.thy ===== *)
theory Metrics_Text
  imports Metrics Json_Roundtrip Tenant_Gate "HOL-Library.Multiset"
begin

text \<open>
  The text exposition of the registry (\<open>Handler\<close>, \<open>writeText\<close> and \<open>escapeLabel\<close> of
  \<^verbatim>\<open>internal/wrap/metrics.go\<close>): every family with its help, type and sorted samples, as the source writes
  them. The verb \<open>%q\<close> is \<^verbatim>\<open>strconv.Quote\<close>; which code points from 128 up are printable is a parameter.
  The lemmas read the text back: no label can break a line, a scrape of it parses to exactly what the fields
  of the registry hold, and which labels come out as they went in.
\<close>

section \<open>Quoting\<close>

text \<open>\<open>utf8.DecodeRune\<close>: the code point and its width, or \<open>None\<close> for an invalid byte.\<close>

definition byte_in :: "int \<Rightarrow> int \<Rightarrow> char \<Rightarrow> bool" where
  "byte_in lo hi c \<longleftrightarrow> lo \<le> of_char c \<and> of_char c \<le> hi"

definition cont_ok :: "string \<Rightarrow> (int \<times> int) list \<Rightarrow> bool" where
  "cont_ok s rs \<longleftrightarrow> length rs \<le> length s \<and> list_all2 (\<lambda>c (lo, hi). byte_in lo hi c) (take (length rs) s) rs"

definition rune_of :: "int \<Rightarrow> string \<Rightarrow> int" where
  "rune_of lead cs = foldl (\<lambda>r c. 64 * r + (of_char c - 0x80)) lead cs"

definition decode_rune :: "char \<Rightarrow> string \<Rightarrow> (int \<times> nat) option" where
  "decode_rune c s =
     (let b = (of_char c :: int); tail = (0x80, 0xBF) in
      if b < 0x80 then Some (b, 1)
      else if 0xC2 \<le> b \<and> b \<le> 0xDF then
        (if cont_ok s [tail] then Some (rune_of (b - 0xC0) (take 1 s), 2) else None)
      else if 0xE0 \<le> b \<and> b \<le> 0xEF then
        (if cont_ok s [if b = 0xE0 then (0xA0, 0xBF) else if b = 0xED then (0x80, 0x9F) else tail, tail]
         then Some (rune_of (b - 0xE0) (take 2 s), 3) else None)
      else if 0xF0 \<le> b \<and> b \<le> 0xF4 then
        (if cont_ok s [if b = 0xF0 then (0x90, 0xBF) else if b = 0xF4 then (0x80, 0x8F) else tail, tail, tail]
         then Some (rune_of (b - 0xF0) (take 3 s), 4) else None)
      else None)"

definition hex_digits :: "nat \<Rightarrow> int \<Rightarrow> string" where
  "hex_digits k n = map (\<lambda>i. hex_digit (n div 16 ^ i mod 16)) (rev [0..<k])"

definition escape_rune :: "(int \<Rightarrow> bool) \<Rightarrow> int \<Rightarrow> string" where
  "escape_rune isPrint r =
     (if r = 0x22 \<or> r = 0x5C then [backslash, char_of r]
      else if (if r < 0x80 then 0x20 \<le> r \<and> r \<noteq> 0x7F else isPrint r) then utf8 r
      else if r = 7 then [backslash, CHR ''a'']
      else if r = 8 then [backslash, CHR ''b'']
      else if r = 12 then [backslash, CHR ''f'']
      else if r = 10 then [backslash, CHR ''n'']
      else if r = 13 then [backslash, CHR ''r'']
      else if r = 9 then [backslash, CHR ''t'']
      else if r = 11 then [backslash, CHR ''v'']
      else if r < 0x20 \<or> r = 0x7F then [backslash, CHR ''x''] @ hex_digits 2 r
      else if r < 0x10000 then [backslash, CHR ''u''] @ hex_digits 4 r
      else [backslash, CHR ''U''] @ hex_digits 8 r)"

function quote_runes :: "(int \<Rightarrow> bool) \<Rightarrow> string \<Rightarrow> string" where
  "quote_runes isPrint [] = []"
| "quote_runes isPrint (c # s) =
     (case decode_rune c s of
        None \<Rightarrow> [backslash, CHR ''x''] @ hex_digits 2 (of_char c) @ quote_runes isPrint s
      | Some (r, w) \<Rightarrow> escape_rune isPrint r @ quote_runes isPrint (drop (w - 1) s))"
  by pat_completeness auto
termination by (relation "measure (\<lambda>(p, s). length s)") auto

definition go_quote :: "(int \<Rightarrow> bool) \<Rightarrow> string \<Rightarrow> string" where
  "go_quote isPrint s = quote # quote_runes isPrint s @ [quote]"

text \<open>The loop of \<open>escapeLabel\<close> over runes; an invalid byte is written as the replacement character.\<close>

function escape_label_runes :: "string \<Rightarrow> string" where
  "escape_label_runes [] = []"
| "escape_label_runes (c # s) =
     (if c = backslash then [backslash, backslash] @ escape_label_runes s
      else if c = newline then [backslash, CHR ''n''] @ escape_label_runes s
      else if c = quote then [backslash, quote] @ escape_label_runes s
      else case decode_rune c s of
        None \<Rightarrow> utf8 0xFFFD @ escape_label_runes s
      | Some (r, w) \<Rightarrow> utf8 r @ escape_label_runes (drop (w - 1) s))"
  by pat_completeness auto
termination by (relation "measure length") auto

definition escapeLabel :: "string \<Rightarrow> string" where
  "escapeLabel s = (if list_all (\<lambda>c. c \<noteq> backslash \<and> c \<noteq> newline \<and> c \<noteq> quote) s then s else escape_label_runes s)"

section \<open>Families\<close>

text \<open>A family: name, help, type, and its samples as the label part and the value.\<close>

record metric_family =
  mf_name :: string
  mf_help :: string
  mf_kind :: string
  mf_samples :: "(string \<times> string) list"

definition render_family :: "metric_family \<Rightarrow> string" where
  "render_family f =
     ''# HELP '' @ mf_name f @ '' '' @ mf_help f @ [newline] @
     ''# TYPE '' @ mf_name f @ '' '' @ mf_kind f @ [newline] @
     concat (map (\<lambda>(l, v). mf_name f @ l @ '' '' @ v @ [newline]) (mf_samples f))"

definition show_u64 :: "u64 \<Rightarrow> string" where
  "show_u64 n = show_int (uint n)"

definition label :: "string \<Rightarrow> string \<Rightarrow> string" where
  "label k q = ''{'' @ k @ ''='' @ q @ ''}''"

definition value_at :: "('k, 'v::zero) go_map \<Rightarrow> 'k \<Rightarrow> 'v" where
  "value_at m k = (case map_of m k of Some v \<Rightarrow> v | None \<Rightarrow> 0)"

text \<open>A counter by a label of a fixed alphabet, and one by tenant.\<close>

definition counter_samples :: "(int \<Rightarrow> bool) \<Rightarrow> string \<Rightarrow> (string, u64) go_map \<Rightarrow> (string \<times> string) list" where
  "counter_samples p k m = map (\<lambda>o'. (label k (go_quote p o'), show_u64 (value_at m o'))) (sort (map fst m))"

definition gauge :: "string \<Rightarrow> string \<Rightarrow> string \<Rightarrow> string \<Rightarrow> metric_family" where
  "gauge name hlp kind v = \<lparr>mf_name = name, mf_help = hlp, mf_kind = kind, mf_samples = [([], v)]\<rparr>"

definition admin_family :: "metrics \<Rightarrow> metric_family" where
  "admin_family m = \<lparr>mf_name = ''vulos_meet_admin_requests_total'',
     mf_help = ''Count of admin HTTP responses by status code.'', mf_kind = ''counter'',
     mf_samples = map (\<lambda>s. (label ''status'' (quote # show_int s @ [quote]), show_u64 (value_at (m_adminRequests m) s)))
       (sort (map fst (m_adminRequests m)))\<rparr>"

definition token_family :: "(int \<Rightarrow> bool) \<Rightarrow> metrics \<Rightarrow> metric_family" where
  "token_family p m = \<lparr>mf_name = ''vulos_meet_token_validation_total'',
     mf_help = ''Count of VULOS-MEET/1 token validations by outcome.'', mf_kind = ''counter'',
     mf_samples = counter_samples p ''outcome'' (m_tokenValidation m)\<rparr>"

definition active_rooms_family :: "(int \<Rightarrow> bool) \<Rightarrow> metrics \<Rightarrow> metric_family" where
  "active_rooms_family p m = \<lparr>mf_name = ''vulos_meet_active_rooms'',
     mf_help = ''Active rooms per tenant, refreshed on admin list.'', mf_kind = ''gauge'',
     mf_samples = map (\<lambda>t. (label ''tenant'' (go_quote p (escapeLabel t)), show_int (value_at (m_activeRooms m) t)))
       (sort (map fst (m_activeRooms m)))\<rparr>"

definition egress_family :: "(int \<Rightarrow> bool) \<Rightarrow> metrics \<Rightarrow> metric_family" where
  "egress_family p m = \<lparr>mf_name = ''vulos_meet_egress_requests_total'',
     mf_help = ''Count of egress-proxy requests by outcome.'', mf_kind = ''counter'',
     mf_samples = counter_samples p ''outcome'' (m_egressRequests m)\<rparr>"

definition admission_family :: "(int \<Rightarrow> bool) \<Rightarrow> metrics \<Rightarrow> metric_family" where
  "admission_family p m = \<lparr>mf_name = ''vulos_meet_room_admission_total'',
     mf_help = ''Count of token-valid /rtc join admission decisions against the MaxRooms ceiling.'', mf_kind = ''counter'',
     mf_samples = counter_samples p ''outcome'' (m_roomAdmission m)\<rparr>"

definition limit_families :: "metrics \<Rightarrow> metric_family list" where
  "limit_families m =
     [gauge ''vulos_meet_max_participants'' ''Configured per-room participant cap rendered into LiveKit room.max_participants.'' ''gauge''
        (show_int (m_maxParticipants m)),
      gauge ''vulos_meet_max_rooms'' ''Configured per-box concurrent-room ceiling enforced at the admin layer.'' ''gauge''
        (show_int (m_maxRooms m)),
      gauge ''vulos_meet_total_rooms'' ''Total rooms across all tenants observed on the most recent admin list.'' ''gauge''
        (show_int (m_totalRooms m)),
      gauge ''vulos_meet_rooms_at_capacity'' ''1 when the box has reached its configured max_rooms ceiling, else 0.'' ''gauge''
        (show_int (m_roomsAtCapacity m))]"

text \<open>Sorted by tenant, then room; \<^const>\<open>sort_key\<close> is stable.\<close>

definition sorted_rooms :: "(string \<times> string) list \<Rightarrow> (string \<times> string) list" where
  "sorted_rooms ks = sort_key fst (sort_key snd ks)"

definition room_label :: "(int \<Rightarrow> bool) \<Rightarrow> string \<times> string \<Rightarrow> string" where
  "room_label p k =
     ''{tenant='' @ go_quote p (escapeLabel (fst k)) @ '',room='' @ go_quote p (escapeLabel (snd k)) @ ''}''"

definition participants_family :: "(int \<Rightarrow> bool) \<Rightarrow> metrics \<Rightarrow> metric_family" where
  "participants_family p m = \<lparr>mf_name = ''vulos_meet_participants_in_room'',
     mf_help = ''Current participant count per room, refreshed on admin list.'', mf_kind = ''gauge'',
     mf_samples = map (\<lambda>k. (room_label p k, show_int (value_at (m_participantsInRoom m) k)))
       (sorted_rooms (map fst (m_participantsInRoom m)))\<rparr>"

definition egress_job_families :: "(int \<Rightarrow> bool) \<Rightarrow> metrics \<Rightarrow> metric_family list" where
  "egress_job_families p m =
     [\<lparr>mf_name = ''vulos_meet_egress_lifecycle_total'',
       mf_help = ''Count of egress job lifecycle transitions by event (started/completed/failed).'', mf_kind = ''counter'',
       mf_samples = counter_samples p ''event'' (m_egressLifecycle m)\<rparr>,
      gauge ''vulos_meet_egress_in_progress'' ''Egress jobs currently in progress (started minus completed/failed).'' ''gauge''
        (show_int (m_egressInProgress m))]"

definition recording_families :: "(int \<Rightarrow> bool) \<Rightarrow> metrics \<Rightarrow> metric_family list" where
  "recording_families p m =
     [\<lparr>mf_name = ''vulos_meet_recording_lifecycle_total'',
       mf_help = ''Count of recording-ledger state transitions by state.'', mf_kind = ''counter'',
       mf_samples = counter_samples p ''state'' (m_recordingLifecycle m)\<rparr>,
      gauge ''vulos_meet_recording_bytes_total'' ''Cumulative bytes of finalised (available) recordings observed.'' ''counter''
        (show_u64 (m_recordingBytesTotal m)),
      gauge ''vulos_meet_recording_duration_ms_total'' ''Cumulative duration (ms) of finalised (available) recordings observed.'' ''counter''
        (show_u64 (m_recordingDurationMsTotal m))]"

definition retention_families :: "metrics \<Rightarrow> metric_family list" where
  "retention_families m =
     [gauge ''vulos_meet_retention_expired_total'' ''Cumulative recordings marked expired by the retention sweep.'' ''counter''
        (show_u64 (m_retentionExpiredTotal m)),
      gauge ''vulos_meet_retention_deleted_total'' ''Cumulative recordings whose blob delete was confirmed by the retention sweep.'' ''counter''
        (show_u64 (m_retentionDeletedTotal m)),
      gauge ''vulos_meet_retention_delete_errors_total'' ''Cumulative blob-delete failures (left expired for retry) during retention sweeps.'' ''counter''
        (show_u64 (m_retentionDeleteErrTotal m)),
      gauge ''vulos_meet_retention_bytes_freed_total'' ''Cumulative bytes freed by confirmed retention deletions.'' ''counter''
        (show_u64 (m_retentionBytesFreed m))]"

definition meet_families :: "(int \<Rightarrow> bool) \<Rightarrow> metrics \<Rightarrow> metric_family list" where
  "meet_families p m =
     [\<lparr>mf_name = ''vulos_meet_meet_rooms_total'',
       mf_help = ''Count of meet room lifecycle transitions by event (started/finished).'', mf_kind = ''counter'',
       mf_samples = counter_samples p ''event'' (m_meetRooms m)\<rparr>,
      \<lparr>mf_name = ''vulos_meet_meet_minutes_total'',
       mf_help = ''Cumulative participant-minutes metered per tenant as rooms finish (reported to cp).'', mf_kind = ''counter'',
       mf_samples = map (\<lambda>t. (label ''tenant'' (go_quote p (escapeLabel t)), show_u64 (value_at (m_meetMinutes m) t)))
         (sort (map fst (m_meetMinutes m)))\<rparr>]"

definition families :: "(int \<Rightarrow> bool) \<Rightarrow> metrics \<Rightarrow> metric_family list" where
  "families p m =
     [admin_family m, token_family p m, active_rooms_family p m, egress_family p m, admission_family p m] @
     limit_families m @ [participants_family p m] @ egress_job_families p m @ recording_families p m @
     retention_families m @ meet_families p m"

definition writeText :: "(int \<Rightarrow> bool) \<Rightarrow> metrics \<Rightarrow> string" where
  "writeText p m = concat (map render_family (families p m))"

definition metrics_handler :: "(int \<Rightarrow> bool) \<Rightarrow> metrics \<Rightarrow> http_response" where
  "metrics_handler p m =
     \<lparr>rsp_status = StatusOK, rsp_header = [(''Content-Type'', [''text/plain; version=0.0.4; charset=utf-8''])],
      rsp_body = writeText p m\<rparr>"

section \<open>No label breaks a line\<close>

lemma byte_in_le: "byte_in lo hi c \<Longrightarrow> (of_char c :: int) \<le> hi"
  by (simp add: byte_in_def)

lemma cont_ok_iff:
  "cont_ok s [(a, b)] \<longleftrightarrow> (\<exists>x t. s = x # t \<and> byte_in a b x)"
  "cont_ok s [(a, b), (c, d)] \<longleftrightarrow> (\<exists>x y t. s = x # y # t \<and> byte_in a b x \<and> byte_in c d y)"
  "cont_ok s [(a, b), (c, d), (e, f)] \<longleftrightarrow> (\<exists>x y z t. s = x # y # z # t \<and> byte_in a b x \<and> byte_in c d y \<and> byte_in e f z)"
  unfolding cont_ok_def
  by (cases s; simp; cases "tl s"; simp; cases "tl (tl s)"; simp; fail)+

lemma decode_rune_bound:
  assumes "decode_rune c s = Some (r, w)"
  shows "r \<le> 0x13FFFF"
proof -
  let ?b = "of_char c :: int"
  have seqs: "rune_of l [x] = 64 * l + (of_char x - 0x80)" "rune_of l [x, y] = 64 * (64 * l + (of_char x - 0x80)) + (of_char y - 0x80)"
    "rune_of l [x, y, z] = 64 * (64 * (64 * l + (of_char x - 0x80)) + (of_char y - 0x80)) + (of_char z - 0x80)" for l x y z
    by (simp_all add: rune_of_def)
  have le: "byte_in lo hi x \<Longrightarrow> hi \<le> 0xBF \<Longrightarrow> (of_char x :: int) \<le> 0xBF" for lo hi x
    using byte_in_le by fastforce
  define p3 where "p3 = (if ?b = 0xE0 then (0xA0, 0xBF) else if ?b = 0xED then (0x80, 0x9F) else (0x80 :: int, 0xBF :: int))"
  define p4 where "p4 = (if ?b = 0xF0 then (0x90, 0xBF) else if ?b = 0xF4 then (0x80, 0x8F) else (0x80 :: int, 0xBF :: int))"
  have p: "snd p3 \<le> 0xBF" "snd p4 \<le> 0xBF" by (simp_all add: p3_def p4_def)
  consider "?b < 0x80" | "\<not> ?b < 0x80" "0xC2 \<le> ?b \<and> ?b \<le> 0xDF" | "\<not> ?b < 0x80" "\<not> (0xC2 \<le> ?b \<and> ?b \<le> 0xDF)" "0xE0 \<le> ?b \<and> ?b \<le> 0xEF"
    | "\<not> ?b < 0x80" "\<not> (0xC2 \<le> ?b \<and> ?b \<le> 0xDF)" "\<not> (0xE0 \<le> ?b \<and> ?b \<le> 0xEF)" by blast
  then show ?thesis
  proof cases
    case 1
    then show ?thesis using assms by (simp add: decode_rune_def)
  next
    case 2
    then have "cont_ok s [(0x80, 0xBF)]" "r = rune_of (?b - 0xC0) (take 1 s)"
      using assms by (auto simp: decode_rune_def Let_def split: if_split_asm)
    then obtain x t where "s = x # t" "byte_in 0x80 0xBF x" by (auto simp: cont_ok_iff)
    then show ?thesis using 2 le [of "0x80" "0xBF" x] \<open>r = _\<close> by (simp add: seqs)
  next
    case 3
    then have "cont_ok s [(fst p3, snd p3), (0x80, 0xBF)]" and r: "r = rune_of (?b - 0xE0) (take 2 s)"
      using assms by (simp_all add: decode_rune_def Let_def p3_def [symmetric] split: if_split_asm)
    then obtain x y t where "s = x # y # t" "byte_in (fst p3) (snd p3) x" "byte_in 0x80 0xBF y"
      by (auto simp only: cont_ok_iff)
    then show ?thesis using 3 r p le [of "fst p3" "snd p3" x] le [of "0x80" "0xBF" y] by (simp add: seqs)
  next
    case 4
    then have "?b \<le> 0xF4" "cont_ok s [(fst p4, snd p4), (0x80, 0xBF), (0x80, 0xBF)]" and r: "r = rune_of (?b - 0xF0) (take 3 s)"
      using assms by (simp_all add: decode_rune_def Let_def p4_def [symmetric] split: if_split_asm)
    then obtain x y z t where "s = x # y # z # t" "byte_in (fst p4) (snd p4) x" "byte_in 0x80 0xBF y" "byte_in 0x80 0xBF z"
      by (auto simp only: cont_ok_iff)
    then show ?thesis
      using \<open>?b \<le> 0xF4\<close> r p le [of "fst p4" "snd p4" x] le [of "0x80" "0xBF" y] le [of "0x80" "0xBF" z] by (simp add: seqs)
  qed
qed

lemma of_char_of: "0 \<le> n \<Longrightarrow> n < 256 \<Longrightarrow> (of_char (char_of n) :: int) = n"
  by simp

lemma utf8_bytes:
  assumes "0x80 \<le> r" "r \<le> 0x13FFFF" "c \<in> set (utf8 r)"
  shows "0x80 \<le> (of_char c :: int)"
proof -
  have d: "0 \<le> r div 262144" "r div 262144 \<le> 4" "0 \<le> r div 64" "0 \<le> r div 4096"
    using assms(1,2) zdiv_mono1 [of r "0x13FFFF" 262144] by simp_all
  have m: "0 \<le> x mod 64 \<and> x mod 64 < 64" for x :: int by simp
  have s: "r < 0x800 \<Longrightarrow> r div 64 < 32" "r < 0x10000 \<Longrightarrow> r div 4096 < 16" by simp_all
  show ?thesis
    using assms(3) d m [of r] m [of "r div 64"] m [of "r div 4096"] s assms(1)
    by (auto simp: utf8_def of_char_of split: if_splits)
qed

lemma newline_code: "(of_char newline :: int) = 10"
  by (simp add: newline_def of_char_def)

lemma hex_digits_no_lf: "newline \<notin> set (hex_digits k n)"
proof -
  have "\<forall>k\<in>set [0..15]. hex_digit k \<noteq> newline" by code_simp
  then have "hex_digit (n div 16 ^ i mod 16) \<noteq> newline" for i by simp
  then show ?thesis unfolding hex_digits_def by (metis (no_types, lifting) imageE set_map)
qed

lemma escape_rune_no_lf:
  assumes "r \<le> 0x13FFFF"
  shows "newline \<notin> set (escape_rune p r)"
proof -
  have lits: "newline \<noteq> backslash" "newline \<notin> set ''abfnrtvxuU''" "newline \<noteq> char_of (0x22 :: int)" "newline \<noteq> char_of (0x5C :: int)"
    by code_simp+
  have "newline \<notin> set (utf8 r)" if "0x80 \<le> r"
    using utf8_bytes [OF that assms] newline_code by fastforce
  moreover have "newline \<notin> set (utf8 r)" if "0x20 \<le> r" "r < 0x80"
  proof -
    have "(of_char (char_of r :: char) :: int) = r" using that by simp
    then have "char_of r \<noteq> newline" using that newline_code by force
    then show ?thesis using that by (simp add: utf8_def)
  qed
  ultimately show ?thesis
    using lits hex_digits_no_lf by (auto simp: escape_rune_def not_less)
qed

lemma quote_runes_no_lf: "newline \<notin> set (quote_runes p s)"
proof (induction p s rule: quote_runes.induct)
  case (2 p c s)
  have "newline \<noteq> backslash" "newline \<noteq> CHR ''x''" by (simp_all add: newline_def backslash_def)
  with 2 show ?case
    by (auto simp: hex_digits_no_lf dest: escape_rune_no_lf [OF decode_rune_bound] split: option.split)
qed simp

lemma go_quote_no_lf: "newline \<notin> set (go_quote p s)"
  by (simp add: go_quote_def quote_runes_no_lf) (simp add: newline_def quote_def)

section \<open>Reading the text back\<close>

text \<open>
  A reference scraper: the lines that are not comments, each split at its last space into the series and
  its value.
\<close>

definition split_sample :: "string \<Rightarrow> string \<times> string" where
  "split_sample l = (case last_index (CHR '' '') l of None \<Rightarrow> (l, []) | Some i \<Rightarrow> (take i l, drop (Suc i) l))"

definition scrape :: "string \<Rightarrow> (string \<times> string) list" where
  "scrape t = map split_sample (filter (\<lambda>l. l \<noteq> [] \<and> hd l \<noteq> CHR ''#'') (split_on newline t))"

definition family_samples :: "metric_family \<Rightarrow> (string \<times> string) list" where
  "family_samples f = map (\<lambda>(l, v). (mf_name f @ l, v)) (mf_samples f)"

definition samples :: "(int \<Rightarrow> bool) \<Rightarrow> metrics \<Rightarrow> (string \<times> string) list" where
  "samples p m = concat (map family_samples (families p m))"

definition family_lines :: "metric_family \<Rightarrow> string list" where
  "family_lines f =
     [''# HELP '' @ mf_name f @ '' '' @ mf_help f, ''# TYPE '' @ mf_name f @ '' '' @ mf_kind f] @
     map (\<lambda>(l, v). mf_name f @ l @ '' '' @ v) (mf_samples f)"

lemma render_family_lines: "render_family f = unlines (family_lines f)"
  by (simp add: render_family_def family_lines_def unlines_def newline_def comp_def case_prod_beta')

text \<open>What makes a family's lines readable: nothing in them ends a line, and a value holds no space.\<close>

definition samples_ok :: "(string \<times> string) list \<Rightarrow> bool" where
  "samples_ok xs \<longleftrightarrow> (\<forall>x\<in>set xs. newline \<notin> set (fst x) \<and> newline \<notin> set (snd x) \<and> CHR '' '' \<notin> set (snd x))"

lemma samples_ok_map: "(\<And>x. newline \<notin> set (f x) \<and> newline \<notin> set (g x) \<and> CHR '' '' \<notin> set (g x)) \<Longrightarrow> samples_ok (map (\<lambda>x. (f x, g x)) xs)"
  by (simp add: samples_ok_def)

definition family_ok :: "metric_family \<Rightarrow> bool" where
  "family_ok f \<longleftrightarrow>
     newline \<notin> set (mf_name f) \<and> newline \<notin> set (mf_help f) \<and> newline \<notin> set (mf_kind f) \<and>
     mf_name f \<noteq> [] \<and> hd (mf_name f) \<noteq> CHR ''#'' \<and>
     samples_ok (mf_samples f)"

lemma family_lines_no_lf: "family_ok f \<Longrightarrow> \<forall>l\<in>set (family_lines f). newline \<notin> set l"
  by (auto simp: family_ok_def samples_ok_def family_lines_def newline_def)

lemma split_sample_line: "CHR '' '' \<notin> set v \<Longrightarrow> split_sample (s @ CHR '' '' # v) = (s, v)"
  by (simp add: split_sample_def last_index_append)

lemma scrape_family:
  assumes "family_ok f"
  shows "map split_sample (filter (\<lambda>l. l \<noteq> [] \<and> hd l \<noteq> CHR ''#'') (family_lines f)) = family_samples f"
proof -
  have "filter (\<lambda>l. l \<noteq> [] \<and> hd l \<noteq> CHR ''#'') (family_lines f) = map (\<lambda>(l, v). mf_name f @ l @ '' '' @ v) (mf_samples f)"
    using assms by (auto simp: family_lines_def family_ok_def intro!: filter_True)
  moreover have "split_sample (mf_name f @ l @ '' '' @ v) = (mf_name f @ l, v)" if "(l, v) \<in> set (mf_samples f)" for l v
    using split_sample_line [of v "mf_name f @ l"] assms that by (fastforce simp: family_ok_def samples_ok_def)
  ultimately show ?thesis by (auto simp: family_samples_def)
qed

lemma scrape_families:
  assumes "\<forall>f\<in>set fs. family_ok f"
  shows "scrape (concat (map render_family fs)) = concat (map family_samples fs)"
proof -
  have "concat (map render_family fs) = unlines (concat (map family_lines fs))"
    by (induction fs) (simp_all add: render_family_lines)
  moreover have "split_on newline (unlines (concat (map family_lines fs))) = concat (map family_lines fs) @ [[]]"
    unfolding newline_def
    by (rule split_on_unlines) (use assms family_lines_no_lf in \<open>fastforce simp: newline_def\<close>)
  ultimately have "scrape (concat (map render_family fs)) =
      map split_sample (filter (\<lambda>l. l \<noteq> [] \<and> hd l \<noteq> CHR ''#'') (concat (map family_lines fs)))"
    by (simp add: scrape_def)
  also have "\<dots> = concat (map family_samples fs)"
    using assms by (induction fs) (simp_all add: scrape_family)
  finally show ?thesis .
qed

lemma show_int_plain: "newline \<notin> set (show_int i) \<and> CHR '' '' \<notin> set (show_int i)"
proof -
  have "\<not> is_digit newline" "\<not> is_digit (CHR '' '')" "newline \<noteq> CHR ''-''" by (simp_all add: is_digit_nat newline_def)
  then show ?thesis using show_int_chars [of newline i] show_int_chars [of "CHR '' ''" i] by auto
qed

lemma newline_lits: "newline \<notin> set ''{=},tenantroomoutcomeeventstatestatus''" "newline \<noteq> quote"
  by (simp_all add: newline_def quote_def)

lemma label_no_lf: "newline \<notin> set k \<Longrightarrow> newline \<notin> set q \<Longrightarrow> newline \<notin> set (label k q)"
  by (simp add: label_def) (simp add: newline_def)

lemma newline_words: "newline \<notin> set ''tenant''" "newline \<notin> set ''status''"
  by (simp_all add: newline_def)

lemmas label_words = label_no_lf [OF newline_words(1)] label_no_lf [OF newline_words(2)]

lemma counter_samples_ok: "newline \<notin> set k \<Longrightarrow> samples_ok (counter_samples p k m)"
  unfolding counter_samples_def
  by (rule samples_ok_map) (simp add: label_no_lf go_quote_no_lf show_u64_def show_int_plain)

lemma gauge_samples_ok: "samples_ok [([], show_int i)]"
  by (simp add: samples_ok_def show_int_plain)

lemma tenant_samples_ok:
  "samples_ok (map (\<lambda>t. (label ''tenant'' (go_quote p (escapeLabel t)), show_int (g t))) ts)"
  by (rule samples_ok_map) (simp add: label_words go_quote_no_lf show_int_plain)

lemma status_samples_ok:
  "samples_ok (map (\<lambda>s. (label ''status'' (quote # show_int s @ [quote]), show_int (g s))) ss)"
  by (rule samples_ok_map) (simp add: label_words show_int_plain newline_lits(2))

lemma room_samples_ok: "samples_ok (map (\<lambda>k. (room_label p k, show_int (g k))) ks)"
proof (rule samples_ok_map)
  fix k
  have "newline \<notin> set ''{tenant=''" "newline \<notin> set '',room=''" "newline \<notin> set ''}''" by (simp_all add: newline_def)
  then show "newline \<notin> set (room_label p k) \<and> newline \<notin> set (show_int (g k)) \<and> CHR '' '' \<notin> set (show_int (g k))"
    using go_quote_no_lf show_int_plain unfolding room_label_def by simp
qed

lemma families_ok: "\<forall>f\<in>set (families p m). family_ok f"
proof -
  have c: "samples_ok (counter_samples p ''outcome'' g)" "samples_ok (counter_samples p ''event'' g)"
    "samples_ok (counter_samples p ''state'' g)" for g
    by (simp_all add: counter_samples_ok newline_def)
  have n: "newline = CHR 0x0A" by (simp add: newline_def)
  show ?thesis
    unfolding families_def limit_families_def egress_job_families_def recording_families_def retention_families_def
      meet_families_def admin_family_def token_family_def active_rooms_family_def egress_family_def admission_family_def
      participants_family_def gauge_def show_u64_def
    by (simp add: family_ok_def c gauge_samples_ok tenant_samples_ok status_samples_ok room_samples_ok n)
qed

section \<open>Registries the program can reach\<close>

text \<open>The registries that arise from a new one by any interleaving of the operations.\<close>

inductive metrics_reachable :: "metrics option \<Rightarrow> bool" where
  fresh: "metrics_reachable (Some NewMetrics)"
| room_event: "metrics_reachable mo \<Longrightarrow> metrics_reachable (ObserveMeetRoom ev mo)"
| minutes: "metrics_reachable mo \<Longrightarrow> metrics_reachable (ObserveMeetMinutes t n mo)"
| admission: "metrics_reachable mo \<Longrightarrow> metrics_reachable (ObserveRoomAdmission ra mo)"
| limits: "metrics_reachable mo \<Longrightarrow> metrics_reachable (SetRoomLimits a b mo)"
| egress: "metrics_reachable mo \<Longrightarrow> metrics_reachable (ObserveEgress eo mo)"
| set_participants: "metrics_reachable mo \<Longrightarrow> metrics_reachable (SetParticipantsInRoom t r n mo)"
| reset_participants: "metrics_reachable mo \<Longrightarrow> metrics_reachable (ResetParticipantsForTenant t mo)"
| egress_job: "metrics_reachable mo \<Longrightarrow> metrics_reachable (ObserveEgressLifecycle el mo)"
| recording: "metrics_reachable mo \<Longrightarrow> metrics_reachable (ObserveRecordingLifecycle st mo)"
| recording_bytes: "metrics_reachable mo \<Longrightarrow> metrics_reachable (ObserveRecordingBytes x y mo)"
| sweep: "metrics_reachable mo \<Longrightarrow> metrics_reachable (ObserveRetentionSweep res mo)"
| admin: "metrics_reachable mo \<Longrightarrow> metrics_reachable (ObserveAdmin code mo)"
| token: "metrics_reachable mo \<Longrightarrow> metrics_reachable (ObserveTokenOutcome oc mo)"
| active: "metrics_reachable mo \<Longrightarrow> metrics_reachable (SetActiveRooms t n mo)"
| total_rooms: "metrics_reachable mo \<Longrightarrow> metrics_reachable (SetTotalRooms n mo)"

lemma reachable_ok: "metrics_reachable mo \<Longrightarrow> metrics_opt_ok mo"
  by (induction rule: metrics_reachable.induct)
    (simp_all add: metrics_ok_new keeps_counters keeps_lifecycle keeps_recording_lifecycle keeps_participants)

section \<open>Properties\<close>

text \<open>
  The registry is well formed at every moment: whatever operations ran, in whatever order, each fixed
  label set stays inside its alphabet, every map has one entry per key, every participant entry has a
  tenant, a room and a positive count, and the in-progress gauge is not negative.
\<close>

theorem registry_always_well_formed:
  "metrics_reachable (Some m) \<Longrightarrow> metrics_ok m"
  using reachable_ok [of "Some m"] by simp

theorem registry_always_well_formed_witness:
  "metrics_ok (NewMetrics\<lparr>m_adminRequests := [(429, 1)]\<rparr>)"
proof (rule registry_always_well_formed)
  have "ObserveAdmin 429 (Some NewMetrics) = Some (NewMetrics\<lparr>m_adminRequests := [(429, 1)]\<rparr>)" by code_simp
  then show "metrics_reachable (Some (NewMetrics\<lparr>m_adminRequests := [(429, 1)]\<rparr>))"
    using metrics_reachable.admin [OF metrics_reachable.fresh, of 429] by simp
qed

text \<open>
  The lines of the exposition are the samples the families list, in order, whatever bytes the tenant and room
  names hold: no name can end its line, hide a sample or forge one.
\<close>

theorem scrape_is_samples: "scrape (writeText p m) = samples p m"
  unfolding writeText_def samples_def by (rule scrape_families [OF families_ok])

text \<open>How a scraper reads a quoted label value: a backslash escapes itself, the quote and the newline.\<close>

fun prom_unescape :: "string \<Rightarrow> string" where
  "prom_unescape [] = []"
| "prom_unescape (c # s) =
     (if c = backslash then
        (case s of [] \<Rightarrow> [c]
         | d # s' \<Rightarrow> (if d = CHR ''n'' then newline else d) # prom_unescape s')
      else c # prom_unescape s)"

definition prom_value :: "string \<Rightarrow> string" where
  "prom_value q = prom_unescape (butlast (tl q))"

definition printable :: "string \<Rightarrow> bool" where
  "printable s \<longleftrightarrow> list_all (\<lambda>c. 0x20 \<le> (of_char c :: int) \<and> (of_char c :: int) < 0x7F) s"

lemma decode_ascii: "(of_char c :: int) < 0x80 \<Longrightarrow> decode_rune c s = Some (of_char c, 1)"
  by (simp add: decode_rune_def Let_def)

lemma quote_codes: "(of_char quote :: int) = 0x22" "(of_char backslash :: int) = 0x5C"
  by (simp_all add: quote_def backslash_def of_char_def)

lemma code_quote: "c = quote \<longleftrightarrow> (of_char c :: int) = 0x22" and code_backslash: "c = backslash \<longleftrightarrow> (of_char c :: int) = 0x5C"
  by (metis quote_codes char_of_char)+

lemma quote_runes_printable:
  assumes "printable (c # s)"
  shows "quote_runes p (c # s) = (if c = quote \<or> c = backslash then [backslash, c] else [c]) @ quote_runes p s"
proof -
  let ?r = "of_char c :: int"
  have r: "0x20 \<le> ?r" "?r < 0x7F" using assms by (simp_all add: printable_def)
  have "escape_rune p ?r = (if c = quote \<or> c = backslash then [backslash, c] else [c])"
    using r by (simp add: escape_rune_def utf8_def code_quote code_backslash)
  then show ?thesis using r decode_ascii [of c s] by simp
qed

lemma printable_tl: "printable (c # s) \<Longrightarrow> printable s"
  by (simp add: printable_def)

lemma prom_unescape_quote: "printable s \<Longrightarrow> prom_unescape (quote_runes p s) = s"
proof (induction s)
  case (Cons c s)
  have "quote \<noteq> CHR ''n''" "backslash \<noteq> CHR ''n''" by (simp_all add: quote_def backslash_def)
  then show ?case
    using quote_runes_printable [OF Cons.prems] Cons.IH [OF printable_tl [OF Cons.prems]]
    by (simp del: quote_runes.simps)
qed simp

lemma prom_value_quote: "printable s \<Longrightarrow> prom_value (go_quote p s) = s"
  by (simp add: prom_value_def go_quote_def prom_unescape_quote)

lemma escape_runes_printable:
  assumes "printable (c # s)"
  shows "escape_label_runes (c # s) = (if c = quote \<or> c = backslash then [backslash, c] else [c]) @ escape_label_runes s"
proof -
  let ?r = "of_char c :: int"
  have r: "0x20 \<le> ?r" "?r < 0x7F" using assms by (simp_all add: printable_def)
  have "c \<noteq> newline" using r newline_code by auto
  then show ?thesis using r decode_ascii [of c s] by (simp add: utf8_def)
qed

lemma escape_label_printable: "printable s \<Longrightarrow> printable (escape_label_runes s) \<and> prom_unescape (escape_label_runes s) = s"
proof (induction s)
  case (Cons c s)
  have "quote \<noteq> CHR ''n''" "backslash \<noteq> CHR ''n''" by (simp_all add: quote_def backslash_def)
  moreover have "printable [c]" "printable [backslash]" using Cons.prems quote_codes by (simp_all add: printable_def)
  ultimately show ?case
    using escape_runes_printable [OF Cons.prems] Cons.IH [OF printable_tl [OF Cons.prems]]
    by (simp add: printable_def del: escape_label_runes.simps)
qed (simp add: printable_def)

lemma no_newline_printable: "printable s \<Longrightarrow> newline \<notin> set s"
  using newline_code by (auto simp: printable_def list_all_iff)

lemma escapeLabel_printable:
  assumes "printable s"
  shows "printable (escapeLabel s)" "escapeLabel s = (if quote \<in> set s \<or> backslash \<in> set s then escape_label_runes s else s)"
  using assms escape_label_printable [OF assms] no_newline_printable [OF assms]
  by (auto simp: escapeLabel_def list_all_iff)

lemma prom_unescape_plain: "backslash \<notin> set s \<Longrightarrow> prom_unescape s = s"
  by (induction s) auto

lemma prom_unescape_escapeLabel: "printable s \<Longrightarrow> prom_unescape (escapeLabel s) = s"
  by (simp add: escapeLabel_printable(2) escape_label_printable prom_unescape_plain)

lemma char_between_code: "char_between a b c \<longleftrightarrow> (of_char a :: int) \<le> of_char c \<and> (of_char c :: int) \<le> of_char b"
proof -
  have code: "(of_char x :: int) = int (of_char x)" for x :: char by (cases x) (simp add: of_char_def)
  show ?thesis by (simp only: char_between_def less_eq_char_def code of_nat_le_iff)
qed

lemma tenant_byte_code:
  assumes "tenant_byte c"
  shows "0x20 \<le> (of_char c :: int) \<and> (of_char c :: int) < 0x7F \<and> c \<noteq> quote \<and> c \<noteq> backslash"
proof -
  have ends: "(of_char (CHR ''a'') :: int) = 97" "(of_char (CHR ''z'') :: int) = 122" "(of_char (CHR ''A'') :: int) = 65"
    "(of_char (CHR ''Z'') :: int) = 90" "(of_char (CHR ''0'') :: int) = 48" "(of_char (CHR ''9'') :: int) = 57"
    "(of_char (CHR ''-'') :: int) = 45" "(of_char (CHR ''_'') :: int) = 95"
    by (simp_all add: of_char_def)
  show ?thesis
    using assms unfolding tenant_byte_def char_between_code code_quote code_backslash ends by (auto simp: ends)
qed

lemma valid_tenant_printable:
  "validateTenant T t = None \<Longrightarrow> printable t \<and> quote \<notin> set t \<and> backslash \<notin> set t"
  by (auto simp: validateTenant_None_iff printable_def list_all_iff dest!: tenant_byte_code)

section \<open>Distinct series\<close>

lemma backslash_quote: "backslash \<noteq> quote" "quote \<noteq> backslash"
  by (simp_all add: backslash_def quote_def)

lemma quoted_prefix_free:
  "printable a \<Longrightarrow> printable b \<Longrightarrow> quote_runes p a @ quote # r = quote_runes p b @ quote # r' \<Longrightarrow> a = b \<and> r = r'"
proof (induction a arbitrary: b)
  case Nil
  then show ?case
    by (cases b) (auto simp: quote_runes_printable backslash_quote simp del: quote_runes.simps(2) split: if_splits)
next
  case (Cons c a)
  obtain d b' where b: "b = d # b'"
    using Cons.prems by (cases b) (auto simp: quote_runes_printable backslash_quote simp del: quote_runes.simps(2) split: if_splits)
  have "c = d \<and> quote_runes p a @ quote # r = quote_runes p b' @ quote # r'"
    using Cons.prems b by (auto simp: quote_runes_printable backslash_quote simp del: quote_runes.simps(2) split: if_splits)
  then show ?case using Cons.IH [of b'] Cons.prems b by (auto dest: printable_tl)
qed

lemma go_quote_prefix_free:
  "printable a \<Longrightarrow> printable b \<Longrightarrow> go_quote p a @ r = go_quote p b @ r' \<Longrightarrow> a = b \<and> r = r'"
  using quoted_prefix_free [of a b p r r'] by (simp add: go_quote_def)

lemma escapeLabel_inject: "printable a \<Longrightarrow> printable b \<Longrightarrow> escapeLabel a = escapeLabel b \<Longrightarrow> a = b"
  by (metis prom_unescape_escapeLabel)

lemma room_label_inject:
  assumes "printable (fst a)" "printable (snd a)" "printable (fst b)" "printable (snd b)" "room_label p a = room_label p b"
  shows "a = b"
proof -
  note esc = assms(1-4) [THEN escapeLabel_printable(1)]
  have "go_quote p (escapeLabel (fst a)) @ '',room='' @ go_quote p (escapeLabel (snd a)) @ ''}'' =
      go_quote p (escapeLabel (fst b)) @ '',room='' @ go_quote p (escapeLabel (snd b)) @ ''}''"
    using assms(5) by (simp add: room_label_def)
  from go_quote_prefix_free [OF esc(1,3) this]
  have "escapeLabel (fst a) = escapeLabel (fst b)"
    and "go_quote p (escapeLabel (snd a)) @ ''}'' = go_quote p (escapeLabel (snd b)) @ ''}''"
    by simp_all
  moreover from this(2) have "escapeLabel (snd a) = escapeLabel (snd b)"
    using go_quote_prefix_free [OF esc(2,4)] by blast
  ultimately show ?thesis
    using escapeLabel_inject assms(1-4) by (metis prod.collapse)
qed

definition series_ok :: "metric_family \<Rightarrow> bool" where
  "series_ok f \<longleftrightarrow> CHR ''{'' \<notin> set (mf_name f) \<and> distinct (map fst (mf_samples f)) \<and>
     (\<forall>l\<in>fst ` set (mf_samples f). l = [] \<or> hd l = CHR ''{'')"

lemma series_name:
  assumes "series_ok f" "x \<in> set (family_samples f)"
  shows "takeWhile (\<lambda>c. c \<noteq> CHR ''{'') (fst x) = mf_name f"
proof -
  obtain l where l: "fst x = mf_name f @ l" "l = [] \<or> hd l = CHR ''{''"
    using assms by (fastforce simp: series_ok_def family_samples_def)
  have "\<And>c. c \<in> set (mf_name f) \<Longrightarrow> c \<noteq> CHR ''{''" using assms(1) by (auto simp: series_ok_def)
  then show ?thesis using l by (cases l) (auto simp: takeWhile_append)
qed

lemma distinct_series:
  "\<forall>f\<in>set fs. series_ok f \<Longrightarrow> distinct (map mf_name fs) \<Longrightarrow> distinct (map fst (concat (map family_samples fs)))"
proof (induction fs)
  case (Cons f fs)
  have "map fst (family_samples f) = map (\<lambda>l. mf_name f @ l) (map fst (mf_samples f))"
    by (simp add: family_samples_def case_prod_beta')
  then have "distinct (map fst (family_samples f))"
    using Cons.prems(1) by (simp add: series_ok_def distinct_map inj_on_def)
  moreover have "fst ` set (family_samples f) \<inter> fst ` set (concat (map family_samples fs)) = {}"
  proof -
    have "fst x \<noteq> fst y" if "x \<in> set (family_samples f)" "y \<in> set (concat (map family_samples fs))" for x y
    proof
      assume e: "fst x = fst y"
      from that(2) obtain g where g: "g \<in> set fs" "y \<in> set (family_samples g)" by auto
      then have "mf_name f = mf_name g"
        using series_name [of f x] series_name [of g y] Cons.prems(1) \<open>x \<in> _\<close> e by simp
      then show False using Cons.prems(2) g(1) by auto
    qed
    then show ?thesis by blast
  qed
  ultimately show ?case using Cons by (simp add: image_Un)
qed simp

lemma sorted_rooms_distinct: "distinct ks \<Longrightarrow> distinct (sorted_rooms ks)"
  by (simp add: sorted_rooms_def)

lemma set_sorted_rooms [simp]: "set (sorted_rooms ks) = set ks"
  by (simp add: sorted_rooms_def)

text \<open>Names of tenants and rooms are printable ASCII.\<close>

definition names_printable :: "metrics \<Rightarrow> bool" where
  "names_printable m \<longleftrightarrow>
     list_all printable (map fst (m_activeRooms m)) \<and> list_all printable (map fst (m_meetMinutes m)) \<and>
     list_all (\<lambda>k. printable (fst k) \<and> printable (snd k)) (map fst (m_participantsInRoom m))"

lemma label_inject: "label k a = label k b \<longleftrightarrow> a = b"
  by (simp add: label_def)

lemma label_head: "label k a \<noteq> [] \<and> hd (label k a) = CHR ''{''" "room_label p x \<noteq> [] \<and> hd (room_label p x) = CHR ''{''"
  by (simp_all add: label_def room_label_def)

lemma labelled_distinct:
  assumes "distinct ks" "inj_on f (set ks)"
  shows "distinct (map fst (map (\<lambda>k. (f k, g k)) ks))"
  using assms by (simp add: distinct_map comp_def)

lemma go_quote_inj: "inj_on (\<lambda>x. label k (go_quote p x)) {x. printable x}"
proof (rule inj_onI)
  fix a b assume "a \<in> {x. printable x}" "b \<in> {x. printable x}" "label k (go_quote p a) = label k (go_quote p b)"
  then show "a = b" using go_quote_prefix_free [of a b p "[]" "[]"] by (simp add: label_inject)
qed

lemma tenant_label_inj: "inj_on (\<lambda>t. label k (go_quote p (escapeLabel t))) {x. printable x}"
proof (rule inj_onI)
  fix a b assume "a \<in> {x. printable x}" "b \<in> {x. printable x}" "label k (go_quote p (escapeLabel a)) = label k (go_quote p (escapeLabel b))"
  then have ab: "printable a" "printable b" and "go_quote p (escapeLabel a) @ [] = go_quote p (escapeLabel b) @ []"
    by (simp_all add: label_inject)
  from go_quote_prefix_free [OF escapeLabel_printable(1) [OF ab(1)] escapeLabel_printable(1) [OF ab(2)] this(3)]
  show "a = b" using escapeLabel_inject [OF ab] by blast
qed

lemma counter_distinct:
  "go_map m \<Longrightarrow> \<forall>k\<in>keys m. printable k \<Longrightarrow> distinct (map fst (counter_samples p k m))"
proof -
  assume m: "go_map m" "\<forall>k\<in>keys m. printable k"
  have "inj_on (\<lambda>x. label k (go_quote p x)) (set (sort (map fst m)))"
    by (rule inj_on_subset [OF go_quote_inj]) (use m(2) in auto)
  then show ?thesis unfolding counter_samples_def by (rule labelled_distinct [rotated]) (use m(1) in simp)
qed

lemma counter_heads: "\<forall>l\<in>fst ` set (counter_samples p k m). l = [] \<or> hd l = CHR ''{''"
  by (auto simp: counter_samples_def label_head)

lemma fixed_labels_printable:
  "printable (token_outcome_label a)" "printable (egress_outcome_label b)" "printable (room_admission_label c)"
  "printable (egress_lifecycle_label d)" "printable (recording_state_label e)" "printable (meet_room_label f)"
proof -
  show "printable (token_outcome_label a)" by (cases a) (simp_all add: printable_def of_char_def)
  show "printable (egress_outcome_label b)" by (cases b) (simp_all add: printable_def of_char_def)
  show "printable (room_admission_label c)" by (cases c) (simp_all add: printable_def of_char_def)
  show "printable (egress_lifecycle_label d)" by (cases d) (simp_all add: printable_def of_char_def)
  show "printable (recording_state_label e)" by (cases e) (simp_all add: printable_def of_char_def)
  show "printable (meet_room_label f)" by (cases f) (simp_all add: printable_def of_char_def)
qed

lemma range_printable: "K \<subseteq> range f \<Longrightarrow> (\<And>a. printable (f a)) \<Longrightarrow> \<forall>k\<in>K. printable k"
  by blast

lemma fixed_keys_printable:
  assumes "metrics_ok m"
  shows "\<forall>k\<in>keys (m_tokenValidation m). printable k" "\<forall>k\<in>keys (m_egressRequests m). printable k"
    "\<forall>k\<in>keys (m_roomAdmission m). printable k" "\<forall>k\<in>keys (m_egressLifecycle m). printable k"
    "\<forall>k\<in>keys (m_recordingLifecycle m). printable k" "\<forall>k\<in>keys (m_meetRooms m). printable k"
proof -
  show "\<forall>k\<in>keys (m_tokenValidation m). printable k"
    by (rule range_printable [of _ token_outcome_label]) (use assms fixed_labels_printable in \<open>simp_all add: metrics_ok_def\<close>)
  show "\<forall>k\<in>keys (m_egressRequests m). printable k"
    by (rule range_printable [of _ egress_outcome_label]) (use assms fixed_labels_printable in \<open>simp_all add: metrics_ok_def\<close>)
  show "\<forall>k\<in>keys (m_roomAdmission m). printable k"
    by (rule range_printable [of _ room_admission_label]) (use assms fixed_labels_printable in \<open>simp_all add: metrics_ok_def\<close>)
  show "\<forall>k\<in>keys (m_egressLifecycle m). printable k"
    by (rule range_printable [of _ egress_lifecycle_label]) (use assms fixed_labels_printable in \<open>simp_all add: metrics_ok_def\<close>)
  show "\<forall>k\<in>keys (m_recordingLifecycle m). printable k"
    by (rule range_printable [of _ recording_state_label]) (use assms fixed_labels_printable in \<open>simp_all add: metrics_ok_def\<close>)
  show "\<forall>k\<in>keys (m_meetRooms m). printable k"
    by (rule range_printable [of _ meet_room_label]) (use assms fixed_labels_printable in \<open>simp_all add: metrics_ok_def\<close>)
qed

lemma series_okI:
  "CHR ''{'' \<notin> set n \<Longrightarrow> distinct (map fst xs) \<Longrightarrow> \<forall>l\<in>fst ` set xs. l = [] \<or> hd l = CHR ''{'' \<Longrightarrow>
     series_ok \<lparr>mf_name = n, mf_help = h, mf_kind = k, mf_samples = xs\<rparr>"
  by (simp add: series_ok_def)

lemma gauge_series: "CHR ''{'' \<notin> set n \<Longrightarrow> series_ok (gauge n h k v)"
  by (simp add: series_ok_def gauge_def)

lemma status_distinct: "go_map m \<Longrightarrow> distinct (map fst (map (\<lambda>s. (label ''status'' (quote # show_int s @ [quote]), g s)) (sort (map fst m))))"
  by (rule labelled_distinct) (simp_all add: inj_on_def label_inject)

lemma tenant_distinct:
  assumes "go_map m" "list_all printable (map fst m)"
  shows "distinct (map fst (map (\<lambda>t. (label ''tenant'' (go_quote p (escapeLabel t)), g t)) (sort (map fst m))))"
proof (rule labelled_distinct)
  show "inj_on (\<lambda>t. label ''tenant'' (go_quote p (escapeLabel t))) (set (sort (map fst m)))"
    by (rule inj_on_subset [OF tenant_label_inj]) (use assms(2) in \<open>auto simp: list_all_iff\<close>)
qed (use assms(1) in simp)

lemma room_distinct:
  assumes "go_map m" "list_all (\<lambda>k. printable (fst k) \<and> printable (snd k)) (map fst m)"
  shows "distinct (map fst (map (\<lambda>k. (room_label p k, g k)) (sorted_rooms (map fst m))))"
proof (rule labelled_distinct)
  show "inj_on (room_label p) (set (sorted_rooms (map fst m)))"
  proof (rule inj_onI)
    fix a b assume "a \<in> set (sorted_rooms (map fst m))" "b \<in> set (sorted_rooms (map fst m))" "room_label p a = room_label p b"
    then show "a = b"
      using assms(2) unfolding list_all_iff set_sorted_rooms by (intro room_label_inject [of a b p]) (blast | assumption)+
  qed
qed (use assms(1) in \<open>simp add: sorted_rooms_distinct\<close>)

lemma families_series:
  assumes ok: "metrics_ok m" and names: "names_printable m"
  shows "\<forall>f\<in>set (families p m). series_ok f"
proof -
  have maps: "go_map (m_adminRequests m)" "go_map (m_tokenValidation m)" "go_map (m_activeRooms m)" "go_map (m_egressRequests m)"
    "go_map (m_roomAdmission m)" "go_map (m_participantsInRoom m)" "go_map (m_egressLifecycle m)"
    "go_map (m_recordingLifecycle m)" "go_map (m_meetRooms m)" "go_map (m_meetMinutes m)"
    using ok by (simp_all add: metrics_ok_def)
  note fixed = fixed_keys_printable [OF ok]
  have tenant: "list_all printable (map fst (m_activeRooms m))" "list_all printable (map fst (m_meetMinutes m))"
    "list_all (\<lambda>k. printable (fst k) \<and> printable (snd k)) (map fst (m_participantsInRoom m))"
    using names by (simp_all add: names_printable_def)
  have heads: "\<forall>l\<in>fst ` set (map (\<lambda>t. (label k (f t), g t)) ts). l = [] \<or> hd l = CHR ''{''"
    "\<forall>l\<in>fst ` set (map (\<lambda>t. (room_label p t, g' t)) rs). l = [] \<or> hd l = CHR ''{''" for k f g g' ts rs
    by (auto simp: label_head)
  have admin: "series_ok (admin_family m)" unfolding admin_family_def
    by (rule series_okI [OF _ status_distinct [OF maps(1)] heads(1)]) simp
  have token: "series_ok (token_family p m)" unfolding token_family_def
    by (rule series_okI [OF _ counter_distinct [OF maps(2) fixed(1)] counter_heads]) simp
  have active: "series_ok (active_rooms_family p m)" unfolding active_rooms_family_def
    by (rule series_okI [OF _ tenant_distinct [OF maps(3) tenant(1)] heads(1)]) simp
  have egress: "series_ok (egress_family p m)" unfolding egress_family_def
    by (rule series_okI [OF _ counter_distinct [OF maps(4) fixed(2)] counter_heads]) simp
  have admission: "series_ok (admission_family p m)" unfolding admission_family_def
    by (rule series_okI [OF _ counter_distinct [OF maps(5) fixed(3)] counter_heads]) simp
  have parts: "series_ok (participants_family p m)" unfolding participants_family_def
    by (rule series_okI [OF _ room_distinct [OF maps(6) tenant(3)] heads(2)]) simp
  have jobs: "\<forall>f\<in>set (egress_job_families p m). series_ok f" unfolding egress_job_families_def
    by (simp add: gauge_series series_okI [OF _ counter_distinct [OF maps(7) fixed(4)] counter_heads])
  have recs: "\<forall>f\<in>set (recording_families p m). series_ok f" unfolding recording_families_def
    by (simp add: gauge_series series_okI [OF _ counter_distinct [OF maps(8) fixed(5)] counter_heads])
  have meets: "\<forall>f\<in>set (meet_families p m). series_ok f" unfolding meet_families_def
    by (simp add: series_okI [OF _ counter_distinct [OF maps(9) fixed(6)] counter_heads]
        series_okI [OF _ tenant_distinct [OF maps(10) tenant(2)] heads(1)])
  have "\<forall>f\<in>set (limit_families m). series_ok f" "\<forall>f\<in>set (retention_families m). series_ok f"
    unfolding limit_families_def retention_families_def by (simp_all add: gauge_series)
  with admin token active egress admission parts jobs recs meets show ?thesis
    by (simp add: families_def ball_Un)
qed

lemma family_names_distinct: "distinct (map mf_name (families p m))"
  unfolding families_def limit_families_def egress_job_families_def recording_families_def retention_families_def
    meet_families_def admin_family_def token_family_def active_rooms_family_def egress_family_def admission_family_def
    participants_family_def gauge_def by simp

text \<open>
  No series is exposed twice: as long as tenant and room names are printable ASCII, the samples of a
  registry in its invariant carry pairwise different series, so a scrape never meets a duplicate.
\<close>

theorem series_distinct:
  assumes "metrics_ok m" "names_printable m"
  shows "distinct (map fst (samples p m))"
  unfolding samples_def by (rule distinct_series [OF families_series [OF assms] family_names_distinct])

theorem series_distinct_witness:
  "distinct (map fst (samples (\<lambda>_. False) (NewMetrics\<lparr>m_activeRooms := [(''acme'', 2), (''b'', 1)]\<rparr>)))"
proof (rule series_distinct)
  show "metrics_ok (NewMetrics\<lparr>m_activeRooms := [(''acme'', 2), (''b'', 1)]\<rparr>)"
    using metrics_ok_new by (simp add: metrics_ok_def NewMetrics_def)
  show "names_printable (NewMetrics\<lparr>m_activeRooms := [(''acme'', 2), (''b'', 1)]\<rparr>)"
    by (simp add: names_printable_def NewMetrics_def printable_def of_char_def)
qed

text \<open>
  Which labels come out as they went in: a printable name is read back unchanged when it has no quote
  and no backslash, as every valid tenant id does; otherwise the name is read with those characters
  still escaped, because the label is escaped twice.
\<close>

theorem label_read_back:
  assumes "printable s"
  shows "prom_value (go_quote p (escapeLabel s)) = escapeLabel s \<and>
    (escapeLabel s = s \<longleftrightarrow> quote \<notin> set s \<and> backslash \<notin> set s)"
proof -
  have longer: "printable t \<Longrightarrow> length t \<le> length (escape_label_runes t) \<and>
      (quote \<in> set t \<or> backslash \<in> set t \<longrightarrow> length t < length (escape_label_runes t))" for t
    by (induction t) (auto simp: escape_runes_printable simp del: escape_label_runes.simps(2) dest: printable_tl)
  then have "escape_label_runes s \<noteq> s" if "quote \<in> set s \<or> backslash \<in> set s"
    using assms that by fastforce
  then show ?thesis
    using prom_value_quote [OF escapeLabel_printable(1) [OF assms]] escapeLabel_printable(2) [OF assms] by auto
qed

theorem label_read_back_witness:
  "prom_value (go_quote (\<lambda>_. False) (escapeLabel [CHR 0x22])) = [CHR 0x5C, CHR 0x22]"
proof -
  have "printable [CHR 0x22]" by (simp add: printable_def of_char_def)
  moreover have "escapeLabel [CHR 0x22] = [CHR 0x5C, CHR 0x22]" by code_simp
  ultimately show ?thesis using label_read_back [of "[CHR 0x22]" "\<lambda>_. False"] by simp
qed

lemma tenant_label_exact:
  assumes "validateTenant T t = None"
  shows "prom_value (go_quote p (escapeLabel t)) = t"
proof -
  have "printable t" "quote \<notin> set t" "backslash \<notin> set t" using valid_tenant_printable [OF assms] by simp_all
  then show ?thesis using prom_value_quote escapeLabel_printable by auto
qed

section \<open>The registry as a scraper sees it\<close>

text \<open>
  An independent reader of the exposition format: a series is a name and, in braces, labels whose values
  are quoted with backslash escapes.
\<close>

fun read_quoted :: "string \<Rightarrow> (string \<times> string) option" where
  "read_quoted [] = None"
| "read_quoted (c # s) =
     (if c = quote then Some ([], s)
      else if c = backslash then
        (case s of [] \<Rightarrow> None
         | d # s' \<Rightarrow> map_option (apfst (Cons (if d = CHR ''n'' then newline else d))) (read_quoted s'))
      else map_option (apfst (Cons c)) (read_quoted s))"

lemma read_quoted_shorter: "read_quoted s = Some (v, r) \<Longrightarrow> length r < length s"
proof (induction s arbitrary: v rule: read_quoted.induct)
  case (2 c s)
  then show ?case
    by (cases s) (fastforce split: if_splits)+
qed simp

function read_labels :: "string \<Rightarrow> (string \<times> string) list option" where
  "read_labels s =
     (case dropWhile (\<lambda>c. c \<noteq> CHR ''='') s of
        e # q # s' \<Rightarrow>
          if q \<noteq> quote then None
          else (case read_quoted s' of
            Some (v, c # r) \<Rightarrow>
              let l = (takeWhile (\<lambda>c. c \<noteq> CHR ''='') s, v)
              in if c = CHR ''}'' \<and> r = [] then Some [l]
                 else if c = CHR '','' then map_option (Cons l) (read_labels r) else None
          | _ \<Rightarrow> None)
      | _ \<Rightarrow> None)"
  by pat_completeness auto
termination
proof (relation "measure length")
  fix s e a q s' x v x2 c r l
  assume d: "dropWhile (\<lambda>c. c \<noteq> CHR ''='') s = e # a" "a = q # s'" and "read_quoted s' = Some x" "(v, x2) = x" "x2 = c # r"
  then have "length (c # r) < length s'" using read_quoted_shorter by blast
  moreover have "length (dropWhile (\<lambda>c. c \<noteq> CHR ''='') s) \<le> length s" by (rule length_dropWhile_le)
  ultimately show "(r, s) \<in> measure length" using d by simp
qed simp

declare read_labels.simps [simp del]

definition read_series :: "string \<Rightarrow> string \<times> (string \<times> string) list option" where
  "read_series s =
     (takeWhile (\<lambda>c. c \<noteq> CHR ''{'') s,
      case dropWhile (\<lambda>c. c \<noteq> CHR ''{'') s of [] \<Rightarrow> Some [] | _ # l \<Rightarrow> read_labels l)"

type_synonym sample = "string \<times> (string \<times> string) list option \<times> string"

definition read_sample :: "string \<times> string \<Rightarrow> sample" where
  "read_sample x = (fst (read_series (fst x)), snd (read_series (fst x)), snd x)"

text \<open>
  The samples the registry stands for, read off its fields: one row for every entry of a map, one for
  every number. Names of tenants and rooms are read with each quote and backslash still escaped, because
  the exposition escapes them twice.
\<close>

definition still_escaped :: "string \<Rightarrow> string" where
  "still_escaped s = concat (map (\<lambda>c. if c = quote \<or> c = backslash then [backslash, c] else [c]) s)"

definition rows :: "string \<Rightarrow> ('k \<Rightarrow> (string \<times> string) list) \<Rightarrow> ('v \<Rightarrow> int) \<Rightarrow> ('k, 'v) go_map \<Rightarrow> sample list" where
  "rows name labels number m = map (\<lambda>(k, v). (''vulos_meet_'' @ name, Some (labels k), show_int (number v))) m"

definition row :: "string \<Rightarrow> int \<Rightarrow> sample list" where
  "row name n = [(''vulos_meet_'' @ name, Some [], show_int n)]"

definition registry_rows :: "metrics \<Rightarrow> sample list" where
  "registry_rows m =
     rows ''admin_requests_total'' (\<lambda>s. [(''status'', show_int s)]) uint (m_adminRequests m) @
     rows ''token_validation_total'' (\<lambda>l. [(''outcome'', l)]) uint (m_tokenValidation m) @
     rows ''active_rooms'' (\<lambda>t. [(''tenant'', still_escaped t)]) (\<lambda>n. n) (m_activeRooms m) @
     rows ''egress_requests_total'' (\<lambda>l. [(''outcome'', l)]) uint (m_egressRequests m) @
     rows ''room_admission_total'' (\<lambda>l. [(''outcome'', l)]) uint (m_roomAdmission m) @
     row ''max_participants'' (m_maxParticipants m) @ row ''max_rooms'' (m_maxRooms m) @
     row ''total_rooms'' (m_totalRooms m) @ row ''rooms_at_capacity'' (m_roomsAtCapacity m) @
     rows ''participants_in_room'' (\<lambda>(t, r). [(''tenant'', still_escaped t), (''room'', still_escaped r)]) (\<lambda>n. n)
       (m_participantsInRoom m) @
     rows ''egress_lifecycle_total'' (\<lambda>l. [(''event'', l)]) uint (m_egressLifecycle m) @
     row ''egress_in_progress'' (m_egressInProgress m) @
     rows ''recording_lifecycle_total'' (\<lambda>l. [(''state'', l)]) uint (m_recordingLifecycle m) @
     row ''recording_bytes_total'' (uint (m_recordingBytesTotal m)) @
     row ''recording_duration_ms_total'' (uint (m_recordingDurationMsTotal m)) @
     row ''retention_expired_total'' (uint (m_retentionExpiredTotal m)) @
     row ''retention_deleted_total'' (uint (m_retentionDeletedTotal m)) @
     row ''retention_delete_errors_total'' (uint (m_retentionDeleteErrTotal m)) @
     row ''retention_bytes_freed_total'' (uint (m_retentionBytesFreed m)) @
     rows ''meet_rooms_total'' (\<lambda>l. [(''event'', l)]) uint (m_meetRooms m) @
     rows ''meet_minutes_total'' (\<lambda>t. [(''tenant'', still_escaped t)]) uint (m_meetMinutes m)"

text \<open>The reader on what the renderer writes.\<close>

lemma read_quoted_printable: "printable s \<Longrightarrow> read_quoted (quote_runes p s @ quote # r) = Some (s, r)"
proof (induction s)
  case (Cons c s)
  have "quote \<noteq> CHR ''n''" "backslash \<noteq> CHR ''n''" "backslash \<noteq> quote" by (simp_all add: quote_def backslash_def)
  then show ?case
    using quote_runes_printable [OF Cons.prems, of p] Cons.IH [OF printable_tl [OF Cons.prems]]
    by (simp del: quote_runes.simps)
qed simp

lemma read_quoted_plain: "quote \<notin> set s \<Longrightarrow> backslash \<notin> set s \<Longrightarrow> read_quoted (s @ quote # r) = Some (s, r)"
  by (induction s) auto

lemma takeWhile_sep: "c \<notin> set k \<Longrightarrow> takeWhile (\<lambda>x. x \<noteq> c) (k @ c # r) = k \<and> dropWhile (\<lambda>x. x \<noteq> c) (k @ c # r) = c # r"
  by (induction k) auto

lemma read_labels_last:
  assumes "CHR ''='' \<notin> set k" "read_quoted s = Some (v, ''}'')"
  shows "read_labels (k @ CHR ''='' # quote # s) = Some [(k, v)]"
  by (subst read_labels.simps) (simp add: takeWhile_sep [OF assms(1)] assms(2))

lemma read_labels_more:
  assumes "CHR ''='' \<notin> set k" "read_quoted s = Some (v, CHR '','' # r)"
  shows "read_labels (k @ CHR ''='' # quote # s) = map_option (Cons (k, v)) (read_labels r)"
  by (subst read_labels.simps) (simp add: takeWhile_sep [OF assms(1)] assms(2))

lemma read_series_labelled:
  "CHR ''{'' \<notin> set n \<Longrightarrow> read_series (n @ CHR ''{'' # l) = (n, read_labels l)"
  by (simp add: read_series_def takeWhile_sep)

lemma read_series_plain: "CHR ''{'' \<notin> set n \<Longrightarrow> read_series n = (n, Some [])"
  by (induction n) (auto simp: read_series_def)

lemma read_label:
  assumes "CHR ''{'' \<notin> set n" "CHR ''='' \<notin> set k" "printable s"
  shows "read_series (n @ label k (go_quote p s)) = (n, Some [(k, s)])"
  using read_labels_last [OF assms(2) read_quoted_printable [OF assms(3), of p "''}''"]]
  by (simp add: label_def go_quote_def read_series_labelled [OF assms(1)])

lemma show_int_unquoted: "quote \<notin> set (show_int i)" "backslash \<notin> set (show_int i)"
  using show_int_chars [of quote i] show_int_chars [of backslash i]
  by (auto simp: is_digit_nat quote_def backslash_def)

lemma read_status:
  assumes "CHR ''{'' \<notin> set n" "CHR ''='' \<notin> set k"
  shows "read_series (n @ label k (quote # show_int i @ [quote])) = (n, Some [(k, show_int i)])"
  using read_labels_last [OF assms(2) read_quoted_plain [OF show_int_unquoted, of i "''}''"]]
  by (simp add: label_def read_series_labelled [OF assms(1)])

lemma escapeLabel_still: "printable s \<Longrightarrow> escapeLabel s = still_escaped s"
proof -
  have "printable t \<Longrightarrow> escape_label_runes t = still_escaped t" for t
    by (induction t) (simp_all add: escape_runes_printable printable_tl still_escaped_def del: escape_label_runes.simps(2))
  moreover have "quote \<notin> set t \<Longrightarrow> backslash \<notin> set t \<Longrightarrow> still_escaped t = t" for t
    by (induction t) (auto simp: still_escaped_def)
  ultimately show "printable s \<Longrightarrow> escapeLabel s = still_escaped s"
    by (simp add: escapeLabel_printable(2))
qed

lemma read_room_label:
  assumes "CHR ''{'' \<notin> set n" "printable t" "printable r"
  shows "read_series (n @ room_label p (t, r)) =
    (n, Some [(''tenant'', still_escaped t), (''room'', still_escaped r)])"
proof -
  note pt = escapeLabel_printable(1) [OF assms(2)] and pr = escapeLabel_printable(1) [OF assms(3)]
  have "read_labels (''room='' @ go_quote p (escapeLabel r) @ ''}'') = Some [(''room'', escapeLabel r)]"
    using read_labels_last [of "''room''", OF _ read_quoted_printable [OF pr, of p "''}''"]]
    by (simp add: go_quote_def)
  then show ?thesis
    using read_labels_more [of "''tenant''", OF _ read_quoted_printable [OF pt, of p "CHR '','' # ''room='' @ go_quote p (escapeLabel r) @ ''}''"]]
    by (simp add: room_label_def go_quote_def [of p "still_escaped t"] read_series_labelled [OF assms(1)]
        escapeLabel_still assms)
qed

text \<open>One family against its rows.\<close>

lemma mset_rows:
  assumes "go_map g" "mset ks = mset (map fst g)"
    and "\<And>k. k \<in> keys g \<Longrightarrow> read_series (''vulos_meet_'' @ name @ lab k) = (''vulos_meet_'' @ name, Some (L k))"
  shows "image_mset read_sample (mset (family_samples
      \<lparr>mf_name = ''vulos_meet_'' @ name, mf_help = h, mf_kind = kd, mf_samples = map (\<lambda>k. (lab k, show_int (w (value_at g k)))) ks\<rparr>)) =
    mset (rows name L w g)"
proof -
  let ?f = "\<lambda>k. read_sample (''vulos_meet_'' @ name @ lab k, show_int (w (value_at g k)))"
  have "image_mset read_sample (mset (family_samples
      \<lparr>mf_name = ''vulos_meet_'' @ name, mf_help = h, mf_kind = kd, mf_samples = map (\<lambda>k. (lab k, show_int (w (value_at g k)))) ks\<rparr>)) =
      image_mset ?f (mset ks)"
    by (simp add: family_samples_def comp_def flip: mset_map)
  also have "\<dots> = mset (map (\<lambda>x. ?f (fst x)) g)"
    by (simp add: assms(2) comp_def flip: mset_map)
  also have "map (\<lambda>x. ?f (fst x)) g = rows name L w g"
    unfolding rows_def
  proof (rule map_cong [OF refl])
    fix x assume x: "x \<in> set g"
    then have "map_of g (fst x) = Some (snd x)" using assms(1) by (intro map_of_is_SomeI) simp_all
    then have "value_at g (fst x) = snd x" by (simp add: value_at_def)
    moreover have "fst x \<in> keys g" using x by simp
    ultimately show "?f (fst x) = (case x of (k, v) \<Rightarrow> (''vulos_meet_'' @ name, Some (L k), show_int (w v)))"
      using assms(3) [of "fst x"] by (simp add: read_sample_def case_prod_beta)
  qed
  finally show ?thesis .
qed

lemma mset_row: "image_mset read_sample (mset (family_samples (gauge (''vulos_meet_'' @ name) h kd (show_int n)))) = mset (row name n)"
  if "CHR ''{'' \<notin> set name"
proof -
  have "CHR ''{'' \<notin> set (''vulos_meet_'' @ name)" using that by simp
  from read_series_plain [OF this] show ?thesis
    by (simp add: family_samples_def gauge_def row_def read_sample_def)
qed

lemma counter_rows:
  assumes "go_map g" "\<forall>k\<in>keys g. printable k" "CHR ''='' \<notin> set lbl" "CHR ''{'' \<notin> set name"
  shows "image_mset read_sample (mset (family_samples
      \<lparr>mf_name = ''vulos_meet_'' @ name, mf_help = h, mf_kind = kd, mf_samples = counter_samples p lbl g\<rparr>)) =
    mset (rows name (\<lambda>l. [(lbl, l)]) uint g)"
  unfolding counter_samples_def show_u64_def
proof (rule mset_rows [OF assms(1)])
  fix k assume "k \<in> keys g"
  then show "read_series (''vulos_meet_'' @ name @ label lbl (go_quote p k)) = (''vulos_meet_'' @ name, Some [(lbl, k)])"
    using read_label [of "''vulos_meet_'' @ name" lbl k p] assms by auto
qed simp

lemma tenant_rows:
  assumes "go_map g" "list_all printable (map fst g)" "CHR ''{'' \<notin> set name"
  shows "image_mset read_sample (mset (family_samples
      \<lparr>mf_name = ''vulos_meet_'' @ name, mf_help = h, mf_kind = kd,
       mf_samples = map (\<lambda>t. (label ''tenant'' (go_quote p (escapeLabel t)), show_int (w (value_at g t)))) (sort (map fst g))\<rparr>)) =
    mset (rows name (\<lambda>t. [(''tenant'', still_escaped t)]) w g)"
proof (rule mset_rows [OF assms(1)])
  fix k assume "k \<in> keys g"
  then have k: "printable k" using assms(2) by (auto simp: list_all_iff)
  then show "read_series (''vulos_meet_'' @ name @ label ''tenant'' (go_quote p (escapeLabel k))) =
      (''vulos_meet_'' @ name, Some [(''tenant'', still_escaped k)])"
    using read_label [of "''vulos_meet_'' @ name" "''tenant''" "escapeLabel k" p] assms(3)
      escapeLabel_printable(1) [OF k] escapeLabel_still [OF k] by auto
qed simp

lemma admin_rows:
  assumes "go_map (m_adminRequests m)"
  shows "image_mset read_sample (mset (family_samples (admin_family m))) =
    mset (rows ''admin_requests_total'' (\<lambda>s. [(''status'', show_int s)]) uint (m_adminRequests m))"
proof -
  have "read_series (''vulos_meet_'' @ ''admin_requests_total'' @ label ''status'' (quote # show_int k @ [quote])) =
      (''vulos_meet_'' @ ''admin_requests_total'', Some [(''status'', show_int k)])" for k
    using read_status [of "''vulos_meet_'' @ ''admin_requests_total''" "''status''" k] by simp
  from mset_rows [OF assms _ this, of "sort (map fst (m_adminRequests m))"] show ?thesis
    by (simp add: admin_family_def show_u64_def)
qed

lemma participant_rows:
  assumes "go_map g" "list_all (\<lambda>k. printable (fst k) \<and> printable (snd k)) (map fst g)" "CHR ''{'' \<notin> set name"
  shows "image_mset read_sample (mset (family_samples
      \<lparr>mf_name = ''vulos_meet_'' @ name, mf_help = h, mf_kind = kd,
       mf_samples = map (\<lambda>k. (room_label p k, show_int (value_at g k))) (sorted_rooms (map fst g))\<rparr>)) =
    mset (rows name (\<lambda>(t, r). [(''tenant'', still_escaped t), (''room'', still_escaped r)]) (\<lambda>n. n) g)"
proof (rule mset_rows [OF assms(1)])
  fix k assume "k \<in> keys g"
  then have k: "printable (fst k)" "printable (snd k)" using assms(2) by (auto simp: list_all_iff)
  then show "read_series (''vulos_meet_'' @ name @ room_label p k) =
      (''vulos_meet_'' @ name, Some (case k of (t, r) \<Rightarrow> [(''tenant'', still_escaped t), (''room'', still_escaped r)]))"
    using read_room_label [of "''vulos_meet_'' @ name" "fst k" "snd k" p] assms(3) by (auto simp: case_prod_beta)
qed (simp add: sorted_rooms_def)

lemma registry_samples:
  assumes ok: "metrics_ok m" and names: "names_printable m"
  shows "image_mset read_sample (mset (samples p m)) = mset (registry_rows m)"
proof -
  have maps: "go_map (m_adminRequests m)" "go_map (m_tokenValidation m)" "go_map (m_activeRooms m)" "go_map (m_egressRequests m)"
    "go_map (m_roomAdmission m)" "go_map (m_participantsInRoom m)" "go_map (m_egressLifecycle m)"
    "go_map (m_recordingLifecycle m)" "go_map (m_meetRooms m)" "go_map (m_meetMinutes m)"
    using ok by (simp_all add: metrics_ok_def)
  have tenants: "list_all printable (map fst (m_activeRooms m))" "list_all printable (map fst (m_meetMinutes m))"
    and parts: "list_all (\<lambda>k. printable (fst k) \<and> printable (snd k)) (map fst (m_participantsInRoom m))"
    using names by (simp_all add: names_printable_def)
  note fixed = fixed_keys_printable [OF ok]
  let ?r = "\<lambda>f. image_mset read_sample (mset (family_samples f))"
  have "?r (token_family p m) = mset (rows ''token_validation_total'' (\<lambda>l. [(''outcome'', l)]) uint (m_tokenValidation m))"
    using counter_rows [OF maps(2) fixed(1), of "''outcome''" "''token_validation_total''"] by (simp add: token_family_def)
  moreover have "?r (egress_family p m) = mset (rows ''egress_requests_total'' (\<lambda>l. [(''outcome'', l)]) uint (m_egressRequests m))"
    using counter_rows [OF maps(4) fixed(2), of "''outcome''" "''egress_requests_total''"] by (simp add: egress_family_def)
  moreover have "?r (admission_family p m) = mset (rows ''room_admission_total'' (\<lambda>l. [(''outcome'', l)]) uint (m_roomAdmission m))"
    using counter_rows [OF maps(5) fixed(3), of "''outcome''" "''room_admission_total''"] by (simp add: admission_family_def)
  moreover have "?r (active_rooms_family p m) = mset (rows ''active_rooms'' (\<lambda>t. [(''tenant'', still_escaped t)]) (\<lambda>n. n) (m_activeRooms m))"
    using tenant_rows [OF maps(3) tenants(1), of "''active_rooms''" _ _ p "\<lambda>n. n"] by (simp add: active_rooms_family_def)
  moreover have "?r (participants_family p m) = mset (rows ''participants_in_room''
      (\<lambda>(t, r). [(''tenant'', still_escaped t), (''room'', still_escaped r)]) (\<lambda>n. n) (m_participantsInRoom m))"
    using participant_rows [OF maps(6) parts, of "''participants_in_room''"] by (simp add: participants_family_def)
  moreover have "mset (map read_sample (concat (map family_samples (egress_job_families p m)))) =
      mset (rows ''egress_lifecycle_total'' (\<lambda>l. [(''event'', l)]) uint (m_egressLifecycle m) @ row ''egress_in_progress'' (m_egressInProgress m))"
    using counter_rows [OF maps(7) fixed(4), of "''event''" "''egress_lifecycle_total''"] mset_row [of "''egress_in_progress''"]
    by (simp add: egress_job_families_def)
  moreover have "mset (map read_sample (concat (map family_samples (recording_families p m)))) =
      mset (rows ''recording_lifecycle_total'' (\<lambda>l. [(''state'', l)]) uint (m_recordingLifecycle m) @
        row ''recording_bytes_total'' (uint (m_recordingBytesTotal m)) @
        row ''recording_duration_ms_total'' (uint (m_recordingDurationMsTotal m)))"
    using counter_rows [OF maps(8) fixed(5), of "''state''" "''recording_lifecycle_total''"]
      mset_row [of "''recording_bytes_total''"] mset_row [of "''recording_duration_ms_total''"]
    by (simp add: recording_families_def show_u64_def)
  moreover have "mset (map read_sample (concat (map family_samples (limit_families m)))) =
      mset (row ''max_participants'' (m_maxParticipants m) @ row ''max_rooms'' (m_maxRooms m) @
        row ''total_rooms'' (m_totalRooms m) @ row ''rooms_at_capacity'' (m_roomsAtCapacity m))"
    using mset_row [of "''max_participants''"] mset_row [of "''max_rooms''"] mset_row [of "''total_rooms''"]
      mset_row [of "''rooms_at_capacity''"]
    by (simp add: limit_families_def)
  moreover have "mset (map read_sample (concat (map family_samples (retention_families m)))) =
      mset (row ''retention_expired_total'' (uint (m_retentionExpiredTotal m)) @
        row ''retention_deleted_total'' (uint (m_retentionDeletedTotal m)) @
        row ''retention_delete_errors_total'' (uint (m_retentionDeleteErrTotal m)) @
        row ''retention_bytes_freed_total'' (uint (m_retentionBytesFreed m)))"
    using mset_row [of "''retention_expired_total''"] mset_row [of "''retention_deleted_total''"]
      mset_row [of "''retention_delete_errors_total''"] mset_row [of "''retention_bytes_freed_total''"]
    by (simp add: retention_families_def show_u64_def)
  moreover have "mset (map read_sample (concat (map family_samples (meet_families p m)))) =
      mset (rows ''meet_rooms_total'' (\<lambda>l. [(''event'', l)]) uint (m_meetRooms m) @
        rows ''meet_minutes_total'' (\<lambda>t. [(''tenant'', still_escaped t)]) uint (m_meetMinutes m))"
    using counter_rows [OF maps(9) fixed(6), of "''event''" "''meet_rooms_total''"]
      tenant_rows [OF maps(10) tenants(2), of "''meet_minutes_total''" _ _ p uint]
    by (simp add: meet_families_def show_u64_def)
  ultimately show ?thesis
    using admin_rows [OF maps(1)]
    unfolding samples_def families_def registry_rows_def
    by (simp only: map_append concat_append mset_append image_mset_union list.map concat.simps append_Nil2 mset_map
        append_assoc add.assoc) 
qed


text \<open>
  C29. A scrape sees the registry: for a registry in its invariant whose tenant and room names are printable
  ASCII, parsing the exposition line by line (series, labels with their escapes, value) yields exactly what
  the fields of the registry hold: one sample for every entry of every counter and gauge map, with its key as
  the label and its number as the value, one for every plain number, and nothing else. A tenant or room name
  with quotes or backslashes reads with these still escaped, because the code escapes it twice; every other
  name, and so every valid tenant id, reads as it is.
\<close>

theorem scrape_reads_registry:
  assumes "metrics_ok m" "names_printable m"
  shows "mset (map read_sample (scrape (writeText p m))) = mset (registry_rows m)"
  using registry_samples [OF assms, of p]
  unfolding writeText_def scrape_families [OF families_ok] samples_def by simp

theorem scrape_reads_registry_witness:
  "(''vulos_meet_active_rooms'', Some [(''tenant'', ''acme'')], ''2'') \<in>
     set (map read_sample (scrape (writeText (\<lambda>_. False) (NewMetrics\<lparr>m_activeRooms := [(''acme'', 2)]\<rparr>))))"
proof -
  let ?m = "NewMetrics\<lparr>m_activeRooms := [(''acme'', 2)]\<rparr>"
  have "metrics_ok ?m" using metrics_ok_new by (simp add: metrics_ok_def NewMetrics_def)
  moreover have "names_printable ?m" by (simp add: names_printable_def NewMetrics_def printable_def of_char_def)
  ultimately have "mset (map read_sample (scrape (writeText (\<lambda>_. False) ?m))) = mset (registry_rows ?m)"
    by (rule scrape_reads_registry)
  then have e: "set (map read_sample (scrape (writeText (\<lambda>_. False) ?m))) = set (registry_rows ?m)"
    by (rule mset_eq_setD)
  have "still_escaped ''acme'' = ''acme''" "show_int 2 = ''2''" by code_simp+
  then have "(''vulos_meet_active_rooms'', Some [(''tenant'', ''acme'')], ''2'') \<in> set (registry_rows ?m)"
    by (simp add: registry_rows_def rows_def)
  then show ?thesis unfolding e .
qed

end
