(* ===== verification/Web_Client.thy ===== *)
theory Web_Client
  imports Go_Mux
begin

text \<open>
  The embedded web client (\<^verbatim>\<open>web/embed.go\<close>): which of the built files a request opens, and the fallback
  to the application's page. The embedded files and the file server of \<^verbatim>\<open>net/http\<close> are arguments. The
  property says that what is opened is always a valid name of the file system, whatever the path.
\<close>

section \<open>The handler\<close>

text \<open>\<open>path.Clean\<close>: a path that does not start with a slash keeps its leading dot-dots.\<close>

fun clean_relative :: "string list \<Rightarrow> string list \<Rightarrow> string list" where
  "clean_relative acc [] = rev acc"
| "clean_relative acc (s # ss) =
     (if s = [] \<or> s = ''.'' then clean_relative acc ss
      else if s = ''..'' \<and> acc \<noteq> [] \<and> hd acc \<noteq> ''..'' then clean_relative (tl acc) ss
      else clean_relative (s # acc) ss)"

definition path_Clean :: "string \<Rightarrow> string" where
  "path_Clean p =
     (if p \<noteq> [] \<and> hd p = slash then slash # join_with [slash] (clean_segs [] (split_on slash (tl p)))
      else let q = join_with [slash] (clean_relative [] (split_on slash p)) in if q = [] then ''.'' else q)"

definition asset_name :: "string \<Rightarrow> string" where
  "asset_name p = (let q = trim_prefix (path_Clean p) [slash] in if q = [] then ''index.html'' else q)"

definition not_built :: http_response where
  "not_built = \<lparr>rsp_status = StatusOK, rsp_header = [(''Content-Type'', [''text/plain; charset=utf-8''])],
     rsp_body = ''vulos-meet client not built.'' @ [CHR 0x0A, CHR 0x0A] @
       ''Run `npm --prefix web install && npm --prefix web run build` then rebuild the binary.'' @ [CHR 0x0A]\<rparr>"

text \<open>
  \<open>assets\<close> is the embedded directory, \<open>None\<close> when it cannot be opened: the names it has. The request carries
  the escaped path; the handler works on the decoded one.
\<close>

definition web_handler ::
  "(string \<Rightarrow> bool) option \<Rightarrow> (http_request \<Rightarrow> http_response) \<Rightarrow> http_request \<Rightarrow> http_response" where
  "web_handler assets fileServer r =
     (case assets of
        None \<Rightarrow> http_error ''meet client unavailable'' StatusInternalServerError
      | Some opens \<Rightarrow>
          if \<not> opens ''index.html'' then not_built
          else if opens (asset_name (path_unescape (req_path r))) then fileServer r
          else fileServer (r\<lparr>req_path := [slash]\<rparr>))"

section \<open>What is opened\<close>

text \<open>\<open>fs.ValidPath\<close> of a name other than the root.\<close>

definition valid_name :: "string \<Rightarrow> bool" where
  "valid_name p \<longleftrightarrow> list_all (\<lambda>s. s \<notin> {[], ''.'', ''..''}) (split_on slash p)"

lemma split_on_no_sep: "s \<in> set (split_on c p) \<Longrightarrow> c \<notin> set s"
  by (induction p arbitrary: s) (auto split: if_splits list.splits)

lemma split_on_join: "ss \<noteq> [] \<Longrightarrow> \<forall>s \<in> set ss. c \<notin> set s \<Longrightarrow> split_on c (join_with [c] ss) = ss"
proof (induction ss)
  case (Cons s ss)
  then show ?case by (cases ss) (simp_all add: split_on_line split_on_char_free)
qed simp

lemma clean_segs_set:
  "s \<in> set (clean_segs acc ss) \<Longrightarrow> s \<in> set acc \<or> s \<in> set ss \<and> s \<notin> {[], ''.'', ''..''}"
proof (induction acc ss rule: clean_segs.induct)
  case (2 acc s' ss)
  then show ?case by (cases acc) (auto split: if_splits)
qed simp

text \<open>
  Whatever path is requested, the name that is opened in the embedded directory is a valid one: it has no
  empty, dot or dot-dot segment, so it cannot leave the directory.
\<close>

theorem opened_name_valid: "valid_name (asset_name (slash # p))"
proof (cases "clean_segs [] (split_on slash p)")
  case Nil
  then show ?thesis
    by (simp add: asset_name_def path_Clean_def valid_name_def trim_prefix_def) (simp add: slash_def)
next
  case (Cons s ss)
  define segs where "segs = clean_segs [] (split_on slash p)"
  have segs: "segs \<noteq> []" "\<forall>t \<in> set segs. slash \<notin> set t \<and> t \<notin> {[], ''.'', ''..''}"
    using Cons clean_segs_set [of _ "[]" "split_on slash p"] split_on_no_sep [of _ slash p] by (auto simp: segs_def)
  have name: "asset_name (slash # p) = join_with [slash] segs"
    using segs by (cases segs; cases "tl segs") (auto simp: asset_name_def path_Clean_def trim_prefix_def simp flip: segs_def)
  show ?thesis
    using segs(2) split_on_join [OF segs(1), of slash] by (auto simp: name valid_name_def list_all_iff)
qed

end
