(* ===== verification/Shared_Registry.thy ===== *)
theory Shared_Registry
  imports Admin_Server Signal_Gate Egress_Proxy Retention_Driver
begin

text \<open>
  One metrics registry is shared by every component (\<^verbatim>\<open>cmd/vulos-meet/main.go\<close> hands the same pointer to
  all of them). The locale \<open>registry_law\<close> states a property of the registry by the operations that keep it;
  inside it every handler and the retention pass are shown to keep it, once and for all such properties. It is
  interpreted on the well-formedness of the registry and on what only the metering receiver changes.
\<close>

section \<open>Properties every component keeps\<close>

locale registry_law =
  fixes P :: "metrics option \<Rightarrow> bool"
  assumes admin: "P m \<Longrightarrow> P (ObserveAdmin code m)"
    and token: "P m \<Longrightarrow> P (ObserveTokenOutcome oc m)"
    and admission: "P m \<Longrightarrow> P (ObserveRoomAdmission ra m)"
    and egress: "P m \<Longrightarrow> P (ObserveEgress eo m)"
    and rooms: "P m \<Longrightarrow> P (SetActiveRooms t n m)" "P m \<Longrightarrow> P (SetTotalRooms n m)"
    and participants: "P m \<Longrightarrow> P (SetParticipantsInRoom t r n m)" "P m \<Longrightarrow> P (ResetParticipantsForTenant t m)"
    and lifecycle: "P m \<Longrightarrow> P (ObserveRecordingLifecycle st m)"
    and recorded: "P m \<Longrightarrow> P (ObserveRecordingBytes x y m)"
    and sweep: "P m \<Longrightarrow> P (ObserveRetentionSweep res m)"
begin

lemma validate_keeps: "P m \<Longrightarrow> P (snd (Validate L v now now' raw m))"
  by (simp add: Validate_def Let_def ObserveTokenValidation_def token)

lemma gauges: "P m \<Longrightarrow> P (refresh_gauges T t rps m)"
proof -
  have "P m \<Longrightarrow> P (foldl (\<lambda>m rp. let pre = t @ Separator T in if \<not> has_prefix (rp_name rp) pre then m
      else SetParticipantsInRoom t (trim_prefix (rp_name rp) pre) (rp_num_participants rp) m) m rps)" for m
    by (induction rps arbitrary: m) (simp_all add: Let_def participants)
  then show "P m \<Longrightarrow> ?thesis" by (simp add: refresh_gauges_def participants)
qed

lemma refreshed: "P (ad_metrics st) \<Longrightarrow> P (ad_metrics (refreshParticipantGauges s t st))"
  by (auto simp: refreshParticipantGauges_def gauges split: option.split sum.split prod.split)

lemma listed_rooms: "P (ad_metrics st) \<Longrightarrow> P (ad_metrics (snd (handleListRooms s t r st)))"
  by (auto simp: handleListRooms_def Let_def rooms intro!: refreshed split: sum.split prod.split)

lemma deleted_room: "P (ad_metrics st) \<Longrightarrow> P (ad_metrics (snd (handleDeleteRoom s rest t r st)))"
  by (auto simp: handleDeleteRoom_def split: sum.split option.split prod.split)

lemma guarded_keeps:
  "(\<And>st. P (ad_metrics st) \<Longrightarrow> P (ad_metrics (snd (inner r st)))) \<Longrightarrow> P (ad_metrics st) \<Longrightarrow>
     P (ad_metrics (snd (guarded client s now now' inner r st)))"
  by (auto simp: guarded_def split: option.split prod.split)

lemma guardedTenant_keeps:
  "(\<And>st. P (ad_metrics st) \<Longrightarrow> P (ad_metrics (snd (inner t r st)))) \<Longrightarrow> P (ad_metrics st) \<Longrightarrow>
     P (ad_metrics (snd (guardedTenant client s now now' t inner r st)))"
  unfolding guardedTenant_def by (rule guarded_keeps) auto

lemma admin_mux_keeps: "P (ad_metrics st) \<Longrightarrow> P (ad_metrics (snd (admin_mux client s usage now now' r st)))"
  by (auto simp: admin_mux_def handleHealth_def handleInfo_def handleUsage_def
      intro!: guarded_keeps guardedTenant_keeps listed_rooms deleted_room split: mux_result.split option.split)

lemma admin_keeps:
  "P (ad_metrics (snd st)) \<Longrightarrow> P (ad_metrics (snd (snd (admin_handler client s usage trust t0 now now' r st))))"
  by (auto simp: admin_handler_def MiddlewareWithTrust_def instrumentAdmin_def Let_def case_prod_beta
      intro!: admin admin_mux_keeps split: option.split)

lemma capped: "P m \<Longrightarrow> P (fst (snd (enforceRoomCap rc room m rooms)))"
  by (auto simp: enforceRoomCap_def admission split: option.split sum.split prod.split)

lemma rtc_keeps: "P (gs_metrics s) \<Longrightarrow> P (gs_metrics (snd (handleRTC L g up trust clk r s)))"
  using validate_keeps [of "gs_metrics s" L "sg_validator g" "clk_verify clk" "clk_ttl clk" "extractTokenFromRequest r"]
  by (auto simp: handleRTC_def Let_def case_prod_beta intro!: capped split: sum.split prod.split)

lemma forward_keeps: "P (ps_metrics st) \<Longrightarrow> P (ps_metrics (snd (egress_forward N client p q r body vt seam st)))"
  by (auto simp: egress_forward_def proxy_reply_def Let_def case_prod_beta egress split: option.split prod.split)

lemma serve_keeps: "P (ps_metrics st) \<Longrightarrow> P (ps_metrics (snd (egress_serve L N client p now now' q body r st)))"
  using validate_keeps [of "ps_metrics st" L "ep_validator p" now now' "extractTokenFromRequest r"]
  by (auto simp: egress_serve_def proxy_reply_def Let_def case_prod_beta egress intro!: forward_keeps
      split: sum.split prod.split token_error.split)

lemma webhook_keeps: "P (es_metrics st) \<Longrightarrow> P (es_metrics (snd (egress_handle cfg E now now' r st)))"
  by (auto simp: egress_handle_def recordLifecycle_def Let_def case_prod_beta lifecycle recorded
      split: option.split sum.split prod.split)

lemma pass_keeps: "P m \<Longrightarrow> P (snd (snd (snd (snd (RetentionRun p l f del order now s d m)))))"
  by (auto simp: RetentionRun_def Let_def sweep split: sum.split prod.split option.split)

end

section \<open>The instances\<close>

interpretation well_formed: registry_law metrics_opt_ok
  by unfold_locales (simp_all add: keeps)

text \<open>Kept by every operation but the metering receiver's: the minutes counters, and the room limits.\<close>

definition untouched :: "(string, u64) go_map \<Rightarrow> int \<Rightarrow> int \<Rightarrow> metrics option \<Rightarrow> bool" where
  "untouched bill maxp maxr mo \<longleftrightarrow>
     (case mo of None \<Rightarrow> False
      | Some m \<Rightarrow> m_meetMinutes m = bill \<and> m_maxParticipants m = maxp \<and> m_maxRooms m = maxr)"

lemma untouched_map:
  "(\<And>m. m_meetMinutes (f m) = m_meetMinutes m \<and> m_maxParticipants (f m) = m_maxParticipants m \<and>
      m_maxRooms (f m) = m_maxRooms m) \<Longrightarrow> untouched bill maxp maxr (map_option f mo) = untouched bill maxp maxr mo"
  by (cases mo) (simp_all add: untouched_def)

lemma untouched_lifecycle: "untouched bill maxp maxr (ObserveEgressLifecycle ev mo) = untouched bill maxp maxr mo"
  unfolding ObserveEgressLifecycle_def by (rule untouched_map) simp

interpretation frame: registry_law "untouched bill maxp maxr" for bill maxp maxr
proof unfold_locales
  fix m st
  have "untouched bill maxp maxr (map_option (\<lambda>m. m\<lparr>m_recordingLifecycle :=
      bump (recording_state_label st) (m_recordingLifecycle m)\<rparr>) m) = untouched bill maxp maxr m"
    by (rule untouched_map) simp
  then show "untouched bill maxp maxr m \<Longrightarrow> untouched bill maxp maxr (ObserveRecordingLifecycle st m)"
    by (auto simp: ObserveRecordingLifecycle_def Let_def untouched_lifecycle split: recording_state.split)
qed (simp_all add: untouched_map ObserveAdmin_def ObserveTokenOutcome_def ObserveRoomAdmission_def ObserveEgress_def
    SetActiveRooms_def SetTotalRooms_def SetParticipantsInRoom_def ResetParticipantsForTenant_def
    ObserveRecordingBytes_def ObserveRetentionSweep_def)

end
