(* ===== verification/Meet_Box.thy ===== *)
theory Meet_Box
  imports Meet_Main Metering_Pipeline Metrics_Text Web_Client Shared_Registry
begin

text \<open>
  The running box: the three listeners, the sweeper and the metering worker that \<^verbatim>\<open>cmd/vulos-meet/main.go\<close>
  starts over one shared state. \<open>box_start\<close> is that state as \<open>run\<close> builds it from the boot record,
  \<open>box_step\<close> the effect of one request, tick or worker step, \<open>box_run\<close> a sequence of them in any order. Each
  component works on its own part of the state; the laws of a part are a locale, interpreted for all of them.
  A request is one step here: what interleaves inside one is the subject of the component theories.
\<close>

section \<open>Parts of the state\<close>

definition lift_handler :: "('s \<Rightarrow> 't) \<Rightarrow> ('t \<Rightarrow> 's \<Rightarrow> 's) \<Rightarrow> 't handler \<Rightarrow> 's handler" where
  "lift_handler view store h r s = (let (rsp, t) = h r (view s) in (rsp, store t s))"

locale state_part =
  fixes view :: "'s \<Rightarrow> 't" and store :: "'t \<Rightarrow> 's \<Rightarrow> 's"
  assumes view_store: "view (store t s) = t" and store_view: "store (view s) s = s" and store_store: "store t (store t' s) = store t s"
begin

lemma lift_view: "view (snd (lift_handler view store h r s)) = snd (h r (view s))"
  by (simp add: lift_handler_def view_store case_prod_beta)

lemma lift_idle: "snd (h r (view s)) = view s \<Longrightarrow> snd (lift_handler view store h r s) = s"
  by (simp add: lift_handler_def store_view case_prod_beta)

lemma lift_keeps: "(\<And>t. Q (f (store t s)) = Q' t) \<Longrightarrow> Q' (snd (h r (view s))) \<Longrightarrow> Q (f (snd (lift_handler view store h r s)))"
  by (simp add: lift_handler_def case_prod_beta)

end

section \<open>The shared state\<close>

text \<open>
  The gate's state (limiter, registry, room client, media server) and what the other components add: the admin
  limiter and introspector, the tracked rooms, the metering client with its history, the recording ledger, the
  cloud sink, the blob store, and whatever the app platform keeps.
\<close>

record ('u, 'k, 'c, 'cl, 'd, 'p) box = "(rooms_state, 'u) gate_state" +
  bx_admin_limiter :: "rate_limiter option"
  bx_intro :: "'k introspector option"
  bx_usage :: usage_rooms
  bx_reports :: "'c cp_queue"
  bx_ledger :: mem_store
  bx_cloud :: 'cl
  bx_blobs :: 'd
  bx_places :: 'p

text \<open>The libraries and peers: nothing is assumed of them.\<close>

record ('tok, 'x, 'u, 'k, 'c, 'cl, 'p, 'ah, 'mh) box_env =
  be_env :: "string \<Rightarrow> string"
  be_key_client :: "'k key_client"
  be_tokens :: "'tok token_lib"
  be_codec :: "'x egress_env2"
  be_rtc :: "'u upstream"
  be_egress :: "'u up_client"
  be_receive :: "string \<Rightarrow> string \<Rightarrow> http_request \<Rightarrow> string option"
  be_cloud :: "'cl http_client"
  be_cp :: "'c http_client"
  be_apps :: "'ah \<Rightarrow> (rooms_state \<times> 'p) handler"
  be_apps_base :: "'ah \<Rightarrow> string"
  be_mcp :: "'mh \<Rightarrow> (rooms_state \<times> 'p) handler"
  be_mcp_base :: "'mh \<Rightarrow> string"
  be_assets :: "(string \<Rightarrow> bool) option"
  be_files :: "http_request \<Rightarrow> http_response"
  be_printable :: "int \<Rightarrow> bool"

text \<open>What serving one request reads from outside: clocks, map orders, the raw query, the body, cancellation.\<close>

record readings =
  rd_limit :: time
  rd_clocks :: clock_readings
  rd_key :: time
  rd_key_fetched :: time
  rd_now :: time
  rd_now_later :: time
  rd_iter :: "(string \<times> time) list \<Rightarrow> (string \<times> time) list"
  rd_query :: string
  rd_body :: "string option"
  rd_cancelled :: "nat \<Rightarrow> bool"

section \<open>The parts\<close>

definition admin_part :: "('u, 'k, 'c, 'cl, 'd, 'p) box \<Rightarrow> rate_limiter option \<times> (rooms_state, 'k) admin_state" where
  "admin_part s = (bx_admin_limiter s, \<lparr>ad_rooms = gs_rooms s, ad_metrics = gs_metrics s, ad_intro = bx_intro s\<rparr>)"

definition set_admin ::
  "rate_limiter option \<times> (rooms_state, 'k) admin_state \<Rightarrow> ('u, 'k, 'c, 'cl, 'd, 'p) box \<Rightarrow> ('u, 'k, 'c, 'cl, 'd, 'p) box" where
  "set_admin t s = s\<lparr>bx_admin_limiter := fst t, gs_rooms := ad_rooms (snd t), gs_metrics := ad_metrics (snd t),
     bx_intro := ad_intro (snd t)\<rparr>"

definition gate_part :: "('u, 'k, 'c, 'cl, 'd, 'p) box \<Rightarrow> (rooms_state, 'u) gate_state" where
  "gate_part s = gate_state.truncate s"

definition set_gate :: "(rooms_state, 'u) gate_state \<Rightarrow> ('u, 'k, 'c, 'cl, 'd, 'p) box \<Rightarrow> ('u, 'k, 'c, 'cl, 'd, 'p) box" where
  "set_gate t s = gate_state.extend t (gate_state.more s)"

definition proxy_part :: "('u, 'k, 'c, 'cl, 'd, 'p) box \<Rightarrow> 'u proxy_state" where
  "proxy_part s = \<lparr>ps_metrics = gs_metrics s, ps_upstream = gs_upstream s\<rparr>"

definition set_proxy :: "'u proxy_state \<Rightarrow> ('u, 'k, 'c, 'cl, 'd, 'p) box \<Rightarrow> ('u, 'k, 'c, 'cl, 'd, 'p) box" where
  "set_proxy t s = s\<lparr>gs_metrics := ps_metrics t, gs_upstream := ps_upstream t\<rparr>"

definition egress_part :: "('u, 'k, 'c, 'cl, 'd, 'p) box \<Rightarrow> (mem_store, 'cl) egress_state" where
  "egress_part s = \<lparr>es_store = bx_ledger s, es_metrics = gs_metrics s, es_cloud = bx_cloud s\<rparr>"

definition set_egress :: "(mem_store, 'cl) egress_state \<Rightarrow> ('u, 'k, 'c, 'cl, 'd, 'p) box \<Rightarrow> ('u, 'k, 'c, 'cl, 'd, 'p) box" where
  "set_egress t s = s\<lparr>bx_ledger := es_store t, gs_metrics := es_metrics t, bx_cloud := es_cloud t\<rparr>"

definition usage_part :: "('u, 'k, 'c, 'cl, 'd, 'p) box \<Rightarrow> 'c cp_queue usage_state" where
  "usage_part s = \<lparr>us_rooms = bx_usage s, us_metrics = gs_metrics s, us_reports = bx_reports s\<rparr>"

definition set_usage :: "'c cp_queue usage_state \<Rightarrow> ('u, 'k, 'c, 'cl, 'd, 'p) box \<Rightarrow> ('u, 'k, 'c, 'cl, 'd, 'p) box" where
  "set_usage t s = s\<lparr>bx_usage := us_rooms t, gs_metrics := us_metrics t, bx_reports := us_reports t\<rparr>"

definition places_part :: "('u, 'k, 'c, 'cl, 'd, 'p) box \<Rightarrow> rooms_state \<times> 'p" where
  "places_part s = (gs_rooms s, bx_places s)"

definition set_places :: "rooms_state \<times> 'p \<Rightarrow> ('u, 'k, 'c, 'cl, 'd, 'p) box \<Rightarrow> ('u, 'k, 'c, 'cl, 'd, 'p) box" where
  "set_places t s = s\<lparr>gs_rooms := fst t, bx_places := snd t\<rparr>"

interpretation admin_surface: state_part admin_part set_admin
  by unfold_locales (auto simp: admin_part_def set_admin_def prod_eq_iff)

interpretation gate: state_part gate_part set_gate
  by unfold_locales (simp_all add: gate_part_def set_gate_def gate_state.defs gate_state.equality)

interpretation proxy: state_part proxy_part set_proxy
  by unfold_locales (simp_all add: proxy_part_def set_proxy_def)

interpretation webhook: state_part egress_part set_egress
  by unfold_locales (simp_all add: egress_part_def set_egress_def)

interpretation meter: state_part usage_part set_usage
  by unfold_locales (simp_all add: usage_part_def set_usage_def)

interpretation places: state_part places_part set_places
  by unfold_locales (simp_all add: places_part_def set_places_def)

section \<open>The listeners\<close>

text \<open>A handler that does not change the state.\<close>

definition pure_handler :: "(http_request \<Rightarrow> http_response) \<Rightarrow> 's handler" where
  "pure_handler f r s = (f r, s)"

text \<open>A mux with one exact route.\<close>

definition single_route :: "string \<Rightarrow> 's handler \<Rightarrow> 's handler" where
  "single_route path h r s =
     (case mux_find [literal_pattern None False path] (req_method r) (req_path r) of
        MuxHandler _ _ \<Rightarrow> h r s | other \<Rightarrow> (mux_fallback other, s))"

definition trusts_proxy :: "('tok, 'x, 'u, 'k, 'c, 'cl, 'p, 'ah, 'mh) box_env \<Rightarrow> bool" where
  "trusts_proxy E = isTrustedProxy (be_env E)"

definition box_reporter :: "('ah, 'mh, 'k, 'c, 'd) boot \<Rightarrow> 'c cp_queue reporter" where
  "box_reporter b = (case bt_cp b of None \<Rightarrow> None | Some _ \<Rightarrow> Some cp_report)"

definition box_receive ::
  "('tok, 'x, 'u, 'k, 'c, 'cl, 'p, 'ah, 'mh) box_env \<Rightarrow> ('ah, 'mh, 'k, 'c, 'd) boot \<Rightarrow> http_request \<Rightarrow> string option" where
  "box_receive E b = be_receive E (lc_api_key (cf_livekit (bt_config b))) (lc_api_secret (cf_livekit (bt_config b)))"

definition admin_listener ::
  "('tok, 'x, 'u, 'k, 'c, 'cl, 'p, 'ah, 'mh) box_env \<Rightarrow> ('ah, 'mh, 'k, 'c, 'd) boot \<Rightarrow> readings \<Rightarrow>
     ('u, 'k, 'c, 'cl, 'd, 'p) box handler" where
  "admin_listener E b rd r s =
     lift_handler admin_part set_admin
       (admin_handler (be_key_client E) (bt_admin b) (Some (\<lambda>t. Snapshot (rd_iter rd) (rd_now rd) t (bx_usage s)))
          (trusts_proxy E) (rd_limit rd) (rd_key rd) (rd_key_fetched rd)) r s"

definition egress_webhook ::
  "('tok, 'x, 'u, 'k, 'c, 'cl, 'p, 'ah, 'mh) box_env \<Rightarrow> ('ah, 'mh, 'k, 'c, 'd) boot \<Rightarrow> readings \<Rightarrow>
     ('u, 'k, 'c, 'cl, 'd, 'p) box handler" where
  "egress_webhook E b rd = single_route WebhookPath (lift_handler egress_part set_egress
     (egress_handle (bt_egress b) \<lparr>ee_receive = box_receive E b, ee_client = be_cloud E, ee_cancelled = rd_cancelled rd,
        ee_url_ok = url_Parse (ec_cloud_url (bt_egress b)) \<noteq> None\<rparr> (rd_now rd) (rd_now_later rd)))"

definition usage_webhook ::
  "('tok, 'x, 'u, 'k, 'c, 'cl, 'p, 'ah, 'mh) box_env \<Rightarrow> ('ah, 'mh, 'k, 'c, 'd) boot \<Rightarrow> readings \<Rightarrow>
     ('u, 'k, 'c, 'cl, 'd, 'p) box handler" where
  "usage_webhook E b rd = single_route UsageWebhookPath (lift_handler usage_part set_usage
     (usage_handle (fst (bt_usage b)) (box_receive E b) (box_reporter b) (rd_iter rd) (rd_now rd) (rd_now_later rd)))"

definition egress_surface ::
  "('tok, 'x, 'u, 'k, 'c, 'cl, 'p, 'ah, 'mh) box_env \<Rightarrow> ('ah, 'mh, 'k, 'c, 'd) boot \<Rightarrow> readings \<Rightarrow>
     ('u, 'k, 'c, 'cl, 'd, 'p) box handler" where
  "egress_surface E b rd = lift_handler proxy_part set_proxy
     (egress_serve (be_tokens E) (be_codec E) (be_egress E) (bt_proxy b) (rd_now rd) (rd_now_later rd)
        (rd_query rd) (rd_body rd))"

definition rtc_surface ::
  "('tok, 'x, 'u, 'k, 'c, 'cl, 'p, 'ah, 'mh) box_env \<Rightarrow> ('ah, 'mh, 'k, 'c, 'd) boot \<Rightarrow> readings \<Rightarrow>
     ('u, 'k, 'c, 'cl, 'd, 'p) box handler" where
  "rtc_surface E b rd = lift_handler gate_part set_gate
     (handleRTC (be_tokens E) (bt_gate b) (be_rtc E) (trusts_proxy E) (rd_clocks rd))"

definition sibling_surface ::
  "('tok, 'x, 'u, 'k, 'c, 'cl, 'p, 'ah, 'mh) box_env \<Rightarrow> ('ah, 'mh, 'k, 'c, 'd) boot \<Rightarrow> readings \<Rightarrow>
     ('u, 'k, 'c, 'cl, 'd, 'p) box handler" where
  "sibling_surface E b rd =
     (let apps = lift_handler places_part set_places (be_apps E (bt_apps b));
          mcp = lift_handler places_part set_places (be_mcp E (bt_mcp b))
      in sibling_handler (be_apps_base E (bt_apps b)) (be_mcp_base E (bt_mcp b))
           [pure_handler (NewHealthzHandler Version), egress_webhook E b rd, usage_webhook E b rd, apps, apps, mcp, mcp,
            pure_handler (web_handler (be_assets E) (be_files E))])"

definition public_listener ::
  "('tok, 'x, 'u, 'k, 'c, 'cl, 'p, 'ah, 'mh) box_env \<Rightarrow> ('ah, 'mh, 'k, 'c, 'd) boot \<Rightarrow> readings \<Rightarrow>
     ('u, 'k, 'c, 'cl, 'd, 'p) box handler" where
  "public_listener E b rd = public_handler (trusts_proxy E) (rd_limit rd)
     (gate_handler (rtc_surface E b rd) (Some (sibling_surface E b rd)) (Some (egress_surface E b rd)))"

text \<open>The registry is there from the start (\<open>box_start\<close>); without one the connection would be aborted.\<close>

definition metrics_listener ::
  "('tok, 'x, 'u, 'k, 'c, 'cl, 'p, 'ah, 'mh) box_env \<Rightarrow> ('u, 'k, 'c, 'cl, 'd, 'p) box handler" where
  "metrics_listener E = single_route ''/metrics'' (\<lambda>r s.
     (case gs_metrics s of None \<Rightarrow> http_error [] StatusInternalServerError | Some m \<Rightarrow> metrics_handler (be_printable E) m, s))"

section \<open>The start\<close>

text \<open>The setters \<open>run\<close> calls on the admin server and on the gate, applied to what their constructors return.\<close>

definition admin_start :: "('ah, 'mh, 'k, 'c, 'd) boot \<Rightarrow> rate_limiter option \<times> (rooms_state, 'k) admin_state" where
  "admin_start b =
     (let st = admin_SetMetrics (bt_metrics b) \<lparr>ad_rooms = (bt_rooms b, 0), ad_metrics = None, ad_intro = None\<rparr>
      in admin_SetRateLimiter (Some (bt_admin_limiter b))
           (None, case bt_introspector b of None \<Rightarrow> st | Some i \<Rightarrow> SetIntrospector (Some i) st))"

definition gate_start :: "('ah, 'mh, 'k, 'c, 'd) boot \<Rightarrow> 'u \<Rightarrow> (rooms_state, 'u) gate_state" where
  "gate_start b u = gate_SetRateLimiter (Some (bt_rtc_limiter b))
     \<lparr>gs_limiter = None, gs_metrics = bt_metrics b, gs_rooms = (bt_rooms b, 0), gs_upstream = u\<rparr>"

definition box_start :: "('ah, 'mh, 'k, 'c, 'd) boot \<Rightarrow> 'u \<Rightarrow> 'cl \<Rightarrow> 'd \<Rightarrow> 'p \<Rightarrow> ('u, 'k, 'c, 'cl, 'd, 'p) box" where
  "box_start b u cl d p =
     (let g = gate_start b u in set_admin (admin_start b)
        \<lparr>gs_limiter = gs_limiter g, gs_metrics = gs_metrics g, gs_rooms = gs_rooms g, gs_upstream = gs_upstream g,
         bx_admin_limiter = None, bx_intro = None, bx_usage = us_rooms (snd (bt_usage b)),
         bx_reports = map_option (\<lambda>c. (c, no_history)) (us_reports (snd (bt_usage b))),
         bx_ledger = NewMemRecordingStore, bx_cloud = cl, bx_blobs = d, bx_places = p\<rparr>)"

section \<open>Steps and runs\<close>

datatype box_event =
    AdminRequest readings http_request
  | PublicRequest readings http_request
  | ScrapeRequest http_request
  | SweepTick time "string list \<Rightarrow> string list"
  | MeterTake
  | MeterPost "nat \<Rightarrow> bool"

definition sweep_tick ::
  "('ah, 'mh, 'k, 'c, 'd) boot \<Rightarrow> time \<Rightarrow> (string list \<Rightarrow> string list) \<Rightarrow>
     ('u, 'k, 'c, 'cl, 'd, 'p) box \<Rightarrow> ('u, 'k, 'c, 'cl, 'd, 'p) box" where
  "sweep_tick b now order s =
     (let dr = bt_driver b;
          (l, d, m) = RunLoop (dr_policy dr) (RetentionSweepInterval (bt_config b)) (dr_list dr) (dr_set_state dr)
            (dr_deleter dr) order [now] (bx_ledger s, bx_blobs s, gs_metrics s)
      in s\<lparr>bx_ledger := l, bx_blobs := d, gs_metrics := m\<rparr>)"

definition meter_url_ok :: "('ah, 'mh, 'k, 'c, 'd) boot \<Rightarrow> bool" where
  "meter_url_ok b =
     (case bt_cp b of None \<Rightarrow> False | Some c \<Rightarrow> url_Parse (cp_url (uc_cfg c) @ ''/api/usage'') \<noteq> None)"

definition meter_act_on ::
  "('tok, 'x, 'u, 'k, 'c, 'cl, 'p, 'ah, 'mh) box_env \<Rightarrow> ('ah, 'mh, 'k, 'c, 'd) boot \<Rightarrow> meter_act \<Rightarrow>
     ('u, 'k, 'c, 'cl, 'd, 'p) box \<Rightarrow> ('u, 'k, 'c, 'cl, 'd, 'p) box" where
  "meter_act_on E b act s =
     set_usage (meter_step (fst (bt_usage b)) (box_receive E b) (be_cp E) (meter_url_ok b) act (usage_part s)) s"

fun box_serve ::
  "('tok, 'x, 'u, 'k, 'c, 'cl, 'p, 'ah, 'mh) box_env \<Rightarrow> ('ah, 'mh, 'k, 'c, 'd) boot \<Rightarrow> box_event \<Rightarrow>
     ('u, 'k, 'c, 'cl, 'd, 'p) box \<Rightarrow> http_response option \<times> ('u, 'k, 'c, 'cl, 'd, 'p) box" where
  "box_serve E b (AdminRequest rd r) s = map_prod Some id (admin_listener E b rd r s)"
| "box_serve E b (PublicRequest rd r) s = map_prod Some id (public_listener E b rd r s)"
| "box_serve E b (ScrapeRequest r) s = map_prod Some id (metrics_listener E r s)"
| "box_serve E b (SweepTick now order) s = (None, sweep_tick b now order s)"
| "box_serve E b MeterTake s = (None, meter_act_on E b WorkerTake s)"
| "box_serve E b (MeterPost closing) s = (None, meter_act_on E b (WorkerPost closing) s)"

definition box_step ::
  "('tok, 'x, 'u, 'k, 'c, 'cl, 'p, 'ah, 'mh) box_env \<Rightarrow> ('ah, 'mh, 'k, 'c, 'd) boot \<Rightarrow> box_event \<Rightarrow>
     ('u, 'k, 'c, 'cl, 'd, 'p) box \<Rightarrow> ('u, 'k, 'c, 'cl, 'd, 'p) box" where
  "box_step E b ev s = snd (box_serve E b ev s)"

definition box_run ::
  "('tok, 'x, 'u, 'k, 'c, 'cl, 'p, 'ah, 'mh) box_env \<Rightarrow> ('ah, 'mh, 'k, 'c, 'd) boot \<Rightarrow> box_event list \<Rightarrow>
     ('u, 'k, 'c, 'cl, 'd, 'p) box \<Rightarrow> ('u, 'k, 'c, 'cl, 'd, 'p) box" where
  "box_run E b evs s = fold (box_step E b) evs s"

lemma box_run_simps [simp]:
  "box_run E b [] s = s" "box_run E b (ev # evs) s = box_run E b evs (box_step E b ev s)"
  by (simp_all add: box_run_def)

text \<open>A run keeps what every event keeps, as long as the events satisfy a condition on the state they find.\<close>

fun all_along ::
  "(box_event \<Rightarrow> ('u, 'k, 'c, 'cl, 'd, 'p) box \<Rightarrow> bool) \<Rightarrow> ('tok, 'x, 'u, 'k, 'c, 'cl, 'p, 'ah, 'mh) box_env \<Rightarrow>
     ('ah, 'mh, 'k, 'c, 'd) boot \<Rightarrow> box_event list \<Rightarrow> ('u, 'k, 'c, 'cl, 'd, 'p) box \<Rightarrow> bool" where
  "all_along C E b [] s = True"
| "all_along C E b (ev # evs) s = (C ev s \<and> all_along C E b evs (box_step E b ev s))"

lemma box_run_keeps:
  assumes "all_along C E b evs s" "Q s" "\<And>ev s. C ev s \<Longrightarrow> Q s \<Longrightarrow> Q (box_step E b ev s)"
  shows "Q (box_run E b evs s)"
  using assms(1,2) by (induction evs arbitrary: s) (auto intro: assms(3))

end
