(* ===== verification/Box_Safety.thy ===== *)
theory Box_Safety
  imports Meet_Box
begin

text \<open>
  What holds of every run of the box: a caller without credentials changes nothing but the counters that
  count refusals (and spends tokens of the limiters), and the invariant of the whole state, from which the
  metering account of the running box follows.
\<close>

section \<open>Cases of a public request\<close>

definition platform_route ::
  "('tok, 'x, 'u, 'k, 'c, 'cl, 'p, 'ah, 'mh) box_env \<Rightarrow> ('ah, 'mh, 'k, 'c, 'd) boot \<Rightarrow> http_request \<Rightarrow> bool" where
  "platform_route E b r =
     (case mux_find (sibling_patterns (be_apps_base E (bt_apps b)) (be_mcp_base E (bt_mcp b))) (req_method r) (req_path r) of
        MuxHandler i _ \<Rightarrow> i \<in> {3, 4, 5, 6} | _ \<Rightarrow> False)"

lemma single_route_keeps: "Q s \<Longrightarrow> Q (snd (h r s)) \<Longrightarrow> Q (snd (single_route p h r s))"
  by (simp add: single_route_def split: mux_result.split)

lemma sibling_index:
  assumes "mux_find (sibling_patterns a m) method p = MuxHandler i ws" shows "i < 8"
  using mux_find_sound [OF assms] by (simp add: sibling_patterns_def)

lemma sibling_keeps:
  assumes "Q s"
    and egress: "Q s \<Longrightarrow> Q (snd (egress_webhook E b rd r s))"
    and usage: "Q s \<Longrightarrow> Q (snd (usage_webhook E b rd r s))"
    and places: "\<And>h. platform_route E b r \<Longrightarrow> Q s \<Longrightarrow> Q (snd (lift_handler places_part set_places h r s))"
  shows "Q (snd (sibling_surface E b rd r s))"
proof (cases "mux_find (sibling_patterns (be_apps_base E (bt_apps b)) (be_mcp_base E (bt_mcp b))) (req_method r) (req_path r)")
  case (MuxHandler i ws)
  then have "i \<in> {0, 1, 2, 3, 4, 5, 6, 7}" using sibling_index [OF MuxHandler] by auto
  moreover have "platform_route E b r \<longleftrightarrow> i \<in> {3, 4, 5, 6}" by (simp add: platform_route_def MuxHandler)
  ultimately show ?thesis
    using assms by (auto simp: sibling_surface_def sibling_handler_def MuxHandler pure_handler_def Let_def)
qed (use assms(1) in \<open>simp_all add: sibling_surface_def sibling_handler_def Let_def\<close>)

lemma public_keeps:
  assumes "Q s" and limiter: "\<And>l s. Q s \<Longrightarrow> Q (s\<lparr>gs_limiter := l\<rparr>)"
    and rtc: "\<And>s. Q s \<Longrightarrow> Q (snd (rtc_surface E b rd r s))"
    and egress: "\<And>s. Q s \<Longrightarrow> Q (snd (egress_surface E b rd r s))"
    and webhook: "\<And>s. Q s \<Longrightarrow> Q (snd (egress_webhook E b rd r s))"
    and usage: "\<And>s. Q s \<Longrightarrow> Q (snd (usage_webhook E b rd r s))"
    and places: "\<And>h s. platform_route E b r \<Longrightarrow> Q s \<Longrightarrow> Q (snd (lift_handler places_part set_places h r s))"
  shows "Q (snd (public_listener E b rd r s))"
proof -
  let ?l = "gate_rate_limit (trusts_proxy E) (rd_limit rd) r (gs_limiter s)"
  have sib: "Q s \<Longrightarrow> Q (snd (sibling_surface E b rd r s))" for s
    by (rule sibling_keeps) (use webhook usage places in auto)
  have "Q s \<Longrightarrow> Q (snd (gate_handler (rtc_surface E b rd) (Some (sibling_surface E b rd)) (Some (egress_surface E b rd)) r s))" for s
  proof (cases "mux_find (gate_patterns True) (req_method r) (req_path r)")
    case (MuxHandler i ws)
    assume q: "Q s"
    have "i \<in> {0, 1, 2}" using mux_find_sound [OF MuxHandler] by (auto simp: gate_patterns_def)
    then show ?thesis using q rtc egress sib by (auto simp: gate_handler_def MuxHandler Let_def)
  qed (simp_all add: gate_handler_def)
  then show ?thesis
    using assms(1) limiter by (simp add: public_listener_def public_handler_def case_prod_beta Let_def)
qed

section \<open>Without credentials\<close>

text \<open>The registry without the counters of refusals.\<close>

definition quiet :: "metrics option \<Rightarrow> metrics option" where
  "quiet mo = map_option (\<lambda>m. m\<lparr>m_adminRequests := [], m_tokenValidation := [], m_egressRequests := []\<rparr>) mo"

text \<open>What a caller without credentials must not change: rooms, media server, metering, ledger, cloud, blobs, apps.\<close>

definition guarded_state ::
  "('u, 'k, 'c, 'cl, 'd, 'p) box \<Rightarrow>
     metrics option \<times> rooms_state \<times> 'u \<times> usage_rooms \<times> 'c cp_queue \<times> mem_store \<times> 'cl \<times> 'd \<times> 'p" where
  "guarded_state s = (quiet (gs_metrics s), gs_rooms s, gs_upstream s, bx_usage s, bx_reports s, bx_ledger s,
     bx_cloud s, bx_blobs s, bx_places s)"

definition token_refused :: "'tok token_lib \<Rightarrow> validator \<Rightarrow> time \<Rightarrow> time \<Rightarrow> http_request \<Rightarrow> bool" where
  "token_refused L v now now' r \<longleftrightarrow>
     extractTokenFromRequest r = [] \<or> isl (validate_token L v now now' (extractTokenFromRequest r))"

text \<open>
  A request without credentials: neither authentic to the admin surface nor with a token that the gate or the
  proxy accepts, not a webhook that verifies, not for the app platform, which checks its own tokens.
\<close>

fun credential_free ::
  "('tok, 'x, 'u, 'k, 'c, 'cl, 'p, 'ah, 'mh) box_env \<Rightarrow> ('ah, 'mh, 'k, 'c, 'd) boot \<Rightarrow> box_event \<Rightarrow>
     ('u, 'k, 'c, 'cl, 'd, 'p) box \<Rightarrow> bool" where
  "credential_free E b (AdminRequest rd r) s \<longleftrightarrow>
     \<not> authentic (be_key_client E) (bt_admin b) (rd_key rd) (rd_key_fetched rd) r (bx_intro s)"
| "credential_free E b (PublicRequest rd r) s \<longleftrightarrow>
     token_refused (be_tokens E) (sg_validator (bt_gate b)) (clk_verify (rd_clocks rd)) (clk_ttl (rd_clocks rd)) r \<and>
     token_refused (be_tokens E) (ep_validator (bt_proxy b)) (rd_now rd) (rd_now_later rd) r \<and>
     box_receive E b r = None \<and> \<not> platform_route E b r"
| "credential_free E b (ScrapeRequest r) s \<longleftrightarrow> True"
| "credential_free E b ev s \<longleftrightarrow> False"

lemma quiet_counters [simp]:
  "quiet (ObserveAdmin code m) = quiet m" "quiet (ObserveTokenValidation e m) = quiet m"
  "quiet (ObserveEgress eo m) = quiet m"
  by (simp_all add: quiet_def ObserveAdmin_def ObserveTokenValidation_def ObserveTokenOutcome_def ObserveEgress_def
      option.map_comp comp_def)

lemma admin_denied:
  assumes "\<not> authentic client a now now' r (ad_intro st)"
  shows "ad_rooms (snd (admin_mux client a usage now now' r st)) = ad_rooms st \<and>
    ad_metrics (snd (admin_mux client a usage now now' r st)) = ad_metrics st"
proof -
  have "checkAuth client a now now' r (ad_intro st) = (None, i) \<Longrightarrow> False" for i
    using checkAuth_None_iff [of client a now now' r "ad_intro st"] assms by simp
  then show ?thesis
    by (auto simp: admin_mux_def guardedTenant_def guarded_def handleHealth_def split: mux_result.split option.split prod.split)
qed

lemma admin_listener_denied:
  assumes "\<not> authentic (be_key_client E) (bt_admin b) (rd_key rd) (rd_key_fetched rd) r (bx_intro s)"
  shows "guarded_state (snd (admin_listener E b rd r s)) = guarded_state s"
  using admin_denied [of "be_key_client E" "bt_admin b" "rd_key rd" "rd_key_fetched rd" r "snd (admin_part s)"] assms
  by (auto simp: admin_listener_def lift_handler_def guarded_state_def set_admin_def admin_part_def admin_handler_def
      MiddlewareWithTrust_def instrumentAdmin_def case_prod_beta Let_def split: option.split)

lemma rtc_denied:
  assumes "token_refused L (sg_validator g) (clk_verify clk) (clk_ttl clk) r"
  shows "quiet (gs_metrics (snd (handleRTC L g up trust clk r s))) = quiet (gs_metrics s) \<and>
    gs_rooms (snd (handleRTC L g up trust clk r s)) = gs_rooms s \<and>
    gs_upstream (snd (handleRTC L g up trust clk r s)) = gs_upstream s"
  using assms
  by (auto simp: token_refused_def handleRTC_def Validate_def Let_def case_prod_beta split: sum.splits)

lemma egress_denied:
  assumes "token_refused L (ep_validator p) now now' r"
  shows "quiet (ps_metrics (snd (egress_serve L N client p now now' q body r st))) = quiet (ps_metrics st) \<and>
    ps_upstream (snd (egress_serve L N client p now now' q body r st)) = ps_upstream st"
  using assms
  by (auto simp: token_refused_def egress_serve_def Validate_def proxy_reply_def Let_def
      split: sum.splits token_error.splits)

lemma webhooks_denied:
  assumes "box_receive E b r = None"
  shows "snd (egress_webhook E b rd r s) = s" "snd (usage_webhook E b rd r s) = s"
  using assms
  by (auto simp: egress_webhook_def usage_webhook_def egress_handle_def usage_handle_def receive_capped_def
      intro!: single_route_keeps [of "\<lambda>s'. s' = s"] webhook.lift_idle meter.lift_idle)

lemma rtc_surface_parts [simp]:
  "gs_metrics (snd (rtc_surface E b rd r s)) = gs_metrics (snd (handleRTC (be_tokens E) (bt_gate b) (be_rtc E) (trusts_proxy E) (rd_clocks rd) r (gate_part s)))"
  "gs_rooms (snd (rtc_surface E b rd r s)) = gs_rooms (snd (handleRTC (be_tokens E) (bt_gate b) (be_rtc E) (trusts_proxy E) (rd_clocks rd) r (gate_part s)))"
  "gs_upstream (snd (rtc_surface E b rd r s)) = gs_upstream (snd (handleRTC (be_tokens E) (bt_gate b) (be_rtc E) (trusts_proxy E) (rd_clocks rd) r (gate_part s)))"
  "bx_usage (snd (rtc_surface E b rd r s)) = bx_usage s" "bx_reports (snd (rtc_surface E b rd r s)) = bx_reports s"
  "bx_ledger (snd (rtc_surface E b rd r s)) = bx_ledger s" "bx_cloud (snd (rtc_surface E b rd r s)) = bx_cloud s"
  "bx_blobs (snd (rtc_surface E b rd r s)) = bx_blobs s" "bx_places (snd (rtc_surface E b rd r s)) = bx_places s"
  by (cases s; simp add: rtc_surface_def lift_handler_def set_gate_def gate_part_def gate_state.defs case_prod_beta)+

lemma gate_part_fields [simp]:
  "gs_metrics (gate_part s) = gs_metrics s" "gs_rooms (gate_part s) = gs_rooms s" "gs_upstream (gate_part s) = gs_upstream s"
  by (simp_all add: gate_part_def gate_state.defs)

lemma credential_free_step:
  fixes s :: "('u, 'k, 'c, 'cl, 'd, 'p) box"
  assumes "credential_free E b ev s"
  shows "guarded_state (box_step E b ev s) = guarded_state s"
proof (cases ev)
  case (AdminRequest rd r)
  then show ?thesis using assms by (simp add: box_step_def admin_listener_denied)
next
  case (PublicRequest rd r)
  note free = assms [unfolded PublicRequest, simplified]
  have "guarded_state (snd (public_listener E b rd r s)) = guarded_state s"
  proof (rule public_keeps [of "\<lambda>s'. guarded_state s' = guarded_state s"])
    fix s' :: "('u, 'k, 'c, 'cl, 'd, 'p) box"
    assume s': "guarded_state s' = guarded_state s"
    show "guarded_state (snd (rtc_surface E b rd r s')) = guarded_state s"
      using s' rtc_denied [OF free [THEN conjunct1], of "be_rtc E" "trusts_proxy E" "gate_part s'"]
      by (simp add: guarded_state_def)
    show "guarded_state (snd (egress_surface E b rd r s')) = guarded_state s"
      using s' free egress_denied [of "be_tokens E" "bt_proxy b" "rd_now rd" "rd_now_later rd" r "be_codec E" "be_egress E"
          "rd_query rd" "rd_body rd" "proxy_part s'"]
      by (simp add: guarded_state_def egress_surface_def lift_handler_def case_prod_beta set_proxy_def proxy_part_def)
  qed (use free in \<open>simp_all add: webhooks_denied guarded_state_def\<close>)
  then show ?thesis by (simp add: box_step_def PublicRequest)
next
  case (ScrapeRequest r)
  then show ?thesis
    by (simp add: box_step_def metrics_listener_def single_route_def split: mux_result.split)
qed (use assms in simp_all)

text \<open>
  C10. A caller without credentials is powerless: whatever requests are sent to the three listeners of the box, as
  long as each is refused authentication the rooms, the media server, the metering, the recording ledger, the
  cloud sink and the blobs are untouched, no call is made to them, and the registry changes only in the counters
  that count refusals.
\<close>

theorem uncredentialed_run_powerless:
  assumes "all_along (credential_free E b) E b evs s"
  shows "guarded_state (box_run E b evs s) = guarded_state s"
  by (rule box_run_keeps [OF assms, of "\<lambda>s'. guarded_state s' = guarded_state s"])
    (simp_all add: credential_free_step)

definition anonymous :: "string \<Rightarrow> string \<Rightarrow> http_request" where
  "anonymous method path = \<lparr>req_method = method, req_path = path, req_query = [], req_header = [],
     req_remote_addr = ''203.0.113.9:4711'', req_body = []\<rparr>"

lemma anonymous_tokens [simp]:
  "extractTokenFromRequest (anonymous m p) = []" "adminBearerRaw (anonymous m p) = []" "VkPrefix \<noteq> []"
  by (simp_all add: anonymous_def extractTokenFromRequest_def adminBearerRaw_def values_get_def Let_def VkPrefix_def)

lemma rtc_not_platform:
  "\<not> platform_route (E\<lparr>be_apps_base := \<lambda>_. ''/api/apps'', be_mcp_base := \<lambda>_. ''/mcp''\<rparr>) b (anonymous m ''/rtc'')"
proof -
  have "routed_to (sibling_patterns ''/api/apps'' ''/mcp'') ''/rtc'' 7" by code_simp
  from routed_to [OF this] show ?thesis by (simp add: platform_route_def anonymous_def)
qed

theorem uncredentialed_run_powerless_witness:
  "\<forall>(E :: ('tok, 'x, 'u, 'k, 'c, 'cl, 'p, 'ah, 'mh) box_env) (b :: ('ah, 'mh, 'k, 'c, 'd) boot)
      (s :: ('u, 'k, 'c, 'cl, 'd, 'p) box) rd. guarded_state
     (box_run (E\<lparr>be_receive := \<lambda>_ _ _. None, be_apps_base := \<lambda>_. ''/api/apps'', be_mcp_base := \<lambda>_. ''/mcp''\<rparr>)
        (b\<lparr>bt_admin := (bt_admin b)\<lparr>as_admin_token := ''adm''\<rparr>\<rparr>)
        [AdminRequest rd (anonymous ''DELETE'' ''/admin/tenants/acme/rooms/standup''),
         PublicRequest rd (anonymous ''GET'' ''/rtc''), ScrapeRequest (anonymous ''GET'' ''/metrics'')] s) = guarded_state s"
proof (intro allI uncredentialed_run_powerless)
  fix E :: "('tok, 'x, 'u, 'k, 'c, 'cl, 'p, 'ah, 'mh) box_env" and b :: "('ah, 'mh, 'k, 'c, 'd) boot"
    and s :: "('u, 'k, 'c, 'cl, 'd, 'p) box" and rd
  let ?E = "E\<lparr>be_receive := \<lambda>_ _ _. None, be_apps_base := \<lambda>_. ''/api/apps'', be_mcp_base := \<lambda>_. ''/mcp''\<rparr>"
  let ?b = "b\<lparr>bt_admin := (bt_admin b)\<lparr>as_admin_token := ''adm''\<rparr>\<rparr>"
  have "\<not> authentic (be_key_client E) (bt_admin ?b) t t' (anonymous m p) i" for t t' m p i
    by (simp add: authentic_def split: option.split)
  then show "all_along (credential_free ?E ?b) ?E ?b
    [AdminRequest rd (anonymous ''DELETE'' ''/admin/tenants/acme/rooms/standup''),
     PublicRequest rd (anonymous ''GET'' ''/rtc''), ScrapeRequest (anonymous ''GET'' ''/metrics'')] s"
    using rtc_not_platform [of "E\<lparr>be_receive := \<lambda>_ _ _. None\<rparr>" ?b]
    by (simp add: token_refused_def box_receive_def)
qed

section \<open>The registry under every listener\<close>

context registry_law
begin

lemma admin_listener_keeps: "P (gs_metrics s) \<Longrightarrow> P (gs_metrics (snd (admin_listener E b rd r s)))"
  using admin_keeps [of "admin_part s"]
  by (simp add: admin_listener_def lift_handler_def set_admin_def admin_part_def case_prod_beta)

lemma rtc_surface_keeps: "P (gs_metrics s) \<Longrightarrow> P (gs_metrics (snd (rtc_surface E b rd r s)))"
  by (simp add: rtc_keeps)

lemma egress_surface_keeps: "P (gs_metrics s) \<Longrightarrow> P (gs_metrics (snd (egress_surface E b rd r s)))"
  using serve_keeps [of "proxy_part s"]
  by (simp add: egress_surface_def lift_handler_def set_proxy_def proxy_part_def case_prod_beta)

lemma egress_webhook_keeps: "P (gs_metrics s) \<Longrightarrow> P (gs_metrics (snd (egress_webhook E b rd r s)))"
  using webhook_keeps [of "egress_part s"]
  by (auto simp: egress_webhook_def lift_handler_def set_egress_def egress_part_def case_prod_beta
      intro!: single_route_keeps [of "\<lambda>s. P (gs_metrics s)"])

lemma sweep_tick_keeps: "P (gs_metrics s) \<Longrightarrow> P (gs_metrics (sweep_tick b now order s))"
  by (auto simp: sweep_tick_def RunLoop_def case_prod_beta Let_def intro!: pass_keeps)

end

section \<open>The invariant of the box\<close>

text \<open>Every recording is filed under its own id and belongs to a valid tenant and a named room.\<close>

definition ledger_owned :: "tenant \<Rightarrow> mem_store \<Rightarrow> bool" where
  "ledger_owned T l \<longleftrightarrow> store_ok l \<and> list_all (\<lambda>(_, r). validateTenant T (rec_tenant r) = None \<and> rec_room r \<noteq> []) l"

definition limits_shown :: "config \<Rightarrow> metrics option \<Rightarrow> bool" where
  "limits_shown cfg mo \<longleftrightarrow>
     (\<exists>bill. untouched bill (rm_max_participants (cf_room cfg)) (rm_max_rooms (cf_room cfg)) mo)"

definition box_inv :: "('ah, 'mh, 'k, 'c, 'd) boot \<Rightarrow> ('u, 'k, 'c, 'cl, 'd, 'p) box \<Rightarrow> bool" where
  "box_inv b s \<longleftrightarrow>
     metrics_opt_ok (gs_metrics s) \<and> limits_shown (bt_config b) (gs_metrics s) \<and>
     usage_rooms_ok (fst (bt_usage b)) (bx_usage s) \<and> ledger_owned (fst (bt_usage b)) (bx_ledger s) \<and>
     (if bt_cp b = None then bx_reports s = None else queue_ok False (gs_metrics s) (bx_reports s))"

text \<open>What the wiring gives.\<close>

definition box_wired :: "('ah, 'mh, 'k, 'c, 'd) boot \<Rightarrow> bool" where
  "box_wired b \<longleftrightarrow> ec_tenant (bt_egress b) = fst (bt_usage b) \<and> ec_store (bt_egress b) = Some Upsert \<and>
     dr_list (bt_driver b) = List_recordings \<and> dr_set_state (bt_driver b) = SetState"

lemma queue_ok_untouched:
  "untouched bill p r m \<Longrightarrow> untouched bill p r m' \<Longrightarrow> queue_ok c m q = queue_ok c m' q"
  by (rule queue_ok_metrics) (auto simp: untouched_def minutes_metric_def fun_eq_iff split: option.splits)

text \<open>A step that leaves the metering and keeps the registry and the ledger keeps the invariant.\<close>

lemma box_inv_frame:
  assumes inv: "box_inv b s"
    and "metrics_opt_ok (gs_metrics s) \<Longrightarrow> metrics_opt_ok (gs_metrics s')"
    and frame: "\<And>bill p r. untouched bill p r (gs_metrics s) \<Longrightarrow> untouched bill p r (gs_metrics s')"
    and "bx_usage s' = bx_usage s" "bx_reports s' = bx_reports s"
    and "ledger_owned (fst (bt_usage b)) (bx_ledger s) \<Longrightarrow> ledger_owned (fst (bt_usage b)) (bx_ledger s')"
  shows "box_inv b s'"
proof -
  obtain bill where bill: "untouched bill (rm_max_participants (cf_room (bt_config b))) (rm_max_rooms (cf_room (bt_config b))) (gs_metrics s)"
    using inv by (auto simp: box_inv_def limits_shown_def)
  then have "limits_shown (bt_config b) (gs_metrics s')"
    using frame [OF bill] by (auto simp: limits_shown_def)
  moreover have "queue_ok False (gs_metrics s) (bx_reports s) \<Longrightarrow> queue_ok False (gs_metrics s') (bx_reports s)"
    using queue_ok_untouched [OF bill frame [OF bill]] by blast
  ultimately show ?thesis using assms(1,2,4-6) by (auto simp: box_inv_def)
qed

subsection \<open>The ledger\<close>

lemma ledger_owned_put:
  assumes "ledger_owned T l" "rec_egress_id r = k" "k \<noteq> []" "validateTenant T (rec_tenant r) = None" "rec_room r \<noteq> []"
  shows "ledger_owned T (put k r l)"
  using assms by (auto simp: ledger_owned_def store_ok_def list_all_iff dest!: in_set_put)

lemma ledger_owned_lookup:
  "ledger_owned T l \<Longrightarrow> map_of l k = Some r \<Longrightarrow>
     rec_egress_id r = k \<and> k \<noteq> [] \<and> validateTenant T (rec_tenant r) = None \<and> rec_room r \<noteq> []"
  by (auto simp: ledger_owned_def store_ok_def list_all_iff dest!: map_of_SomeD)

lemma ledger_owned_Upsert:
  assumes "ledger_owned T l" "validateTenant T (rec_tenant r) = None" "rec_room r \<noteq> []"
  shows "ledger_owned T (snd (Upsert r l))"
  using assms valid_tenant_nonempty ledger_owned_lookup [OF assms(1)]
  by (auto simp: Upsert_def merge_recording_def intro!: ledger_owned_put split: option.split)

lemma ledger_owned_SetState:
  assumes "ledger_owned T l" shows "ledger_owned T (snd (SetState k st ts l))"
  using ledger_owned_lookup [OF assms] assms
  by (auto simp: SetState_def set_state_of_def Let_def intro!: ledger_owned_put split: option.split recording_state.split)

lemma ledger_owned_sweep:
  "ledger_owned T l \<Longrightarrow> ledger_owned T (fst (snd (snd (sweep_loop SetState del byID ts ids res l d))))"
proof (induction ids arbitrary: res l d)
  case (Cons i ids)
  note owned = Cons.prems ledger_owned_SetState
  show ?case
    by (cases "rec_state (byID i) = RecordingStateExpired"; simp add: Let_def case_prod_beta split: option.split)
      (auto intro!: Cons.IH owned)
qed simp

lemma ledger_owned_event:
  assumes "envelopeFromWebhookBody T now raw = Inr (env, pe)" "ledger_owned T l" "ec_store cfg = Some Upsert"
  shows "ledger_owned T (fst (recordLifecycle cfg now' env pe (l, m)))"
proof -
  have "SplitRoom T (env_full_room env) = Inr (env_tenant env, env_room env)"
    using assms(1) by (auto simp: envelopeFromWebhookBody_def Let_def split: option.splits sum.splits if_splits)
  then show ?thesis
    using SplitRoom_sound [of T] assms(2,3) by (auto simp: recordLifecycle_mem intro!: ledger_owned_Upsert)
qed

lemma ledger_owned_webhook:
  assumes "ledger_owned (ec_tenant cfg) (es_store st)" "ec_store cfg = Some Upsert"
  shows "ledger_owned (ec_tenant cfg) (es_store (snd (egress_handle cfg E now now' r st)))"
  using assms ledger_owned_event [OF _ assms]
  by (auto simp: egress_handle_def Let_def case_prod_beta split: option.split sum.split prod.split)

subsection \<open>Every step\<close>

lemma limits_usage:
  "limits_shown cfg (us_metrics u) \<Longrightarrow> limits_shown cfg (us_metrics (apply_event rep iter now now' ev room t r i u))"
  by (auto simp: limits_shown_def untouched_def apply_event_def ObserveMeetRoom_def ObserveMeetMinutes_def Let_def
      split: option.splits)

lemma metrics_usage [keeps]:
  "metrics_opt_ok (us_metrics u) \<Longrightarrow> metrics_opt_ok (us_metrics (apply_event rep iter now now' ev room t r i u))"
  by (auto simp: apply_event_def Let_def keeps_counters split: option.split)

lemma silent_reports: "us_reports (apply_event None iter now now' ev room t r i u) = us_reports u"
  by (simp add: apply_event_def Let_def split: option.split)

definition usage_inv_of :: "('ah, 'mh, 'k, 'c, 'd) boot \<Rightarrow> 'c cp_queue usage_state \<Rightarrow> bool" where
  "usage_inv_of b u \<longleftrightarrow> metrics_opt_ok (us_metrics u) \<and> limits_shown (bt_config b) (us_metrics u) \<and>
     usage_rooms_ok (fst (bt_usage b)) (us_rooms u) \<and>
     (if bt_cp b = None then us_reports u = None else queue_ok False (us_metrics u) (us_reports u))"

lemma box_inv_parts: "box_inv b s \<longleftrightarrow> usage_inv_of b (usage_part s) \<and> ledger_owned (fst (bt_usage b)) (bx_ledger s)"
  by (auto simp: box_inv_def usage_inv_of_def usage_part_def)

lemma usage_inv_event:
  assumes "usage_inv_of b u" "SplitRoom (fst (bt_usage b)) room = Inr (t, r)"
  shows "usage_inv_of b (apply_event (box_reporter b) iter now now' ev room t r i u)"
proof (cases "bt_cp b")
  case None
  then show ?thesis
    using assms apply_event_rooms [OF _ assms(2), of u]
    by (simp add: usage_inv_of_def box_reporter_def limits_usage metrics_usage silent_reports)
next
  case (Some c)
  then show ?thesis
    using assms meter_inv_event [OF _ assms(2), of False u]
    by (simp add: usage_inv_of_def meter_inv_def box_reporter_def limits_usage metrics_usage)
qed

lemma usage_inv_handle:
  assumes "usage_inv_of b u"
  shows "usage_inv_of b (snd (usage_handle (fst (bt_usage b)) rec (box_reporter b) iter now now' r u))"
  by (rule usage_handle_cases [of "fst (bt_usage b)" rec "box_reporter b" iter now now' r u])
    (use assms usage_inv_event [OF assms] in auto)

lemma usage_inv_worker:
  assumes "usage_inv_of b u" "act = WorkerTake \<or> act = WorkerPost closing"
  shows "usage_inv_of b (meter_step T rec client ok act u)"
proof -
  have "us_metrics (meter_step T rec client ok act u) = us_metrics u" "us_rooms (meter_step T rec client ok act u) = us_rooms u"
    using assms(2) by auto
  moreover have "us_reports u = None \<Longrightarrow> us_reports (meter_step T rec client ok act u) = None"
    using assms(2) by auto
  moreover have "meter_inv (fst (bt_usage b)) False u \<Longrightarrow> meter_inv (fst (bt_usage b)) False (meter_step T rec client ok act u)"
    using meter_inv_step [of "fst (bt_usage b)" False u act rec client ok] assms(2) by auto
  ultimately show ?thesis using assms(1) by (auto simp: usage_inv_of_def meter_inv_def)
qed

lemma box_inv_usage_webhook: "box_inv b s \<Longrightarrow> box_inv b (snd (usage_webhook E b rd r s))"
  unfolding usage_webhook_def
  by (rule single_route_keeps)
    (simp_all add: box_inv_parts meter.lift_view usage_inv_handle, simp add: lift_handler_def set_usage_def case_prod_beta)

lemma box_inv_meter_act:
  "act = WorkerTake \<or> act = WorkerPost closing \<Longrightarrow> box_inv b s \<Longrightarrow> box_inv b (meter_act_on E b act s)"
  by (simp add: meter_act_on_def box_inv_parts meter.view_store usage_inv_worker) (simp add: set_usage_def)

lemma egress_webhook_owned:
  assumes "box_wired b" "ledger_owned (fst (bt_usage b)) (bx_ledger s)"
  shows "ledger_owned (fst (bt_usage b)) (bx_ledger (snd (egress_webhook E b rd r s)))"
  unfolding egress_webhook_def
  by (rule single_route_keeps [where Q = "\<lambda>s'. ledger_owned (fst (bt_usage b)) (bx_ledger s')"])
    (use assms ledger_owned_webhook [of "bt_egress b" "egress_part s"] in
      \<open>simp_all add: box_wired_def lift_handler_def set_egress_def egress_part_def case_prod_beta\<close>)

lemma egress_webhook_unmetered:
  "bx_usage (snd (egress_webhook E b rd r s)) = bx_usage s" "bx_reports (snd (egress_webhook E b rd r s)) = bx_reports s"
  by (simp_all add: egress_webhook_def single_route_def lift_handler_def set_egress_def case_prod_beta split: mux_result.split)

lemma box_inv_egress_webhook: "box_wired b \<Longrightarrow> box_inv b s \<Longrightarrow> box_inv b (snd (egress_webhook E b rd r s))"
  by (erule box_inv_frame)
    (simp_all add: egress_webhook_owned egress_webhook_unmetered well_formed.egress_webhook_keeps frame.egress_webhook_keeps)

lemma box_inv_admin: "box_inv b s \<Longrightarrow> box_inv b (snd (admin_listener E b rd r s))"
  by (erule box_inv_frame)
    (simp_all add: well_formed.admin_listener_keeps frame.admin_listener_keeps,
     simp_all add: admin_listener_def lift_handler_def set_admin_def case_prod_beta)

lemma box_inv_rtc: "box_inv b s \<Longrightarrow> box_inv b (snd (rtc_surface E b rd r s))"
  by (erule box_inv_frame) (simp_all add: well_formed.rtc_keeps frame.rtc_keeps)

lemma box_inv_egress: "box_inv b s \<Longrightarrow> box_inv b (snd (egress_surface E b rd r s))"
  by (erule box_inv_frame)
    (simp_all add: well_formed.egress_surface_keeps frame.egress_surface_keeps,
     simp_all add: egress_surface_def lift_handler_def set_proxy_def case_prod_beta)

lemma box_inv_limiter: "box_inv b s \<Longrightarrow> box_inv b (s\<lparr>gs_limiter := l\<rparr>)"
  by (erule box_inv_frame) simp_all

lemma box_inv_places: "box_inv b s \<Longrightarrow> box_inv b (snd (lift_handler places_part set_places h r s))"
  by (erule box_inv_frame) (simp_all add: lift_handler_def set_places_def case_prod_beta)

lemmas box_inv_listeners = box_inv_admin box_inv_rtc box_inv_egress box_inv_limiter box_inv_places

lemma box_inv_sweep:
  assumes "box_wired b" "box_inv b s" shows "box_inv b (sweep_tick b now order s)"
proof (rule box_inv_frame [OF assms(2)])
  assume "ledger_owned (fst (bt_usage b)) (bx_ledger s)"
  then show "ledger_owned (fst (bt_usage b)) (bx_ledger (sweep_tick b now order s))"
    using assms(1) ledger_owned_sweep
    by (auto simp: sweep_tick_def RunLoop_def RetentionRun_def box_wired_def List_recordings_def case_prod_beta Let_def
        split: option.split)
qed (simp_all add: well_formed.sweep_tick_keeps frame.sweep_tick_keeps, simp_all add: sweep_tick_def case_prod_beta Let_def)

lemma box_inv_step:
  assumes "box_wired b" "box_inv b s" shows "box_inv b (box_step E b ev s)"
proof (cases ev)
  case (PublicRequest rd r)
  have "box_inv b (snd (public_listener E b rd r s))"
    by (rule public_keeps [of "box_inv b", OF assms(2)])
      (simp_all add: box_inv_listeners box_inv_egress_webhook [OF assms(1)] box_inv_usage_webhook)
  then show ?thesis by (simp add: box_step_def PublicRequest)
next
  case (ScrapeRequest r)
  have "box_inv b (snd (metrics_listener E r s))"
    unfolding metrics_listener_def by (rule single_route_keeps) (simp_all add: assms(2))
  then show ?thesis by (simp add: box_step_def ScrapeRequest)
qed (simp_all add: box_step_def assms box_inv_listeners box_inv_sweep box_inv_meter_act)

lemma box_inv_run: "box_wired b \<Longrightarrow> box_inv b s \<Longrightarrow> box_inv b (box_run E b evs s)"
  by (induction evs arbitrary: s) (simp_all add: box_inv_step)

section \<open>The box that came up\<close>

text \<open>A host on which the box comes up, with a control plane: the theorems on a box that came up are not empty.\<close>

definition sample_env :: "string \<Rightarrow> string" where
  "sample_env k = (if k = EnvCPURL then ''http://cp'' else [])"

definition sample_lk :: "unit lk_lib" where
  "sample_lk = \<lparr>mint_jwt = (\<lambda>_ _ _ _. Inr ''jwt''), attach_header = (\<lambda>_. Inr ()), rpc_list_rooms = (\<lambda>_. Inr []),
     rpc_list_participants = (\<lambda>_ _. Inr []), rpc_send_data = (\<lambda>_ _ _ _. Inr ()), rpc_delete_room = (\<lambda>_ _. Inr ())\<rparr>"

definition sample_host :: "(unit, unit, unit, unit, unit, unit, unit, unit, unit, unit, unit) host_env" where
  "sample_host =
     \<lparr>he_read_file = (\<lambda>_. Some []), he_yaml = (\<lambda>_. Some sample_config_doc), he_env = sample_env, he_lk = sample_lk,
      he_clock = int,
      he_platform = \<lparr>pl_scope_apps_read = ''apps:read'', pl_scope_apps_write = ''apps:write'', pl_product_meet = ''meet'',
        pl_new_scope_set = (\<lambda>_. ()), pl_new_dispatcher = (\<lambda>_ _. ())\<rparr>,
      he_open_registry = (\<lambda>_ _. Some ()), he_memory_registry = (\<lambda>_. ()), he_emit = (\<lambda>_. ()),
      he_new_apps = (\<lambda>_. Inr ()), he_new_mcp = (\<lambda>_. Inr ()), he_key_net = (), he_cp_net = (),
      he_cloud_client = (\<lambda>_ _. (Inr 204, ()))\<rparr>"

lemma sample_host_comes_up:
  "case run_setup sample_host ''/etc/meet.yaml'' [] [] of
     Inl _ \<Rightarrow> False
   | Inr b \<Rightarrow> (case bt_cp b of None \<Rightarrow> False | Some c \<Rightarrow> cp_url (uc_cfg c) = ''http://cp'')"
  by code_simp

lemma fresh_client_queue:
  assumes "cp_from_env env net = Inr (Some c)" "untouched [] p r m"
  shows "queue_ok False m (Some (c, no_history))"
proof -
  let ?cfg = "\<lparr>cp_url = env EnvCPURL, cp_shared_secret = env EnvCPSharedSecret, cp_max_attempts = 0,
     cp_base_backoff = 0, cp_queue_size = 0\<rparr>"
  have new: "NewUsageClient ?cfg net = Inr c"
    using assms(1) by (cases "NewUsageClient ?cfg net") (auto simp: cp_from_env_def split: if_splits)
  then have "\<not> uc_closed c" by (auto simp: NewUsageClient_def Let_def split: if_splits)
  moreover have "m \<noteq> None" "minutes_metric m t = 0" for t
    using assms(2) by (auto simp: untouched_def minutes_metric_def count_at_def split: option.splits)
  ultimately show ?thesis using cp_inv_new [OF new] by (simp add: queue_ok_def no_history_def)
qed

lemma booted:
  assumes "run_setup H path adminAddr metricsAddr = Inr b"
  shows "box_wired b" "box_inv b (box_start b u cl d p)" "fst (bt_usage b) = as_tenant (bt_admin b)"
proof -
  note w = boot_wiring [OF assms]
  let ?s = "box_start b u cl d p"
  show "box_wired b" "fst (bt_usage b) = as_tenant (bt_admin b)" using w by (simp_all add: box_wired_def)
  have m: "gs_metrics ?s = SetRoomLimits (rm_max_participants (cf_room (bt_config b))) (rm_max_rooms (cf_room (bt_config b)))
      (Some NewMetrics)"
    using w by (simp add: box_start_def set_admin_def admin_start_def admin_SetRateLimiter_def admin_SetMetrics_def
        SetIntrospector_def Let_def
        split: option.split)
  have fresh: "untouched [] (rm_max_participants (cf_room (bt_config b))) (rm_max_rooms (cf_room (bt_config b))) (gs_metrics ?s)"
    unfolding m by (simp add: untouched_def SetRoomLimits_def NewMetrics_def)
  have parts: "bx_usage ?s = []" "bx_ledger ?s = NewMemRecordingStore"
    "bx_reports ?s = map_option (\<lambda>c. (c, no_history)) (bt_cp b)"
    using w by (simp_all add: box_start_def set_admin_def Let_def)
  have "limits_shown (bt_config b) (gs_metrics ?s)" using fresh by (auto simp: limits_shown_def)
  moreover have "metrics_opt_ok (gs_metrics ?s)" unfolding m by (simp add: keeps)
  moreover have "bt_cp b = Some c \<Longrightarrow> queue_ok False (gs_metrics ?s) (Some (c, no_history))" for c
    using fresh_client_queue [OF _ fresh] w by metis
  ultimately show "box_inv b ?s"
    by (auto simp: box_inv_def parts usage_rooms_ok_def ledger_owned_def store_ok_def NewMemRecordingStore_def)
qed

text \<open>
  C13. The invariant of the running box: from a set-up that succeeded, whatever requests arrive at the three
  listeners and however they interleave with the sweeper and the metering worker, the shared registry stays
  well formed and keeps showing the configured limits, every room that is metered is filed under the tenant
  that owns it, and every recording in the ledger belongs to a valid tenant and a named room.
\<close>

theorem running_box_invariant:
  "case run_setup H path adminAddr metricsAddr of
     Inl _ \<Rightarrow> True
   | Inr b \<Rightarrow>
       (let T = as_tenant (bt_admin b); s = box_run E b evs (box_start b u cl d p) in
        case gs_metrics s of
          None \<Rightarrow> False
        | Some m \<Rightarrow> metrics_ok m \<and> m_maxParticipants m = rm_max_participants (cf_room (bt_config b)) \<and>
            m_maxRooms m = rm_max_rooms (cf_room (bt_config b)) \<and>
            usage_rooms_ok T (bx_usage s) \<and> ledger_owned T (bx_ledger s))"
proof (cases "run_setup H path adminAddr metricsAddr")
  case (Inr b)
  note up = booted [OF Inr]
  show ?thesis
    using box_inv_run [OF up(1,2), of E evs u cl d p] up(3)
    by (auto simp: Inr Let_def box_inv_def limits_shown_def untouched_def split: option.splits)
qed simp

text \<open>
  C12. The bill of the running box: with a control plane configured, after any run the minutes counter of every
  tenant equals (modulo its 64 bits) the minutes its client has settled, still holds and refused, and no
  report ever hits a closed queue; without one nothing is ever reported.
\<close>

theorem running_box_bills_minutes:
  "case run_setup H path adminAddr metricsAddr of
     Inl _ \<Rightarrow> True
   | Inr b \<Rightarrow>
       (let s = box_run E b evs (box_start b u cl d p) in
        case bx_reports s of
          None \<Rightarrow> bt_cp b = None
        | Some (c, h) \<Rightarrow> bt_cp b \<noteq> None \<and>
            minutes_metric (gs_metrics s) t =
              word_of_int (event_minutes t (map fst (h_settled h)) + event_minutes t (pending_events c) +
                event_minutes t (h_refused h)))"
proof (cases "run_setup H path adminAddr metricsAddr")
  case (Inr b)
  note up = booted [OF Inr]
  show ?thesis
    using box_inv_run [OF up(1,2), of E evs u cl d p]
    by (auto simp: Inr Let_def box_inv_def queue_ok_def cp_inv_def pending_events_def split: option.splits if_splits)
qed simp

text \<open>Whether some token of a request is accepted for a room of its tenant.\<close>

definition admitted_owner ::
  "('tok, 'x, 'u, 'k, 'c, 'cl, 'p, 'ah, 'mh) box_env \<Rightarrow> ('ah, 'mh, 'k, 'c, 'd) boot \<Rightarrow> readings \<Rightarrow> http_request \<Rightarrow>
     validated_token \<Rightarrow> bool" where
  "admitted_owner E b rd r vt \<longleftrightarrow>
     (let raw = extractTokenFromRequest r; v = sg_validator (bt_gate b) in raw \<noteq> [] \<and>
        (validate_token (be_tokens E) v (clk_verify (rd_clocks rd)) (clk_ttl (rd_clocks rd)) raw = Inr vt \<or>
         validate_token (be_tokens E) v (rd_now rd) (rd_now_later rd) raw = Inr vt)) \<and>
     EnforceRoom (as_tenant (bt_admin b)) (vt_tenant vt) (vt_full_room vt) = None"

lemma admitted_ownerI:
  assumes "\<not> token_refused (be_tokens E) (sg_validator (bt_gate b)) now now' r"
    and "val_tenant (sg_validator (bt_gate b)) = as_tenant (bt_admin b)"
    and "(now, now') \<in> {(clk_verify (rd_clocks rd), clk_ttl (rd_clocks rd)), (rd_now rd, rd_now_later rd)}"
  shows "\<exists>vt. admitted_owner E b rd r vt"
proof -
  obtain vt where vt: "validate_token (be_tokens E) (sg_validator (bt_gate b)) now now' (extractTokenFromRequest r) = Inr vt"
    using assms(1) by (cases "validate_token (be_tokens E) (sg_validator (bt_gate b)) now now' (extractTokenFromRequest r)")
      (auto simp: token_refused_def)
  show ?thesis
    using vt assms validate_accepts_room(1) [OF vt]
    by (intro exI [of _ vt]) (auto simp: admitted_owner_def token_refused_def Let_def)
qed

lemma webhooks_keep_upstream:
  "gs_upstream (snd (egress_webhook E b rd r s)) = gs_upstream s" "gs_upstream (snd (usage_webhook E b rd r s)) = gs_upstream s"
  by (simp_all add: egress_webhook_def usage_webhook_def single_route_def lift_handler_def set_egress_def set_usage_def
      case_prod_beta split: mux_result.split)

text \<open>
  C11. The media server is reached through an owner only: on a box that came up, a request to the public listener,
  wherever it is routed, leaves the proxied media server alone unless it carries a token that the one validator
  accepts and whose tenant owns the token's room by the same tenant gate the admin surface uses.
\<close>

theorem media_server_needs_owner:
  "case run_setup H path adminAddr metricsAddr of
     Inl _ \<Rightarrow> True
   | Inr b \<Rightarrow> gs_upstream (snd (public_listener E b rd r s)) = gs_upstream s \<or> (\<exists>vt. admitted_owner E b rd r vt)"
proof (cases "run_setup H path adminAddr metricsAddr")
  case (Inr b)
  note w = boot_wiring [OF Inr]
  have v: "val_tenant (sg_validator (bt_gate b)) = as_tenant (bt_admin b)" "ep_validator (bt_proxy b) = sg_validator (bt_gate b)"
    using w by simp_all
  let ?Q = "\<lambda>s'. gs_upstream s' = gs_upstream s \<or> (\<exists>vt. admitted_owner E b rd r vt)"
  have rtc: "?Q s' \<Longrightarrow> ?Q (snd (rtc_surface E b rd r s'))" for s'
    using rtc_denied [of "be_tokens E" "bt_gate b" "rd_clocks rd" r "be_rtc E" "trusts_proxy E" "gate_part s'"]
      admitted_ownerI [OF _ v(1), of E "clk_verify (rd_clocks rd)" "clk_ttl (rd_clocks rd)" r rd]
    by (cases "token_refused (be_tokens E) (sg_validator (bt_gate b)) (clk_verify (rd_clocks rd)) (clk_ttl (rd_clocks rd)) r") auto
  have egress: "?Q s' \<Longrightarrow> ?Q (snd (egress_surface E b rd r s'))" for s'
    using egress_denied [of "be_tokens E" "bt_proxy b" "rd_now rd" "rd_now_later rd" r "be_codec E" "be_egress E"
        "rd_query rd" "rd_body rd" "proxy_part s'"]
      admitted_ownerI [OF _ v(1), of E "rd_now rd" "rd_now_later rd" r rd]
    by (cases "token_refused (be_tokens E) (sg_validator (bt_gate b)) (rd_now rd) (rd_now_later rd) r")
      (auto simp: v(2) egress_surface_def lift_handler_def set_proxy_def proxy_part_def case_prod_beta)
  have "?Q (snd (public_listener E b rd r s))"
    by (rule public_keeps [of ?Q])
      (use rtc egress in \<open>auto simp: webhooks_keep_upstream lift_handler_def set_places_def case_prod_beta\<close>)
  then show ?thesis by (simp add: Inr)
qed simp

end
