(* ===== verification/Meet_Cli.thy ===== *)
theory Meet_Cli
  imports Meet_Main
begin

text \<open>
  The command line (\<open>main\<close> in \<^verbatim>\<open>cmd/vulos-meet/main.go\<close>): the four flags as \<^verbatim>\<open>flag.Parse\<close> reads them,
  what is run, and the exit status. The lemmas show that options written in any of the usual ways read back with
  the last one of a name winning, which source decides the listening addresses, and when the process ends
  with which status.
\<close>

section \<open>Flags\<close>

record flag_values =
  fl_config :: string
  fl_addr :: string
  fl_metrics_addr :: string
  fl_version :: bool

definition default_flags :: flag_values where
  "default_flags = \<lparr>fl_config = [], fl_addr = [], fl_metrics_addr = [], fl_version = False\<rparr>"

datatype flag_error = FlagHelp | FlagBadSyntax | FlagUndefined | FlagBadBool | FlagNoValue

definition minus :: char where "minus = CHR ''-''"
definition equals :: char where "equals = CHR ''=''"

text \<open>\<^verbatim>\<open>strconv.ParseBool\<close>.\<close>

definition ParseBool :: "string \<Rightarrow> bool option" where
  "ParseBool s =
     (if s \<in> {''1'', ''t'', ''T'', ''true'', ''TRUE'', ''True''} then Some True
      else if s \<in> {''0'', ''f'', ''F'', ''false'', ''FALSE'', ''False''} then Some False
      else None)"

definition set_string_flag :: "string \<Rightarrow> string \<Rightarrow> flag_values \<Rightarrow> flag_values option" where
  "set_string_flag name value f =
     (if name = ''config'' then Some (f\<lparr>fl_config := value\<rparr>)
      else if name = ''addr'' then Some (f\<lparr>fl_addr := value\<rparr>)
      else if name = ''metrics-addr'' then Some (f\<lparr>fl_metrics_addr := value\<rparr>)
      else None)"

text \<open>The name and the value of a flag: the text after the first equals sign that is not the first character.\<close>

definition split_flag :: "string \<Rightarrow> string \<times> string option" where
  "split_flag body =
     (case index_of (tl body) [equals] of
        None \<Rightarrow> (body, None)
      | Some i \<Rightarrow> (take (Suc i) body, Some (drop (i + 2) body)))"

text \<open>One flag: its error, or the new values and what is left of the arguments.\<close>

definition flag_set ::
  "string \<Rightarrow> string option \<Rightarrow> string list \<Rightarrow> flag_values \<Rightarrow> flag_error + flag_values \<times> string list" where
  "flag_set name value args f =
     (if name = ''version'' then
        (case value of
           None \<Rightarrow> Inr (f\<lparr>fl_version := True\<rparr>, args)
         | Some v \<Rightarrow> (case ParseBool v of None \<Rightarrow> Inl FlagBadBool | Some x \<Rightarrow> Inr (f\<lparr>fl_version := x\<rparr>, args)))
      else if set_string_flag name [] f = None then
        (if name = ''help'' \<or> name = ''h'' then Inl FlagHelp else Inl FlagUndefined)
      else case value of
        Some v \<Rightarrow> Inr (the (set_string_flag name v f), args)
      | None \<Rightarrow>
          (case args of [] \<Rightarrow> Inl FlagNoValue | v # rest \<Rightarrow> Inr (the (set_string_flag name v f), rest)))"

text \<open>\<open>parseOne\<close>: \<open>None\<close> when the flags have ended, with the remaining arguments.\<close>

definition flag_parseOne ::
  "string list \<Rightarrow> flag_values \<Rightarrow> string list + (flag_error + flag_values \<times> string list)" where
  "flag_parseOne args f =
     (case args of
        [] \<Rightarrow> Inl []
      | s # rest \<Rightarrow>
          if length s < 2 \<or> hd s \<noteq> minus then Inl args
          else if s = [minus, minus] then Inl rest
          else let body = (if s ! 1 = minus then drop 2 s else drop 1 s)
               in if body = [] \<or> hd body = minus \<or> hd body = equals then Inr (Inl FlagBadSyntax)
                  else Inr (case split_flag body of (name, value) \<Rightarrow> flag_set name value rest f))"

lemma flag_set_shorter: "flag_set name value args f = Inr (f', rest) \<Longrightarrow> length rest \<le> length args"
  by (auto simp: flag_set_def split: if_splits option.splits list.splits)

lemma flag_parseOne_shorter: "flag_parseOne args f = Inr (Inr (f', rest)) \<Longrightarrow> length rest < length args"
  by (auto simp: flag_parseOne_def Let_def le_imp_less_Suc dest!: flag_set_shorter
      split: list.splits if_splits prod.splits)

function flag_Parse :: "string list \<Rightarrow> flag_values \<Rightarrow> flag_error + flag_values \<times> string list" where
  "flag_Parse args f =
     (case flag_parseOne args f of
        Inl rest \<Rightarrow> Inr (f, rest)
      | Inr (Inl e) \<Rightarrow> Inl e
      | Inr (Inr (f', rest)) \<Rightarrow> flag_Parse rest f')"
  by pat_completeness auto
termination
  by (relation "measure (\<lambda>(args, f). length args)") (auto dest: flag_parseOne_shorter)

declare flag_Parse.simps [simp del]

section \<open>The program\<close>

text \<open>The exit status and what was run. \<open>runs\<close> gives the error of \<open>run\<close>, if any.\<close>

datatype main_action = PrintUsage | PrintVersion | RunServer string string string

definition main_program :: "(string \<Rightarrow> string \<Rightarrow> string \<Rightarrow> 'e option) \<Rightarrow> string list \<Rightarrow> main_action \<times> int" where
  "main_program runs args =
     (case flag_Parse args default_flags of
        Inl e \<Rightarrow> (PrintUsage, if e = FlagHelp then 0 else 2)
      | Inr (f, _) \<Rightarrow>
          if fl_version f then (PrintVersion, 0)
          else (RunServer (fl_config f) (fl_addr f) (fl_metrics_addr f),
                case runs (fl_config f) (fl_addr f) (fl_metrics_addr f) of None \<Rightarrow> 0 | Some _ \<Rightarrow> 1))"

text \<open>
  What \<open>run\<close> returns: the error of the set-up. Once the servers are started it returns \<^verbatim>\<open>nil\<close>, also when it
  stops because a subsystem failed.
\<close>

definition run_result ::
  "('ctx, 'reg, 'scopes, 'disp, 'emit, 'e, 'ah, 'mh, 'k, 'c, 'd) host_env \<Rightarrow> string \<Rightarrow> string \<Rightarrow> string \<Rightarrow> 'e boot_error option" where
  "run_result H config addr metrics = (case run_setup H config addr metrics of Inl e \<Rightarrow> Some e | Inr _ \<Rightarrow> None)"

section \<open>Writing options\<close>

datatype string_option = ConfigOption | AddrOption | MetricsAddrOption

fun option_name :: "string_option \<Rightarrow> string" where
  "option_name ConfigOption = ''config''"
| "option_name AddrOption = ''addr''"
| "option_name MetricsAddrOption = ''metrics-addr''"

text \<open>An option as it is written: with two dashes or one, with an equals sign or the value as the next argument.\<close>

datatype cli_option = StringOption string_option bool bool string | VersionOption bool

fun write_option :: "cli_option \<Rightarrow> string list" where
  "write_option (StringOption n dashes eq v) =
     (let flag = (if dashes then [minus, minus] else [minus]) @ option_name n
      in if eq then [flag @ equals # v] else [flag, v])"
| "write_option (VersionOption dashes) = [(if dashes then [minus, minus] else [minus]) @ ''version'']"

fun apply_option :: "cli_option \<Rightarrow> flag_values \<Rightarrow> flag_values" where
  "apply_option (StringOption ConfigOption _ _ v) f = f\<lparr>fl_config := v\<rparr>"
| "apply_option (StringOption AddrOption _ _ v) f = f\<lparr>fl_addr := v\<rparr>"
| "apply_option (StringOption MetricsAddrOption _ _ v) f = f\<lparr>fl_metrics_addr := v\<rparr>"
| "apply_option (VersionOption _) f = f\<lparr>fl_version := True\<rparr>"

section \<open>What is written is read\<close>

lemma option_name_facts [simp]:
  "option_name n \<noteq> []" "equals \<notin> set (option_name n)" "hd (option_name n) \<noteq> minus" "hd (option_name n) \<noteq> equals"
  "option_name n \<noteq> ''version''" "option_name n ! 0 \<noteq> minus"
  by (cases n; simp add: equals_def minus_def)+

lemma set_string_flag_option: "set_string_flag (option_name n) v f = Some (apply_option (StringOption n x y v) f)"
  by (cases n) (simp_all add: set_string_flag_def)

lemma split_flag_plain: "equals \<notin> set name \<Longrightarrow> split_flag name = (name, None)"
  by (cases name) (simp_all add: split_flag_def index_of_char_None)

lemma split_flag_value: "name \<noteq> [] \<Longrightarrow> equals \<notin> set name \<Longrightarrow> split_flag (name @ equals # v) = (name, Some v)"
  by (cases name) (simp_all add: split_flag_def index_of_char_append)

lemma read_flag:
  assumes "body \<noteq> []" "hd body \<noteq> minus" "hd body \<noteq> equals"
  shows "flag_parseOne (((if dashes then [minus, minus] else [minus]) @ body) # rest) f =
    Inr (case split_flag body of (name, value) \<Rightarrow> flag_set name value rest f)"
  using assms by (cases body) (auto simp: flag_parseOne_def Let_def)

lemma flag_set_option:
  "flag_set (option_name n) (Some v) rest f = Inr (apply_option (StringOption n x y v) f, rest)"
  "flag_set (option_name n) None (v # rest) f = Inr (apply_option (StringOption n x y v) f, rest)"
  by (simp_all add: flag_set_def set_string_flag_option [of n _ _ x y])

lemma read_option: "flag_parseOne (write_option opt @ rest) f = Inr (Inr (apply_option opt f, rest))"
proof (cases opt)
  case (StringOption n dashes eq v)
  have "hd (option_name n @ equals # v) = hd (option_name n)" by simp
  then show ?thesis
    using read_flag [of "option_name n @ equals # v" dashes rest f] read_flag [of "option_name n" dashes "v # rest" f]
    by (simp add: StringOption Let_def split_flag_plain split_flag_value flag_set_option [of n v rest f dashes eq])
next
  case (VersionOption dashes)
  have "split_flag ''version'' = (''version'', None)" by (rule split_flag_plain) (simp add: equals_def)
  then show ?thesis
    using read_flag [of "''version''" dashes rest f] by (simp add: VersionOption flag_set_def minus_def equals_def)
qed

lemma read_options:
  "flag_Parse (concat (map write_option opts) @ rest) f = flag_Parse rest (foldl (\<lambda>f opt. apply_option opt f) f opts)"
proof (induction opts arbitrary: f)
  case (Cons opt opts)
  have "flag_Parse (write_option opt @ concat (map write_option opts) @ rest) f =
      flag_Parse (concat (map write_option opts) @ rest) (apply_option opt f)"
    by (subst flag_Parse.simps) (simp add: read_option)
  then show ?case using Cons.IH by simp
qed simp

lemma command_line_read:
  "flag_Parse (concat (map write_option opts)) f = Inr (foldl (\<lambda>f opt. apply_option opt f) f opts, []) \<and>
   flag_Parse (concat (map write_option opts) @ [minus, minus] # rest) f =
     Inr (foldl (\<lambda>f opt. apply_option opt f) f opts, rest)"
proof -
  have "flag_Parse [] g = Inr (g, [])" "flag_Parse ([minus, minus] # rest) g = Inr (g, rest)" for g
    by (subst flag_Parse.simps; simp add: flag_parseOne_def)+
  then show ?thesis using read_options [of opts "[]" f] read_options [of opts "[minus, minus] # rest" f] by simp
qed

section \<open>Who decides the addresses\<close>

text \<open>The values an option was given, in order, and the one that counts: the last, or none.\<close>

fun given_values :: "string_option \<Rightarrow> cli_option \<Rightarrow> string list" where
  "given_values n (StringOption k _ _ v) = (if k = n then [v] else [])"
| "given_values n (VersionOption _) = []"

definition given :: "string_option \<Rightarrow> cli_option list \<Rightarrow> string" where
  "given n opts = last ([] # concat (map (given_values n) opts))"

text \<open>The first source that says anything.\<close>

definition first_set :: "string list \<Rightarrow> string" where
  "first_set xs = (case find (\<lambda>x. x \<noteq> []) xs of Some x \<Rightarrow> x | None \<Rightarrow> [])"

lemma given_snoc: "given n (opts @ [opt]) = last (given n opts # given_values n opt)"
  by (simp add: given_def)

lemma applied_options:
  "foldl (\<lambda>f opt. apply_option opt f) default_flags opts =
     \<lparr>fl_config = given ConfigOption opts, fl_addr = given AddrOption opts, fl_metrics_addr = given MetricsAddrOption opts,
      fl_version = (\<exists>d. VersionOption d \<in> set opts)\<rparr>"
proof (induction opts rule: rev_induct)
  case Nil
  then show ?case by (simp add: default_flags_def given_def)
next
  case (snoc opt opts)
  show ?case
  proof (cases opt)
    case (StringOption n d e v)
    then show ?thesis by (cases n) (auto simp: snoc given_snoc)
  next
    case (VersionOption d)
    then show ?thesis by (auto simp: snoc given_snoc)
  qed
qed

lemma setup_config:
  assumes "run_setup H path adminAddr metricsAddr = Inr b"
  obtains cfg where "LoadConfig (he_read_file H) (he_yaml H) (he_env H) path = Inr cfg"
    "bt_config b = override_addr adminAddr cfg"
    "bt_metrics_addr b = (if metricsAddr = [] then ''127.0.0.1:7882'' else metricsAddr)"
proof -
  obtain cfg where "LoadConfig (he_read_file H) (he_yaml H) (he_env H) path = Inr cfg"
    using assms by (auto simp: run_setup_def and_then_Inr)
  moreover from this have "bt_config b = override_addr adminAddr cfg \<and>
      bt_metrics_addr b = (if metricsAddr = [] then ''127.0.0.1:7882'' else metricsAddr)"
    using assms by (auto simp: run_setup_def and_then_Inr Let_def split: if_splits)
  ultimately show thesis using that by blast
qed

lemma loaded_admin_addr:
  assumes "LoadConfig readFile yaml env path = Inr cfg"
  obtains raw doc where "readFile path = Some raw" "yaml raw = Some doc" "cfg = finish_config env doc"
    "ac_addr (cf_admin cfg) = first_set [env ''MEET_ADMIN_ADDR'', ac_addr (cf_admin doc), ''127.0.0.1:7881'']"
proof -
  obtain raw doc where f: "readFile path = Some raw" "yaml raw = Some doc" "cfg = finish_config env doc"
    using assms ParseConfig_InrD by (auto simp: LoadConfig_def split: if_splits option.splits) blast
  moreover have "ac_addr (cf_admin (finish_config env doc)) =
      first_set [env ''MEET_ADMIN_ADDR'', ac_addr (cf_admin doc), ''127.0.0.1:7881'']"
    by (simp add: finish_config_def applyDefaults_def applyEnv_def Let_def AdminAddrEnv_def first_set_def)
  ultimately show thesis using that by blast
qed

text \<open>
  C32. The operator's word counts in this order: the command line, the environment, the file, the default.
  For options written in any order, with one dash or two, with an equals sign or the value as the next
  argument, the last one of a name counts: with \<^verbatim>\<open>-version\<close> among them nothing is started, otherwise the server
  runs from the file of the last \<^verbatim>\<open>-config\<close>. When it comes up, the admin surface has the last \<^verbatim>\<open>-addr\<close>, or else
  \<^verbatim>\<open>MEET_ADMIN_ADDR\<close>, or else the address of the file, or else loopback; \<^verbatim>\<open>/metrics\<close> has the last \<^verbatim>\<open>-metrics-addr\<close> or
  loopback; and nothing but the admin address differs from what the file and the environment say. The exit
  status is zero when it came up and one when not.
\<close>

theorem operator_precedence:
  "if \<exists>d. VersionOption d \<in> set opts
   then main_program (run_result H) (concat (map write_option opts)) = (PrintVersion, 0)
   else main_program (run_result H) (concat (map write_option opts)) =
       (RunServer (given ConfigOption opts) (given AddrOption opts) (given MetricsAddrOption opts),
        if \<exists>b. run_setup H (given ConfigOption opts) (given AddrOption opts) (given MetricsAddrOption opts) = Inr b then 0 else 1) \<and>
     (case run_setup H (given ConfigOption opts) (given AddrOption opts) (given MetricsAddrOption opts) of
        Inl _ \<Rightarrow> True
      | Inr b \<Rightarrow> \<exists>raw doc. he_read_file H (given ConfigOption opts) = Some raw \<and> he_yaml H raw = Some doc \<and>
          (let loaded = finish_config (he_env H) doc
           in bt_config b = loaded\<lparr>cf_admin := (cf_admin loaded)\<lparr>ac_addr := first_set
                [given AddrOption opts, he_env H ''MEET_ADMIN_ADDR'', ac_addr (cf_admin doc), ''127.0.0.1:7881'']\<rparr>\<rparr>) \<and>
          bt_metrics_addr b = first_set [given MetricsAddrOption opts, ''127.0.0.1:7882''])"
proof -
  let ?c = "given ConfigOption opts" and ?a = "given AddrOption opts" and ?m = "given MetricsAddrOption opts"
  have run: "main_program (run_result H) (concat (map write_option opts)) =
      (if \<exists>d. VersionOption d \<in> set opts then (PrintVersion, 0)
       else (RunServer ?c ?a ?m, if \<exists>b. run_setup H ?c ?a ?m = Inr b then 0 else 1))"
    using command_line_read [of opts default_flags]
    by (simp add: main_program_def applied_options run_result_def split: sum.split)
  have boot: "\<exists>raw doc. he_read_file H ?c = Some raw \<and> he_yaml H raw = Some doc \<and>
      (let loaded = finish_config (he_env H) doc
       in bt_config b = loaded\<lparr>cf_admin := (cf_admin loaded)\<lparr>ac_addr := first_set
            [?a, he_env H ''MEET_ADMIN_ADDR'', ac_addr (cf_admin doc), ''127.0.0.1:7881'']\<rparr>\<rparr>) \<and>
      bt_metrics_addr b = first_set [?m, ''127.0.0.1:7882'']" if b: "run_setup H ?c ?a ?m = Inr b" for b
  proof -
    obtain cfg where cfg: "LoadConfig (he_read_file H) (he_yaml H) (he_env H) ?c = Inr cfg"
      "bt_config b = override_addr ?a cfg" "bt_metrics_addr b = (if ?m = [] then ''127.0.0.1:7882'' else ?m)"
      by (rule setup_config [OF b])
    obtain raw doc where f: "he_read_file H ?c = Some raw" "he_yaml H raw = Some doc" "cfg = finish_config (he_env H) doc"
      "ac_addr (cf_admin cfg) = first_set [he_env H ''MEET_ADMIN_ADDR'', ac_addr (cf_admin doc), ''127.0.0.1:7881'']"
      by (rule loaded_admin_addr [OF cfg(1)])
    have "bt_config b = cfg\<lparr>cf_admin := (cf_admin cfg)\<lparr>ac_addr := first_set
        [?a, he_env H ''MEET_ADMIN_ADDR'', ac_addr (cf_admin doc), ''127.0.0.1:7881'']\<rparr>\<rparr>"
      using f(4) by (simp add: cfg(2) override_addr_def first_set_def)
    moreover have "bt_metrics_addr b = first_set [?m, ''127.0.0.1:7882'']" by (simp add: cfg(3) first_set_def)
    ultimately show ?thesis using f(1-3) by (auto simp: Let_def)
  qed
  show ?thesis using run boot by (simp split: sum.split)
qed

text \<open>
  The exit status: it is zero exactly for the help text, the version and a server that started, two for a bad
  command line, and one when the set-up fails. A server that stops because a subsystem failed also exits with
  zero.
\<close>

theorem exit_status:
  "case main_program (run_result H) args of
     (PrintUsage, status) \<Rightarrow>
       (case flag_Parse args default_flags of Inl e \<Rightarrow> status = (if e = FlagHelp then 0 else 2) | Inr _ \<Rightarrow> False)
   | (PrintVersion, status) \<Rightarrow> status = 0
   | (RunServer config addr metrics, status) \<Rightarrow>
       (case run_setup H config addr metrics of Inl _ \<Rightarrow> status = 1 | Inr _ \<Rightarrow> status = 0)"
  by (simp add: main_program_def run_result_def split: sum.split prod.split)

end
