(* ===== verification/Spec2Isabelle.thy ===== *)
theory Spec2Isabelle
  imports Egress_Receiver Meet_Lifecycle Box_Safety Meet_Cli
begin

text \<open>
  Vulos Meet (\<^verbatim>\<open>cmd/vulos-meet\<close>, \<^verbatim>\<open>internal/wrap\<close>, \<^verbatim>\<open>internal/cp\<close>,
  \<^verbatim>\<open>internal/apikey\<close>, \<^verbatim>\<open>web\<close>) is a Go program that runs a LiveKit server as a child process
  and puts four HTTP surfaces in front of it: the public signaling gate, the egress (recording) proxy behind the
  same listener, the private admin surface, and the metrics scrape. What it must get right is that no tenant
  reaches the rooms of another, that recordings are kept and deleted by policy, that the meeting minutes are
  billed once, and that load and outages stay bounded. This development models that Go code and proves it.

  Parts, in the order of the imports, with the sources they model (paths under \<^verbatim>\<open>src/internal/wrap\<close>
  unless a path is given).

  The Go language and its libraries.
  \<^item> \<open>Meet_Prelude\<close>: byte strings, 64-bit integers, time, maps as association lists with distinct keys.
  \<^item> \<open>Go_Float\<close>: \<^verbatim>\<open>float64\<close> as rationals with rounding to nearest even after every operation
    (locale \<open>float_rounding\<close>); \<open>Go_Std\<close>: splitting, numbers, IP addresses; \<open>Go_Http\<close>, \<open>Go_Mux\<close>:
    requests, responses and \<^verbatim>\<open>http.ServeMux\<close>; \<open>Go_Json\<close>, \<open>Json_Roundtrip\<close>, \<open>Json_Compact\<close>: the decoder
    and the encoder of \<^verbatim>\<open>encoding/json\<close>, that they are inverse, and that compaction keeps the meaning of any
    raw message; \<open>Go_Url\<close>: \<^verbatim>\<open>url.Parse\<close>; \<open>Go_Sha256\<close>.

  Tenants and admission.
  \<^item> \<open>Tenant_Gate\<close> (tenant.go): qualified room ids and the check every surface uses; locale
    \<open>room_namespace\<close>. Exactness of \<open>EnforceRoom\<close>, isolation of tenants.
  \<^item> \<open>Token_Validator\<close> (auth.go): every check of \<open>Validate\<close> in order; it accepts exactly the stated tokens.
  \<^item> \<open>Rate_Limiter\<close> (ratelimit.go): token buckets in \<^verbatim>\<open>float64\<close>; throughput over any window of any life up to
    rounding, independence of keys (locale \<open>keyed_limiter\<close>), eviction is unobservable.
  \<^item> \<open>Room_Service\<close> (rooms.go, rooms_livekit.go): the in-memory rooms (locale \<open>room_store\<close>) and the LiveKit
    client with its circuit breaker, which refines a closed/open/half-open machine and bounds the load.
  \<^item> \<open>Signal_Gate\<close> (signal.go): \<^verbatim>\<open>/rtc\<close>, the room ceiling and the forward.

  Recordings.
  \<^item> \<open>Egress_Proxy\<close> (egress_proxy.go, egress_authz.go) and \<open>Storage_Seam\<close> (storage_seam.go,
    egress_storage.go; locale \<open>seam_rewrite\<close>): which egress requests go upstream, and how a trusted broker's
    storage is written into them.
  \<^item> \<open>Egress_Receiver\<close> (recording.go): the webhook, the ledger update and the forward with retries.
  \<^item> \<open>Recording_Ledger\<close>, \<open>Retention_Policy\<close>, \<open>Retention_Driver\<close> (retention.go, recording_cloud.go; locale
    \<open>recording_store\<close>): lifecycle states, which recordings are past retention, and the sweep.

  Metering.
  \<^item> \<open>Usage_Meter\<close> (usage.go): participant minutes from webhook events; \<open>Cp_Client\<close>
    (\<^verbatim>\<open>internal/cp/usage.go\<close>): the bounded queue, its worker and \<open>Close\<close> as a step relation;
    \<open>Metering_Pipeline\<close>: the two together, under every interleaving.

  Operation.
  \<^item> \<open>Metrics\<close> and \<open>Metrics_Text\<close> (metrics.go): the registry, its invariant over every sequence of
    operations, and the scrape, which reads back as the entries of the registry's fields.
  \<^item> \<open>Api_Key\<close> (\<^verbatim>\<open>internal/apikey/apikey.go\<close>): key introspection with its cache.
  \<^item> \<open>Admin_Server\<close> (admin.go, georoute.go, healthz.go): both ways to authenticate, the routes and handlers.
  \<^item> \<open>Meet_Config\<close> (config.go): environment, defaults, checks; \<open>Livekit_Supervisor\<close> (supervise.go,
    cluster.go): the child's configuration, the Redis self-check, the start of the child.
  \<^item> \<open>Apps_Adapter\<close> (apps.go): what installed apps may read and send; \<open>Web_Client\<close> (\<^verbatim>\<open>web/embed.go\<close>).
  \<^item> \<open>Meet_Main\<close> (\<^verbatim>\<open>cmd/vulos-meet/main.go\<close>): the set-up in the order of \<open>run\<close>, when it
    succeeds, the one identity and room ownership it gives every surface, the public listener;
    \<open>Meet_Lifecycle\<close>: its goroutines, the wait and the shutdown as a step relation, whose end is inevitable;
    \<open>Meet_Cli\<close>: the command line, who decides the addresses, and the exit status of \<open>main\<close>.
  \<^item> \<open>Shared_Registry\<close>, \<open>Meet_Box\<close>, \<open>Box_Safety\<close>: the whole running box. Every component works on its part
    of one state (locale \<open>state_part\<close>); what all of them keep of the registry they share is proved once
    (locale \<open>registry_law\<close>, interpreted on its well-formedness and on the entries only the metering changes).
    From the boot record on, for every sequence of requests, sweeps and worker steps: a caller without
    credentials is powerless, the media server is reached through an owner only, the invariant of the state, and
    the account of the metered minutes.

  How state and effects are modelled. A struct is a record, a sum of constants a datatype; a method that changes
  state takes and returns it. What a mutex protects is one atomic step; what runs outside it (the breaker's two
  halves, the worker, the sweep against the webhooks, the goroutines of \<open>run\<close>) is a separate step, and the
  properties hold for every order of steps. An error is the left of a sum or \<open>Some\<close>, \<^verbatim>\<open>nil\<close> is \<open>None\<close>, a
  panic is \<open>None\<close> of the result. The clock is an argument, one reading per call of \<^verbatim>\<open>time.Now\<close>. The order in
  which Go iterates a map is an argument or proved not to matter. 64-bit integers are words or integers with
  \<open>wrap64\<close>; lengths and small counters that cannot overflow are integers.

  Loops. All definitions are total. The retry loops recurse on the number of attempts left, which is what the code
  bounds them by; the JSON parser runs with fuel twice the length of its input plus two, which suffices because
  no byte needs more than two nested steps (\<open>json_value_roundtrip\<close> shows that it reads back everything the encoder
  writes, at any size). The sweep loop of the driver runs over a list of ticks.

  Parameters. The JWT library, LiveKit's webhook verification, Twirp client and protobuf codec, the YAML decoder,
  the app platform (\<^verbatim>\<open>vulos-apps\<close>), HTTP clients, DNS-free address parsing of the control plane URL, the
  operating system and the Unicode printability table are arguments of the definitions that use them; no law about
  them is assumed beyond the hypotheses a theorem states.

  Not modelled: log lines and the text of the usage message; timeouts and cancellation inside a single
  library call (such a call returns one of its results); the contents of responses that LiveKit produces; the
  JavaScript of the web client. In \<open>Meet_Lifecycle\<close> the work of a subsystem is reduced to when and how it ends; in \<open>Meet_Box\<close>
  a request is one step, the steps inside it being those of the component theories, and the metering client is never
  closed there: \<open>run\<close> closes it only after the listeners, which is the part of \<open>Meet_Lifecycle\<close>. Of the libraries:
  the reverse proxy's own \<^verbatim>\<open>X-Forwarded-For\<close> header and rewriting of the URL, what \<^verbatim>\<open>http.ServeMux\<close> does with
  \<^verbatim>\<open>CONNECT\<close>, the folding of JSON keys beyond ASCII, and the replacement of invalid UTF-8 when a name is encoded.
\<close>

end
